(* ===== verification/Prelude.thy ===== *)
theory Prelude
  imports Main "HOL-Library.Word" "HOL-Library.Monad_Syntax"
begin

section \<open>Shared types, C helpers and list lemmas\<close>

text \<open>
  What every component of the development uses: names for the machine types of the code
  (the driver, the server and Unity are built for LP64: \<open>int\<close> has 32 bits, \<open>long\<close>,
  \<open>size_t\<close>, \<open>loff_t\<close> and pointers have 64), guarded array accesses, and generic lemmas.

  Convention: in a result of type \<open>'a option\<close> that stands for running a piece of C,
  \<open>None\<close> means that the code gives no value: it reads or writes outside an object, uses a
  NULL or freed pointer, overflows a signed integer, or never returns. Every claim that the
  code behaves is therefore a claim that the result is \<open>Some\<close>.
\<close>

type_synonym u8 = "8 word"
type_synonym u32 = "32 word"
type_synonym u64 = "64 word"
type_synonym byte = "8 word"
type_synonym addr = "64 word"

abbreviation (input) NULL :: addr where "NULL \<equiv> 0"

text \<open>The byte of a line feed.\<close>

abbreviation (input) newline :: byte where "newline \<equiv> 10"

named_theorems wf_intros "introduction of the well-formedness invariants"
named_theorems step_simps "one-step behaviour of the operations"

subsection \<open>Guarded array access\<close>

definition array_get :: "'a list \<Rightarrow> nat \<Rightarrow> 'a option" where
  "array_get xs i = (if i < length xs then Some (xs ! i) else None)"

definition array_set :: "'a list \<Rightarrow> nat \<Rightarrow> 'a \<Rightarrow> 'a list option" where
  "array_set xs i x = (if i < length xs then Some (xs[i := x]) else None)"

lemma array_get_in [simp]: "i < length xs \<Longrightarrow> array_get xs i = Some (xs ! i)"
  by (simp add: array_get_def)

lemma array_get_out [simp]: "length xs \<le> i \<Longrightarrow> array_get xs i = None"
  by (simp add: array_get_def)

lemma array_set_in [simp]: "i < length xs \<Longrightarrow> array_set xs i x = Some (xs[i := x])"
  by (simp add: array_set_def)

lemma array_set_out [simp]: "length xs \<le> i \<Longrightarrow> array_set xs i x = None"
  by (simp add: array_set_def)

subsection \<open>The last elements of a list\<close>

definition last_n :: "nat \<Rightarrow> 'a list \<Rightarrow> 'a list" where
  "last_n n xs = drop (length xs - n) xs"

lemma last_n_Nil [simp]: "last_n n [] = []"
  by (simp add: last_n_def)

lemma length_last_n [simp]: "length (last_n n xs) = min n (length xs)"
  by (simp add: last_n_def)

lemma last_n_short [simp]: "length xs \<le> n \<Longrightarrow> last_n n xs = xs"
  by (simp add: last_n_def)

lemma set_last_n: "set (last_n n xs) \<subseteq> set xs"
  by (simp add: last_n_def set_drop_subset)

lemma last_n_map: "last_n n (map f xs) = map f (last_n n xs)"
  by (simp add: last_n_def drop_map)

lemma last_n_snoc_full: "length xs = n \<Longrightarrow> 0 < n \<Longrightarrow> last_n n (xs @ [x]) = tl xs @ [x]"
  by (cases xs) (auto simp: last_n_def)

lemma last_n_snoc_last_n: "last_n n (last_n n xs @ [x]) = last_n n (xs @ [x])"
proof (cases "length xs \<le> n")
  case True
  then show ?thesis by simp
next
  case False
  then have "length xs - n + 1 = Suc (length xs) - n" by simp
  with False show ?thesis
    by (simp add: last_n_def)
qed

subsection \<open>Sums of prefixes\<close>

lemma sum_list_take_le: "sum_list (take k xs) \<le> sum_list (xs :: nat list)"
  by (metis append_take_drop_id le_add1 sum_list_append)

lemma sum_list_take_Suc:
  "k < length xs \<Longrightarrow> sum_list (take (Suc k) xs) = sum_list (take k xs) + (xs ! k :: nat)"
  by (simp add: take_Suc_conv_app_nth)

lemma sum_list_take_nth_le: "k < length xs \<Longrightarrow> sum_list (take k xs) + xs ! k \<le> sum_list (xs :: nat list)"
  using sum_list_take_le[of "Suc k" xs] by (simp add: sum_list_take_Suc)

lemma length_concat_take: "length (concat (take k xss)) = sum_list (take k (map length xss))"
  by (simp add: length_concat take_map)

text \<open>A position inside the \<open>k\<close>-th piece of a concatenation.\<close>

lemma concat_nth_piece:
  assumes "k < length xss" and "r < length (xss ! k)"
  shows "concat xss ! (length (concat (take k xss)) + r) = xss ! k ! r"
proof -
  have "concat xss = concat (take k xss) @ xss ! k @ concat (drop (Suc k) xss)"
    using assms(1) by (metis concat.simps(2) concat_append id_take_nth_drop)
  then show ?thesis
    using assms(2) by (simp add: nth_append)
qed

lemma concat_drop_piece:
  assumes "k < length xss" and "r \<le> length (xss ! k)"
  shows "drop (length (concat (take k xss)) + r) (concat xss)
       = drop r (xss ! k) @ concat (drop (Suc k) xss)"
proof -
  have "concat xss = concat (take k xss) @ xss ! k @ concat (drop (Suc k) xss)"
    using assms(1) by (metis concat.simps(2) concat_append id_take_nth_drop)
  then show ?thesis
    using assms(2) by simp
qed

text \<open>Cyclic indices below twice the modulus.\<close>

lemma mod_less_twice: "x < 2 * m \<Longrightarrow> x mod m = (if x < m then x else x - m)" for x m :: nat
  by (simp add: mod_if)

subsection \<open>Words\<close>

lemma unat_lt_64: "unat (w :: u64) < 2 ^ 64"
  using unsigned_less[of w] by simp

lemma unat_lt_32: "unat (w :: u32) < 2 ^ 32"
  using unsigned_less[of w] by simp

lemma unat_lt_8: "unat (w :: u8) < 256"
  using unsigned_less[of w] by simp

lemma unat_ucast_8_64 [simp]: "unat (ucast (w :: u8) :: u64) = unat w"
  using unat_lt_8[of w] by (simp add: unsigned_ucast_eq take_bit_nat_eq_self)

lemma unat_ucast_32_64 [simp]: "unat (ucast (w :: u32) :: u64) = unat w"
  using unat_lt_32[of w] by (simp add: unsigned_ucast_eq take_bit_nat_eq_self)

lemma unat_of_nat_64: "n < 2 ^ 64 \<Longrightarrow> unat (of_nat n :: u64) = n"
  by (simp add: unat_of_nat)

lemma unat_of_nat_32: "n < 2 ^ 32 \<Longrightarrow> unat (of_nat n :: u32) = n"
  by (simp add: unat_of_nat)

lemma unat_of_nat_8: "n < 256 \<Longrightarrow> unat (of_nat n :: u8) = n"
  by (simp add: unat_of_nat)

lemma unat_add_64: "unat (a :: u64) + unat b < 2 ^ 64 \<Longrightarrow> unat (a + b) = unat a + unat b"
  using unat_add_lem[of a b] by simp

lemma unat_sub_64: "b \<le> a \<Longrightarrow> unat (a - b :: u64) = unat a - unat b"
  by (simp add: unat_sub word_le_nat_alt)

text \<open>Signed readings of values that fit, and the sign extension of an \<open>int\<close>.\<close>

lemma sint_small_32: "n < 2 ^ 31 \<Longrightarrow> sint (of_nat n :: u32) = int n"
  by (simp add: signed_of_nat signed_take_bit_int_eq_self)

lemma sint_small_64: "n < 2 ^ 63 \<Longrightarrow> sint (of_nat n :: u64) = int n"
  by (simp add: signed_of_nat signed_take_bit_int_eq_self)

lemma sint_unat_64: "unat (w :: u64) < 2 ^ 63 \<Longrightarrow> sint w = int (unat w)"
  using sint_small_64[of "unat w"] by simp

lemma scast_small: "n < 2 ^ 31 \<Longrightarrow> scast (of_nat n :: u32) = (of_nat n :: u64)"
  by (simp add: scast_eq sint_small_32)

subsection \<open>Strings\<close>

text \<open>The bytes of a string literal.\<close>

definition str :: "string \<Rightarrow> byte list" where
  "str s = map of_char s"

end
