(* ===== verification/Command_Log.thy ===== *)
theory Command_Log
  imports Prelude
begin

section \<open>The interface of a bounded command log\<close>

text \<open>
  What the character driver relies on in the circular buffer: a log that keeps the last
  \<open>cap\<close> items (\<open>command_log\<close>), and two searches over the concatenation of the items'
  contents (\<open>seekable_log\<close>): from a position to the item holding it, and from an item number
  and an offset in it to a position. The reference functions \<open>locate\<close> and \<open>seek_pos\<close> work on
  the list of the items' lengths.
\<close>

subsection \<open>Reference searches\<close>

text \<open>The item that holds position \<open>p\<close> of the concatenation, and the offset inside it.\<close>

fun locate :: "nat list \<Rightarrow> nat \<Rightarrow> (nat \<times> nat) option" where
  "locate [] p = None"
| "locate (s # ss) p =
     (if p < s then Some (0, p) else map_option (map_prod Suc id) (locate ss (p - s)))"

text \<open>The position of offset \<open>i\<close> of item \<open>c\<close>: an offset beyond the item counts as zero, an
  item that does not exist gives the end.\<close>

definition seek_pos :: "nat list \<Rightarrow> nat \<Rightarrow> nat \<Rightarrow> nat" where
  "seek_pos ss c i =
     (if c < length ss then sum_list (take c ss) + (if i \<le> ss ! c then i else 0) else sum_list ss)"

lemma locate_None_iff: "locate ss p = None \<longleftrightarrow> sum_list ss \<le> p"
  by (induction ss p rule: locate.induct) auto

lemma locate_Some_iff:
  "locate ss p = Some (k, r) \<longleftrightarrow> k < length ss \<and> r < ss ! k \<and> p = sum_list (take k ss) + r"
proof (induction ss arbitrary: p k)
  case Nil
  then show ?case by simp
next
  case (Cons s ss)
  show ?case
  proof (cases k)
    case 0
    then show ?thesis by auto
  next
    case (Suc k')
    then show ?thesis
      using Cons.IH[of "p - s" k'] by (auto simp: map_prod_def split: prod.splits)
  qed
qed

lemma seek_pos_le: "seek_pos ss c i \<le> sum_list ss"
  using sum_list_take_nth_le[of c ss] by (auto simp: seek_pos_def)

lemma locate_seek_pos:
  "c < length ss \<Longrightarrow> i < ss ! c \<Longrightarrow> locate ss (seek_pos ss c i) = Some (c, i)"
  by (simp add: locate_Some_iff seek_pos_def)

subsection \<open>The log\<close>

locale command_log =
  fixes empty :: "'b"
    and add :: "'b \<Rightarrow> 'e \<Rightarrow> 'b"
    and items :: "'b \<Rightarrow> 'e list"
    and inv :: "'b \<Rightarrow> bool"
    and cap :: nat
  assumes inv_empty: "inv empty"
    and items_empty: "items empty = []"
    and inv_add: "inv b \<Longrightarrow> inv (add b e)"
    and items_add: "inv b \<Longrightarrow> items (add b e) = last_n cap (items b @ [e])"
    and items_bound: "inv b \<Longrightarrow> length (items b) \<le> cap"
begin

lemma inv_adds: "inv b \<Longrightarrow> inv (foldl add b es)"
  by (induction es arbitrary: b) (simp_all add: inv_add)

lemma items_adds: "inv b \<Longrightarrow> items (foldl add b es) = last_n cap (items b @ es)"
proof (induction es rule: rev_induct)
  case Nil
  then show ?case by (simp add: items_bound)
next
  case (snoc e es)
  then have "items (foldl add b (es @ [e])) = last_n cap (last_n cap (items b @ es) @ [e])"
    by (simp add: items_add inv_adds)
  then show ?case
    by (simp add: last_n_snoc_last_n)
qed

lemma items_history: "items (foldl add empty es) = last_n cap es"
  using items_adds[OF inv_empty, of es] by (simp add: items_empty)

lemma items_add_room: "inv b \<Longrightarrow> length (items b) < cap \<Longrightarrow> items (add b e) = items b @ [e]"
  by (simp add: items_add)

lemma items_add_full: "inv b \<Longrightarrow> length (items b) = cap \<Longrightarrow> 0 < cap \<Longrightarrow>
    items (add b e) = tl (items b) @ [e]"
  by (simp add: items_add last_n_snoc_full)

lemma set_items_add: "inv b \<Longrightarrow> set (items (add b e)) \<subseteq> insert e (set (items b))"
  using set_last_n[of cap "items b @ [e]"] by (simp add: items_add)

end

locale seekable_log = command_log empty add items inv cap
  for empty :: "'b" and add :: "'b \<Rightarrow> 'e \<Rightarrow> 'b" and items and inv and cap +
  fixes len :: "'e \<Rightarrow> nat"
    and at :: "'b \<Rightarrow> nat \<Rightarrow> nat"
    and find :: "'b \<Rightarrow> u64 \<Rightarrow> (nat \<times> u64) option option"
    and pos :: "'b \<Rightarrow> u64 \<Rightarrow> u64 \<Rightarrow> u64 option"
  assumes find_locate: "inv b \<Longrightarrow> sum_list (map len (items b)) < 2 ^ 64 \<Longrightarrow>
      find b p = Some (map_option (\<lambda>(k, r). (at b k, of_nat r)) (locate (map len (items b)) (unat p)))"
    and pos_seek: "inv b \<Longrightarrow> sum_list (map len (items b)) < 2 ^ 64 \<Longrightarrow>
      pos b c i = Some (of_nat (seek_pos (map len (items b)) (unat c) (unat i)))"
begin

lemma find_found:
  assumes "inv b" "sum_list (map len (items b)) < 2 ^ 64"
    and "k < length (items b)" "r < len (items b ! k)"
    and "unat p = sum_list (take k (map len (items b))) + r"
  shows "find b p = Some (Some (at b k, of_nat r))"
proof -
  have "locate (map len (items b)) (unat p) = Some (k, r)"
    using assms(3-5) by (simp add: locate_Some_iff)
  then show ?thesis using assms(1,2) by (simp add: find_locate)
qed

lemma find_past_end:
  assumes "inv b" "sum_list (map len (items b)) < 2 ^ 64"
  shows "find b p = Some None \<longleftrightarrow> sum_list (map len (items b)) \<le> unat p"
  using assms by (simp add: find_locate locate_None_iff)

lemma find_returns:
  assumes "inv b" "sum_list (map len (items b)) < 2 ^ 64"
  shows "find b p \<noteq> None"
  using assms by (simp add: find_locate)

text \<open>Seeking to an existing byte and searching its position finds that item and offset.\<close>

lemma find_pos:
  assumes "inv b" "sum_list (map len (items b)) < 2 ^ 64"
    and "unat c < length (items b)" "unat i < len (items b ! unat c)"
  shows "\<exists>p. pos b c i = Some p \<and> find b p = Some (Some (at b (unat c), i))"
proof (intro exI conjI)
  let ?ls = "map len (items b)"
  let ?q = "seek_pos ?ls (unat c) (unat i)"
  have q: "?q < 2 ^ 64"
    using seek_pos_le[of ?ls "unat c" "unat i"] assms(2) by simp
  show "pos b c i = Some (of_nat ?q)"
    using assms(1,2) by (rule pos_seek)
  have "locate ?ls (unat (of_nat ?q :: u64)) = Some (unat c, unat i)"
    using assms(3,4) q by (simp add: unat_of_nat_64 locate_seek_pos)
  then show "find b (of_nat ?q) = Some (Some (at b (unat c), i))"
    using assms(1,2) by (simp add: find_locate)
qed

lemma pos_le_end:
  assumes "inv b" "sum_list (map len (items b)) < 2 ^ 64" "pos b c i = Some p"
  shows "unat p \<le> sum_list (map len (items b))"
  using assms seek_pos_le[of "map len (items b)" "unat c" "unat i"]
  by (auto simp: pos_seek unat_of_nat_64)

end

end
