(* ===== verification/Circular_Buffer.thy ===== *)
theory Circular_Buffer
  imports Command_Log
begin

section \<open>The circular buffer of write commands\<close>

text \<open>
  \<^verbatim>\<open>src/aesd-char-driver/aesd-circular-buffer.c\<close> and its header. The structure is an array of
  ten entries (a pointer and a size each) with two \<open>uint8_t\<close> indices and a flag that tells a
  full buffer from an empty one. The operations are translated with the widths of the C types;
  their abstraction is the list of the stored entries, oldest first.
\<close>

subsection \<open>Data\<close>

abbreviation (input) AESDCHAR_MAX_WRITE_OPERATIONS_SUPPORTED :: nat where
  "AESDCHAR_MAX_WRITE_OPERATIONS_SUPPORTED \<equiv> 10"

text \<open>\<open>sizeof(buffer->entry) / sizeof(buffer->entry[0])\<close>, a \<open>size_t\<close>.\<close>

abbreviation (input) buffer_size :: u64 where
  "buffer_size \<equiv> 10"

record aesd_buffer_entry =
  buffptr :: addr
  size_e :: u64

record aesd_circular_buffer =
  entry :: "aesd_buffer_entry list"
  in_offs :: u8
  out_offs :: u8
  full :: bool

subsection \<open>Operations\<close>

text \<open>\<open>memset(buffer, 0, sizeof(struct aesd_circular_buffer))\<close>.\<close>

definition aesd_circular_buffer_init :: aesd_circular_buffer where
  "aesd_circular_buffer_init =
     \<lparr>entry = replicate AESDCHAR_MAX_WRITE_OPERATIONS_SUPPORTED \<lparr>buffptr = NULL, size_e = 0\<rparr>,
      in_offs = 0, out_offs = 0, full = False\<rparr>"

text \<open>
  The function always returns \<open>NULL\<close>; the returned pointer is the first component. The index
  arithmetic is done in \<open>int\<close> (integer promotion) and stored back into a \<open>uint8_t\<close>.
\<close>

definition aesd_circular_buffer_add_entry ::
  "aesd_circular_buffer \<Rightarrow> aesd_buffer_entry \<Rightarrow> (addr \<times> aesd_circular_buffer) option" where
  "aesd_circular_buffer_add_entry b add_entry = do {
     es \<leftarrow> array_set (entry b) (unat (in_offs b)) add_entry;
     let b = b\<lparr>entry := es\<rparr>;
     let b = b\<lparr>in_offs := of_nat ((unat (in_offs b) + 1)
                             mod AESDCHAR_MAX_WRITE_OPERATIONS_SUPPORTED)\<rparr>;
     let b = (if full b then b\<lparr>out_offs := in_offs b\<rparr> else b);
     let b = (if in_offs b = out_offs b then b\<lparr>full := True\<rparr> else b\<lparr>full := False\<rparr>);
     Some (NULL, b)
   }"

text \<open>
  The loop of the search. A result \<open>Some None\<close> is the returned \<open>NULL\<close>;
  \<open>Some (Some (i, r))\<close> is the returned pointer \<open>&entry[i]\<close> with \<open>r\<close> stored into
  \<open>*entry_offset_byte_rtn\<close>, which is written in that case only. The offsets are \<open>size_t\<close>, so
  the running position wraps around at \<open>2 ^ 64\<close>.
\<close>

partial_function (option) find_entry_loop ::
  "aesd_circular_buffer \<Rightarrow> u64 \<Rightarrow> u64 \<Rightarrow> u64 \<Rightarrow> (nat \<times> u64) option option" where
  "find_entry_loop b char_offset offset posit =
     (if offset \<noteq> ucast (in_offs b) then do {
        e \<leftarrow> array_get (entry b) (unat offset);
        if char_offset < posit + size_e e
        then Some (Some (unat offset, char_offset - posit))
        else find_entry_loop b char_offset
               ((offset + 1) mod buffer_size)
               (posit + size_e e)
      } else Some None)"

definition aesd_circular_buffer_find_entry_offset_for_fpos ::
  "aesd_circular_buffer \<Rightarrow> u64 \<Rightarrow> (nat \<times> u64) option option" where
  "aesd_circular_buffer_find_entry_offset_for_fpos b char_offset =
     (let offset = ucast (out_offs b); posit = 0 in
      if full b then do {
        e \<leftarrow> array_get (entry b) (unat offset);
        if char_offset < posit + size_e e
        then Some (Some (unat offset, char_offset - posit))
        else find_entry_loop b char_offset
               ((offset + 1) mod buffer_size)
               (posit + size_e e)
      } else find_entry_loop b char_offset offset posit)"

partial_function (option) find_position_loop ::
  "aesd_circular_buffer \<Rightarrow> u64 \<Rightarrow> u64 \<Rightarrow> u64 \<Rightarrow> u64 \<Rightarrow> u64 \<Rightarrow> u64 option" where
  "find_position_loop b command_offset internal_offset offset ent end_posit =
     (if offset \<noteq> ucast (in_offs b) then do {
        e \<leftarrow> array_get (entry b) (unat offset);
        if command_offset \<noteq> ent
        then find_position_loop b command_offset internal_offset
               ((offset + 1) mod buffer_size)
               (ent + 1) (end_posit + size_e e)
        else if internal_offset \<le> size_e e then Some (end_posit + internal_offset)
        else Some end_posit
      } else Some end_posit)"

definition aesd_circular_buffer_find_position ::
  "aesd_circular_buffer \<Rightarrow> u64 \<Rightarrow> u64 \<Rightarrow> u64 option" where
  "aesd_circular_buffer_find_position b command_offset internal_offset =
     (let offset = ucast (out_offs b); ent = 0; end_posit = 0 in
      if full b then do {
        e \<leftarrow> array_get (entry b) (unat offset);
        if command_offset \<noteq> ent
        then find_position_loop b command_offset internal_offset
               ((offset + 1) mod buffer_size)
               (ent + 1) (end_posit + size_e e)
        else if internal_offset \<le> size_e e then Some (end_posit + internal_offset)
        else Some end_posit
      } else find_position_loop b command_offset internal_offset offset ent end_posit)"

text \<open>
  \<open>AESD_CIRCULAR_BUFFER_FOREACH\<close> runs its body on the ten slots in index order, used or not.
  The body gets the index of the slot its entry pointer designates, and the current state.
\<close>

definition AESD_CIRCULAR_BUFFER_FOREACH :: "(nat \<Rightarrow> 's \<Rightarrow> 's option) \<Rightarrow> 's \<Rightarrow> 's option" where
  "AESD_CIRCULAR_BUFFER_FOREACH body s =
     fold (\<lambda>index acc. acc \<bind> body index)
       [0..<AESDCHAR_MAX_WRITE_OPERATIONS_SUPPORTED] (Some s)"

subsection \<open>Well-formedness and abstraction\<close>

text \<open>
  Both indices address a slot, and the flag is set only when they are equal. The stored entries
  are the \<open>buf_count\<close> slots from \<open>out_offs\<close> on, taken cyclically.
\<close>

definition cb_wf :: "aesd_circular_buffer \<Rightarrow> bool" where
  "cb_wf b \<longleftrightarrow> length (entry b) = AESDCHAR_MAX_WRITE_OPERATIONS_SUPPORTED
     \<and> unat (in_offs b) < AESDCHAR_MAX_WRITE_OPERATIONS_SUPPORTED
     \<and> unat (out_offs b) < AESDCHAR_MAX_WRITE_OPERATIONS_SUPPORTED
     \<and> (full b \<longrightarrow> in_offs b = out_offs b)"

definition slot :: "aesd_circular_buffer \<Rightarrow> nat \<Rightarrow> nat" where
  "slot b k = (unat (out_offs b) + k) mod AESDCHAR_MAX_WRITE_OPERATIONS_SUPPORTED"

definition buf_count :: "aesd_circular_buffer \<Rightarrow> nat" where
  "buf_count b = (if full b then AESDCHAR_MAX_WRITE_OPERATIONS_SUPPORTED
     else (unat (in_offs b) + AESDCHAR_MAX_WRITE_OPERATIONS_SUPPORTED - unat (out_offs b))
          mod AESDCHAR_MAX_WRITE_OPERATIONS_SUPPORTED)"

definition entries :: "aesd_circular_buffer \<Rightarrow> aesd_buffer_entry list" where
  "entries b = map (\<lambda>k. entry b ! slot b k) [0..<buf_count b]"

definition sizes :: "aesd_circular_buffer \<Rightarrow> nat list" where
  "sizes b = map (\<lambda>e. unat (size_e e)) (entries b)"

lemma cb_wfD:
  assumes "cb_wf b"
  shows "length (entry b) = 10" "unat (in_offs b) < 10" "unat (out_offs b) < 10"
    "full b \<Longrightarrow> in_offs b = out_offs b"
  using assms by (auto simp: cb_wf_def)

lemma slot_lt [simp]: "slot b k < 10"
  by (simp add: slot_def)

lemma slot_in_array [simp]: "cb_wf b \<Longrightarrow> slot b k < length (entry b)"
  by (simp add: cb_wf_def)

lemma buf_count_le: "buf_count b \<le> 10"
  by (auto simp: buf_count_def intro: less_imp_le mod_less_divisor)

lemma buf_count_not_full: "\<not> full b \<Longrightarrow> buf_count b < 10"
  by (simp add: buf_count_def)

lemma length_entries [simp]: "length (entries b) = buf_count b"
  by (simp add: entries_def)

lemma length_sizes [simp]: "length (sizes b) = buf_count b"
  by (simp add: sizes_def)

lemma nth_entries: "k < buf_count b \<Longrightarrow> entries b ! k = entry b ! slot b k"
  by (simp add: entries_def)

lemma nth_sizes [simp]: "k < buf_count b \<Longrightarrow> sizes b ! k = unat (size_e (entries b ! k))"
  by (simp add: sizes_def)

lemma slot_inj:
  assumes "slot b i = slot b j" "i < 10" "j < 10"
  shows "i = j"
proof -
  define x where "x = unat (out_offs b)"
  have "(x + i) mod 10 = (x + j) mod 10"
    using assms(1) by (simp add: slot_def x_def)
  then have "i mod 10 = j mod 10"
    by (simp add: nat_mod_eq_iff)
  with assms(2,3) show ?thesis by simp
qed

text \<open>The cyclic indices without \<open>mod\<close>.\<close>

lemma slot_cases:
  assumes "cb_wf b" and "k \<le> 10"
  shows "slot b k = (if unat (out_offs b) + k < 10 then unat (out_offs b) + k
                     else unat (out_offs b) + k - 10)"
  using cb_wfD(3)[OF assms(1)] assms(2) by (simp add: slot_def mod_less_twice)

lemma buf_count_cases:
  assumes "cb_wf b"
  shows "buf_count b = (if full b then 10
     else if unat (in_offs b) < unat (out_offs b) then unat (in_offs b) + 10 - unat (out_offs b)
     else unat (in_offs b) - unat (out_offs b))"
  using cb_wfD(2,3)[OF assms] by (simp add: buf_count_def mod_less_twice)

text \<open>Walking the slots from the oldest entry, the write index is met after exactly
  \<open>buf_count\<close> steps (in a full buffer, after at least one step).\<close>

lemma slot_eq_in_offs:
  assumes "cb_wf b" and "k \<le> buf_count b" and "full b \<Longrightarrow> 0 < k"
  shows "slot b k = unat (in_offs b) \<longleftrightarrow> k = buf_count b"
proof (cases "full b")
  case True
  then show ?thesis
    using assms cb_wfD(3,4)[OF assms(1)] buf_count_le[of b]
    by (simp add: slot_cases buf_count_def) arith
next
  case False
  then show ?thesis
    using assms(2) cb_wfD(2,3)[OF assms(1)] buf_count_le[of b]
    by (simp add: slot_cases[OF assms(1)] buf_count_cases[OF assms(1)] split: if_splits) arith+
qed

lemma slot_count_not_full: "cb_wf b \<Longrightarrow> \<not> full b \<Longrightarrow> slot b (buf_count b) = unat (in_offs b)"
  using slot_eq_in_offs[of b "buf_count b"] by simp

lemma entries_empty_iff: "entries b = [] \<longleftrightarrow> buf_count b = 0"
  by (simp add: entries_def)

subsection \<open>Initialisation and insertion\<close>

lemma cb_wf_init [simp, wf_intros]: "cb_wf aesd_circular_buffer_init"
  by (simp add: cb_wf_def aesd_circular_buffer_init_def)

lemma entries_init [simp]: "entries aesd_circular_buffer_init = []"
  by (simp add: entries_def buf_count_def aesd_circular_buffer_init_def)

text \<open>The insertion is defined on every well-formed buffer; its result is computed by cases
  on the fill state.\<close>

definition next_offs :: "u8 \<Rightarrow> u8" where
  "next_offs i = of_nat ((unat i + 1) mod AESDCHAR_MAX_WRITE_OPERATIONS_SUPPORTED)"

lemma unat_next_offs [simp]: "unat (next_offs i) = (unat i + 1) mod 10"
  by (simp add: next_offs_def unat_of_nat_8)

lemma add_entry_cases:
  assumes "cb_wf b"
  shows "aesd_circular_buffer_add_entry b e = Some (NULL,
     \<lparr>entry = (entry b)[unat (in_offs b) := e],
      in_offs = next_offs (in_offs b),
      out_offs = (if full b then next_offs (in_offs b) else out_offs b),
      full = (full b \<or> next_offs (in_offs b) = out_offs b)\<rparr>)"
  using cb_wfD[OF assms]
  by (simp add: aesd_circular_buffer_add_entry_def next_offs_def Let_def)

text \<open>The buffer after an insertion.\<close>

definition cb_add :: "aesd_circular_buffer \<Rightarrow> aesd_buffer_entry \<Rightarrow> aesd_circular_buffer" where
  "cb_add b e = snd (the (aesd_circular_buffer_add_entry b e))"

lemma add_entry_cb_add: "cb_wf b \<Longrightarrow> aesd_circular_buffer_add_entry b e = Some (NULL, cb_add b e)"
  by (simp add: cb_add_def add_entry_cases)

lemma cb_wf_add [simp, wf_intros]: "cb_wf b \<Longrightarrow> cb_wf (cb_add b e)"
  by (cases "full b") (simp_all add: cb_add_def add_entry_cases cb_wf_def)

lemma cb_add_sel [simp]:
  assumes "cb_wf b"
  shows "entry (cb_add b e) = (entry b)[unat (in_offs b) := e]"
    and "in_offs (cb_add b e) = next_offs (in_offs b)"
    and "out_offs (cb_add b e) = (if full b then next_offs (in_offs b) else out_offs b)"
    and "full (cb_add b e) = (full b \<or> next_offs (in_offs b) = out_offs b)"
  using assms by (simp_all add: cb_add_def add_entry_cases)

lemma slot_add:
  assumes "cb_wf b"
  shows "slot (cb_add b e) k = (if full b then slot b (Suc k) else slot b k)"
  using assms cb_wfD(4)[OF assms] by (simp add: slot_def mod_simps)

lemma full_add_iff:
  assumes "cb_wf b"
  shows "full (cb_add b e) \<longleftrightarrow> 9 \<le> buf_count b"
proof -
  have "next_offs (in_offs b) = out_offs b \<longleftrightarrow> (unat (in_offs b) + 1) mod 10 = unat (out_offs b)"
    by (simp add: word_unat_eq_iff)
  then show ?thesis
    using assms cb_wfD(2,3)[OF assms]
    by (simp add: buf_count_cases mod_less_twice) arith
qed

lemma buf_count_add:
  assumes "cb_wf b"
  shows "buf_count (cb_add b e) = min 10 (Suc (buf_count b))"
proof (cases "full (cb_add b e)")
  case True
  then show ?thesis
    using buf_count_le[of b] full_add_iff[OF assms, of e] by (simp add: buf_count_def)
next
  case False
  then show ?thesis
    using assms cb_wfD(2,3)[OF assms] full_add_iff[OF assms, of e]
      buf_count_cases[OF assms] buf_count_cases[OF cb_wf_add[OF assms], of e]
    by (simp add: mod_less_twice split: if_splits)
qed

text \<open>Insertion appends, and drops the oldest entry when ten are stored.\<close>

lemma entries_add:
  assumes "cb_wf b"
  shows "entries (cb_add b e) = last_n 10 (entries b @ [e])"
proof (cases "full b")
  case True
  then have n: "buf_count b = 10" by (simp add: buf_count_def)
  have *: "slot b 10 = unat (in_offs b)"
    using slot_eq_in_offs[OF assms, of 10] n True by simp
  have **: "slot b (Suc k) \<noteq> unat (in_offs b)" if "k < 9" for k
    using slot_eq_in_offs[OF assms, of "Suc k"] n that by simp
  have "entries (cb_add b e) = tl (entries b) @ [e]"
  proof (rule nth_equalityI)
    fix k assume "k < length (entries (cb_add b e))"
    then have "k < 10" by (simp add: buf_count_add assms n)
    then show "entries (cb_add b e) ! k = (tl (entries b) @ [e]) ! k"
      using True assms * **[of k] n
      by (cases "k = 9") (auto simp: nth_entries buf_count_add slot_add nth_append nth_tl cb_wf_def)
  qed (simp add: buf_count_add assms n)
  then show ?thesis
    using n by (simp add: last_n_snoc_full)
next
  case False
  have n: "buf_count b < 10" using False by (rule buf_count_not_full)
  have *: "slot b k \<noteq> unat (in_offs b)" if "k < buf_count b" for k
    using slot_eq_in_offs[OF assms, of k] False that by simp
  have "entries (cb_add b e) = entries b @ [e]"
  proof (rule nth_equalityI)
    fix k assume "k < length (entries (cb_add b e))"
    then have "k < Suc (buf_count b)" using n by (simp add: buf_count_add assms)
    then show "entries (cb_add b e) ! k = (entries b @ [e]) ! k"
      using False assms n *[of k] slot_count_not_full[OF assms False]
      by (cases "k = buf_count b") (auto simp: nth_entries buf_count_add slot_add nth_append cb_wf_def)
  qed (use n in \<open>simp add: buf_count_add assms\<close>)
  then show ?thesis
    using n by simp
qed

subsection \<open>The searches compute the reference functions\<close>

lemma entry_at_slot:
  "cb_wf b \<Longrightarrow> k < buf_count b \<Longrightarrow> array_get (entry b) (slot b k) = Some (entries b ! k)"
  by (simp add: nth_entries)

lemma offset_step:
  assumes "unat offset = slot b k"
  shows "unat ((offset + 1) mod 10 :: u64) = slot b (Suc k)"
proof -
  have "unat (offset + 1) = slot b k + 1"
    using assms less_trans[OF slot_lt[of b k], of "2 ^ 64 - 1"] by (subst unat_add_64) auto
  then show ?thesis
    by (simp add: unat_mod slot_def mod_simps)
qed

lemma offset_at_end:
  assumes "cb_wf b" "unat (offset :: u64) = slot b k" "k \<le> buf_count b" "full b \<Longrightarrow> 0 < k"
  shows "offset = ucast (in_offs b) \<longleftrightarrow> k = buf_count b"
  using slot_eq_in_offs[OF assms(1,3,4)] assms(2) by (simp add: word_unat_eq_iff)

text \<open>The running position is the length of the entries passed, without wrap-around.\<close>

lemma posit_step:
  assumes "sum_list (sizes b) < 2 ^ 64" "k < buf_count b"
    and "unat posit = sum_list (take k (sizes b))"
  shows "unat (posit + size_e (entries b ! k)) = sum_list (take (Suc k) (sizes b))"
proof -
  have "unat posit + unat (size_e (entries b ! k)) = sum_list (take (Suc k) (sizes b))"
    using assms(2,3) by (simp add: sum_list_take_Suc)
  then show ?thesis
    using assms(1) sum_list_take_le[of "Suc k" "sizes b"] by (simp add: unat_add_64)
qed

definition found :: "aesd_circular_buffer \<Rightarrow> nat \<times> nat \<Rightarrow> nat \<times> u64" where
  "found b kr = (slot b (fst kr), of_nat (snd kr))"

text \<open>One comparison of the search, at entry \<open>k\<close>.\<close>

lemma find_hit:
  assumes "sum_list (sizes b) < 2 ^ 64" "k < buf_count b"
    and "unat posit = sum_list (take k (sizes b))" "posit \<le> p"
  shows "p < posit + size_e (entries b ! k) \<longleftrightarrow>
           locate (sizes b) (unat p) = Some (k, unat p - sum_list (take k (sizes b)))"
proof -
  have "p < posit + size_e (entries b ! k) \<longleftrightarrow> unat p < sum_list (take (Suc k) (sizes b))"
    using posit_step[OF assms(1-3)] by (simp add: word_less_nat_alt)
  then show ?thesis
    using assms(2-4) by (auto simp: locate_Some_iff sum_list_take_Suc word_le_nat_alt)
qed

text \<open>The body of the search at entry \<open>k\<close>, given the result of the rest of the search.\<close>

lemma find_body:
  assumes "cb_wf b" "sum_list (sizes b) < 2 ^ 64" "k < buf_count b"
    and "unat offset = slot b k" "unat posit = sum_list (take k (sizes b))" "posit \<le> p"
    and rest: "posit + size_e (entries b ! k) \<le> p \<Longrightarrow>
      find_entry_loop b p ((offset + 1) mod 10) (posit + size_e (entries b ! k)) =
        Some (map_option (found b) (locate (sizes b) (unat p)))"
  shows "do {
        e \<leftarrow> array_get (entry b) (unat offset);
        if p < posit + size_e e then Some (Some (unat offset, p - posit))
        else find_entry_loop b p ((offset + 1) mod 10) (posit + size_e e)
      } = Some (map_option (found b) (locate (sizes b) (unat p)))"
proof (cases "p < posit + size_e (entries b ! k)")
  case True
  have "of_nat (unat p - sum_list (take k (sizes b))) = p - posit"
    using assms(5,6) by (simp flip: assms(5) unat_sub_64)
  then show ?thesis
    using True find_hit[OF assms(2,3,5,6)] assms(4) entry_at_slot[OF assms(1,3)]
    by (simp add: found_def)
next
  case False
  then show ?thesis
    using rest assms(4) entry_at_slot[OF assms(1,3)] by simp
qed

lemma find_entry_loop_locate:
  assumes "cb_wf b" "sum_list (sizes b) < 2 ^ 64" "k \<le> buf_count b" "full b \<Longrightarrow> 0 < k"
    and "unat offset = slot b k" "unat posit = sum_list (take k (sizes b))" "posit \<le> p"
  shows "find_entry_loop b p offset posit = Some (map_option (found b) (locate (sizes b) (unat p)))"
  using assms(3-)
proof (induction "buf_count b - k" arbitrary: k offset posit)
  case 0
  then have "locate (sizes b) (unat p) = None"
    by (simp add: locate_None_iff word_le_nat_alt)
  then show ?case
    using 0 offset_at_end[OF assms(1), of offset k] by (simp add: find_entry_loop.simps)
next
  case (Suc d)
  then have k: "k < buf_count b" by simp
  have guard: "offset \<noteq> ucast (in_offs b)"
    using Suc.prems k offset_at_end[OF assms(1), of offset k] by simp
  have "find_entry_loop b p ((offset + 1) mod 10) (posit + size_e (entries b ! k)) =
      Some (map_option (found b) (locate (sizes b) (unat p)))"
    if "posit + size_e (entries b ! k) \<le> p"
    using Suc.hyps(2) that Suc.prems k
    by (intro Suc.hyps(1)[of "Suc k"]) (simp_all add: offset_step posit_step[OF assms(2) k])
  note body = find_body[OF assms(1,2) k Suc.prems(3-5) this]
  show ?case
    using guard body by (subst find_entry_loop.simps) simp
qed

lemma find_locate_entry:
  assumes "cb_wf b" "sum_list (sizes b) < 2 ^ 64"
  shows "aesd_circular_buffer_find_entry_offset_for_fpos b p =
           Some (map_option (found b) (locate (sizes b) (unat p)))"
proof (cases "full b")
  case True
  have s0: "unat (ucast (out_offs b) :: u64) = slot b 0"
    using cb_wfD(3)[OF assms(1)] by (simp add: slot_def)
  have n: "0 < buf_count b" using True by (simp add: buf_count_def)
  have "find_entry_loop b p ((ucast (out_offs b) + 1) mod 10) (0 + size_e (entries b ! 0)) =
      Some (map_option (found b) (locate (sizes b) (unat p)))"
    if "0 + size_e (entries b ! 0) \<le> p"
    using that n posit_step[OF assms(2) n, of 0] offset_step[OF s0]
    by (intro find_entry_loop_locate[OF assms, of "Suc 0"]) simp_all
  note body = find_body[OF assms n s0, of 0, simplified, OF this[simplified]]
  then show ?thesis
    using True by (simp add: aesd_circular_buffer_find_entry_offset_for_fpos_def Let_def)
next
  case False
  then show ?thesis
    using cb_wfD(3)[OF assms(1)] find_entry_loop_locate[OF assms, of 0 "ucast (out_offs b)" 0 p]
    by (simp add: aesd_circular_buffer_find_entry_offset_for_fpos_def slot_def)
qed

subsection \<open>The position of a command\<close>

text \<open>The body of the second search at entry \<open>k\<close>, which also counts the entries.\<close>

lemma position_body:
  assumes "cb_wf b" "sum_list (sizes b) < 2 ^ 64" "k < buf_count b"
    and "unat offset = slot b k" "unat (ent :: u64) = k"
    and "unat posit = sum_list (take k (sizes b))" "k \<le> unat c"
    and rest: "k < unat c \<Longrightarrow>
      find_position_loop b c i ((offset + 1) mod 10) (ent + 1) (posit + size_e (entries b ! k)) =
        Some (of_nat (seek_pos (sizes b) (unat c) (unat i)))"
  shows "do {
        e \<leftarrow> array_get (entry b) (unat offset);
        if c \<noteq> ent
        then find_position_loop b c i ((offset + 1) mod 10) (ent + 1) (posit + size_e e)
        else if i \<le> size_e e then Some (posit + i) else Some posit
      } = Some (of_nat (seek_pos (sizes b) (unat c) (unat i)))"
proof (cases "c = ent")
  case True
  have "posit = of_nat (sum_list (take k (sizes b)))"
    by (simp flip: assms(6))
  then show ?thesis
    using True assms(3-5) entry_at_slot[OF assms(1,3)]
    by (simp add: seek_pos_def word_le_nat_alt)
next
  case False
  then have "k < unat c"
    using assms(5,7) by (auto simp: word_unat_eq_iff)
  then show ?thesis
    using False rest assms(4) entry_at_slot[OF assms(1,3)] by simp
qed

lemma find_position_loop_seek:
  assumes "cb_wf b" "sum_list (sizes b) < 2 ^ 64" "k \<le> buf_count b" "full b \<Longrightarrow> 0 < k"
    and "unat offset = slot b k" "unat ent = k"
    and "unat posit = sum_list (take k (sizes b))" "k \<le> unat c"
  shows "find_position_loop b c i offset ent posit =
           Some (of_nat (seek_pos (sizes b) (unat c) (unat i)))"
  using assms(3-)
proof (induction "buf_count b - k" arbitrary: k offset ent posit)
  case 0
  then have "sum_list (sizes b) = unat posit"
    by simp
  then have "posit = of_nat (sum_list (sizes b))"
    by simp
  then show ?case
    using 0 offset_at_end[OF assms(1), of offset k]
    by (simp add: find_position_loop.simps seek_pos_def)
next
  case (Suc d)
  then have k: "k < buf_count b" by simp
  have guard: "offset \<noteq> ucast (in_offs b)"
    using Suc.prems k offset_at_end[OF assms(1), of offset k] by simp
  have e: "unat (ent + 1) = Suc k"
    using Suc.prems(4) k buf_count_le[of b] by (subst unat_add_64) auto
  have "find_position_loop b c i ((offset + 1) mod 10) (ent + 1) (posit + size_e (entries b ! k)) =
      Some (of_nat (seek_pos (sizes b) (unat c) (unat i)))"
    if "k < unat c"
    using Suc.hyps(2) that Suc.prems k e
    by (intro Suc.hyps(1)[of "Suc k"]) (simp_all add: offset_step posit_step[OF assms(2) k])
  note body = position_body[OF assms(1,2) k Suc.prems(3-6) this]
  show ?case
    using guard body by (subst find_position_loop.simps) simp
qed

lemma find_position_seek:
  assumes "cb_wf b" "sum_list (sizes b) < 2 ^ 64"
  shows "aesd_circular_buffer_find_position b c i =
           Some (of_nat (seek_pos (sizes b) (unat c) (unat i)))"
proof (cases "full b")
  case True
  have s0: "unat (ucast (out_offs b) :: u64) = slot b 0"
    using cb_wfD(3)[OF assms(1)] by (simp add: slot_def)
  have n: "0 < buf_count b" using True by (simp add: buf_count_def)
  have "find_position_loop b c i ((ucast (out_offs b) + 1) mod 10) (0 + 1)
          (0 + size_e (entries b ! 0)) = Some (of_nat (seek_pos (sizes b) (unat c) (unat i)))"
    if "0 < unat c"
    using that n posit_step[OF assms(2) n, of 0] offset_step[OF s0]
    by (intro find_position_loop_seek[OF assms, of "Suc 0"]) simp_all
  note body = position_body[OF assms n s0, of 0 0, simplified, OF this[simplified]]
  then show ?thesis
    using True by (simp add: aesd_circular_buffer_find_position_def Let_def)
next
  case False
  then show ?thesis
    using cb_wfD(3)[OF assms(1)] find_position_loop_seek[OF assms, of 0 "ucast (out_offs b)" 0 0 c i]
    by (simp add: aesd_circular_buffer_find_position_def slot_def)
qed

subsection \<open>All slots\<close>

text \<open>A loop over the slots whose body succeeds and keeps an invariant.\<close>

lemma FOREACH_invariant:
  assumes step: "\<And>i s. i < 10 \<Longrightarrow> P i s \<Longrightarrow> \<exists>s'. body i s = Some s' \<and> P (Suc i) s'" and "P 0 s"
  shows "\<exists>s'. AESD_CIRCULAR_BUFFER_FOREACH body s = Some s' \<and> P 10 s'"
proof -
  have "\<exists>s'. fold (\<lambda>index acc. acc \<bind> body index) [0..<n] (Some s) = Some s' \<and> P n s'" if "n \<le> 10" for n
    using that
  proof (induction n)
    case 0
    then show ?case using assms(2) by simp
  next
    case (Suc n)
    then obtain s1 where "fold (\<lambda>index acc. acc \<bind> body index) [0..<n] (Some s) = Some s1" "P n s1"
      by auto
    then show ?case using step[of n s1] Suc.prems by auto
  qed
  then show ?thesis by (simp add: AESD_CIRCULAR_BUFFER_FOREACH_def)
qed

text \<open>Slots that hold no stored entry are as the initialisation left them: nothing removes an
  entry, insertion only replaces the oldest.\<close>

definition unused_null :: "aesd_circular_buffer \<Rightarrow> bool" where
  "unused_null b \<longleftrightarrow> (\<forall>i < 10. i \<notin> slot b ` {..<buf_count b} \<longrightarrow> buffptr (entry b ! i) = NULL)"

lemma unused_null_init [simp]: "unused_null aesd_circular_buffer_init"
  by (simp add: unused_null_def aesd_circular_buffer_init_def)

lemma full_slots:
  assumes "buf_count b = 10"
  shows "slot b ` {..<buf_count b} = {..<10}"
proof (rule card_subset_eq)
  show "card (slot b ` {..<buf_count b}) = card {..<10 :: nat}"
    using assms slot_inj[of b] by (subst card_image) (auto intro: inj_onI)
qed auto

lemma unused_null_add:
  assumes wf: "cb_wf b" and "unused_null b"
  shows "unused_null (cb_add b e)"
proof (cases "full b")
  case True
  then have "buf_count (cb_add b e) = 10"
    using wf by (simp add: buf_count_add) (simp add: buf_count_def)
  then show ?thesis
    unfolding unused_null_def by (subst full_slots) auto
next
  case False
  have n: "buf_count (cb_add b e) = Suc (buf_count b)"
    using buf_count_not_full[OF False] by (simp add: buf_count_add wf)
  have "slot (cb_add b e) k = slot b k" for k using False wf by (simp add: slot_add)
  then have "slot (cb_add b e) ` {..<buf_count (cb_add b e)} = insert (unat (in_offs b)) (slot b ` {..<buf_count b})"
    using slot_count_not_full[OF wf False] by (simp add: n lessThan_Suc)
  then show ?thesis
    using assms cb_wfD(1)[OF wf] by (auto simp: unused_null_def)
qed

text \<open>The pointers of the slots are those of the stored entries, and distinct if those are.\<close>

lemma slot_pointer_stored:
  assumes "cb_wf b" "unused_null b" "i < 10" "buffptr (entry b ! i) \<noteq> NULL"
  shows "\<exists>k < buf_count b. slot b k = i \<and> entries b ! k = entry b ! i"
  using assms by (fastforce simp: unused_null_def nth_entries)

lemma slot_pointers_distinct:
  assumes "cb_wf b" "unused_null b" "distinct (map buffptr (entries b))"
    and "i < 10" "j < 10" "i \<noteq> j" "buffptr (entry b ! i) \<noteq> NULL"
  shows "buffptr (entry b ! i) \<noteq> buffptr (entry b ! j)"
proof
  assume eq: "buffptr (entry b ! i) = buffptr (entry b ! j)"
  obtain k l where "k < buf_count b" "slot b k = i" "entries b ! k = entry b ! i"
    and "l < buf_count b" "slot b l = j" "entries b ! l = entry b ! j"
    using slot_pointer_stored[OF assms(1,2)] assms(4,5,7) eq by metis
  then show False
    using assms(3,6) eq by (metis distinct_conv_nth length_entries length_map nth_map)
qed

subsection \<open>The buffer is a seekable command log\<close>

interpretation cb: seekable_log aesd_circular_buffer_init cb_add entries cb_wf
    AESDCHAR_MAX_WRITE_OPERATIONS_SUPPORTED "\<lambda>e. unat (size_e e)" slot
    aesd_circular_buffer_find_entry_offset_for_fpos aesd_circular_buffer_find_position
  by unfold_locales
    (simp_all add: entries_add buf_count_le find_locate_entry find_position_seek
       found_def[abs_def] case_prod_unfold flip: sizes_def)

subsection \<open>Properties\<close>

text \<open>A history of insertions, through the code's function.\<close>

fun insert_all :: "aesd_circular_buffer \<Rightarrow> aesd_buffer_entry list \<Rightarrow> aesd_circular_buffer option" where
  "insert_all b [] = Some b"
| "insert_all b (e # es) = do { (_, b) \<leftarrow> aesd_circular_buffer_add_entry b e; insert_all b es }"

lemma insert_all_foldl: "cb_wf b \<Longrightarrow> insert_all b es = Some (foldl cb_add b es)"
  by (induction es arbitrary: b) (simp_all add: add_entry_cb_add)

text \<open>A buffer with three commands, for the witnesses.\<close>

definition sample_entries :: "aesd_buffer_entry list" where
  "sample_entries = [\<lparr>buffptr = 0x1000, size_e = 6\<rparr>, \<lparr>buffptr = 0x2000, size_e = 3\<rparr>,
                     \<lparr>buffptr = 0x3000, size_e = 4\<rparr>]"

definition sample_buffer :: aesd_circular_buffer where
  "sample_buffer = foldl cb_add aesd_circular_buffer_init sample_entries"

lemma sample_buffer [simp]: "cb_wf sample_buffer" "entries sample_buffer = sample_entries"
  "sizes sample_buffer = [6, 3, 4]"
proof -
  show "cb_wf sample_buffer" by (simp add: sample_buffer_def cb.inv_adds)
  show e: "entries sample_buffer = sample_entries"
    by (simp add: sample_buffer_def cb.items_history) (simp add: sample_entries_def)
  show "sizes sample_buffer = [6, 3, 4]"
    by (simp add: sizes_def e) (simp add: sample_entries_def)
qed

lemma sample_not_full: "\<not> full sample_buffer"
proof
  assume "full sample_buffer"
  then have "buf_count sample_buffer = 10" by (simp add: buf_count_def)
  then show False
    using length_entries[of sample_buffer] by (simp add: sample_entries_def del: length_entries)
qed

text \<open>Property C8: after any number of insertions into an initialised buffer, the buffer holds
  exactly the last ten entries inserted, oldest first; no insertion goes out of bounds.\<close>

theorem insert_all_keeps_last_ten:
  "\<exists>b. insert_all aesd_circular_buffer_init es = Some b \<and> cb_wf b \<and> entries b = last_n 10 es"
  by (simp add: insert_all_foldl cb.inv_adds cb.items_history)

text \<open>One insertion into a well-formed buffer returns \<open>NULL\<close> and appends the entry;
  in a full buffer the oldest entry goes.\<close>

theorem add_entry_overwrites_oldest:
  assumes "cb_wf b"
  shows "\<exists>b'. aesd_circular_buffer_add_entry b e = Some (NULL, b') \<and> cb_wf b'
    \<and> entries b' = (if full b then tl (entries b) else entries b) @ [e]"
proof -
  have "length (entries b) = 10 \<longleftrightarrow> full b"
    using buf_count_not_full[of b] by (auto simp: buf_count_def)
  then show ?thesis
    using cb.items_add_full[OF assms, of e] cb.items_add_room[OF assms, of e] buf_count_le[of b] assms
    by (cases "full b") (auto simp: add_entry_cb_add)
qed

theorem add_entry_overwrites_oldest_witness:
  "\<exists>b'. aesd_circular_buffer_add_entry sample_buffer \<lparr>buffptr = 0x4000, size_e = 9\<rparr> = Some (NULL, b')
    \<and> cb_wf b' \<and> entries b' = sample_entries @ [\<lparr>buffptr = 0x4000, size_e = 9\<rparr>]"
  using add_entry_overwrites_oldest[of sample_buffer "\<lparr>buffptr = 0x4000, size_e = 9\<rparr>"]
  by (simp add: sample_not_full)

text \<open>Property C9: the search finds the entry and the offset inside it that hold a position of the
  concatenated commands, and returns \<open>NULL\<close> for exactly the positions past the end. It always
  returns, and never leaves the array.\<close>

theorem find_entry_offset_correct:
  assumes "cb_wf b" "sum_list (sizes b) < 2 ^ 64"
  shows "(\<exists>k r. k < length (entries b) \<and> r < sizes b ! k \<and> unat p = sum_list (take k (sizes b)) + r
       \<and> aesd_circular_buffer_find_entry_offset_for_fpos b p = Some (Some (slot b k, of_nat r))
       \<and> entry b ! slot b k = entries b ! k)
    \<or> sum_list (sizes b) \<le> unat p \<and> aesd_circular_buffer_find_entry_offset_for_fpos b p = Some None"
proof (cases "locate (sizes b) (unat p)")
  case None
  then show ?thesis by (simp add: find_locate_entry[OF assms] locate_None_iff)
next
  case (Some kr)
  obtain k r where kr: "kr = (k, r)" by (cases kr)
  with Some show ?thesis
    by (intro disjI1 exI[of _ k] exI[of _ r])
      (auto simp: find_locate_entry[OF assms] locate_Some_iff found_def nth_entries)
qed

theorem find_entry_offset_correct_witness:
  "aesd_circular_buffer_find_entry_offset_for_fpos sample_buffer 13 = Some None
   \<and> (\<exists>k r. k < 3 \<and> r < [6, 3, 4] ! k \<and> 7 = sum_list (take k [6, 3, 4]) + r
       \<and> aesd_circular_buffer_find_entry_offset_for_fpos sample_buffer 7 =
           Some (Some (slot sample_buffer k, of_nat r)))"
  using find_entry_offset_correct[of sample_buffer 13] find_entry_offset_correct[of sample_buffer 7]
  by (auto simp: sample_entries_def less_Suc_eq numeral_3_eq_3)

text \<open>The position of offset \<open>i\<close> of command \<open>c\<close> is the length of the earlier commands
  plus \<open>i\<close>; an offset beyond the command gives its start, and a command that does not exist the
  end of the data (no error is reported in either case).\<close>

theorem find_position_correct:
  assumes "cb_wf b" "sum_list (sizes b) < 2 ^ 64"
  shows "\<exists>p. aesd_circular_buffer_find_position b c i = Some p
    \<and> unat p = (if unat c < length (entries b)
                then sum_list (take (unat c) (sizes b))
                       + (if unat i \<le> sizes b ! unat c then unat i else 0)
                else sum_list (sizes b))"
  using seek_pos_le[of "sizes b" "unat c" "unat i"] assms(2)
  by (simp add: find_position_seek[OF assms] unat_of_nat_64) (simp add: seek_pos_def)

theorem find_position_correct_witness:
  "(\<exists>p. aesd_circular_buffer_find_position sample_buffer 1 2 = Some p \<and> unat p = 8)
   \<and> (\<exists>p. aesd_circular_buffer_find_position sample_buffer 5 2 = Some p \<and> unat p = 13)"
  using find_position_correct[of sample_buffer 1 2] find_position_correct[of sample_buffer 5 2]
  by (simp add: sample_entries_def)

text \<open>The two searches are inverse to each other on the bytes that exist.\<close>

theorem find_position_roundtrip:
  assumes "cb_wf b" "sum_list (sizes b) < 2 ^ 64"
    and "unat c < length (entries b)" "unat i < sizes b ! unat c"
  shows "\<exists>p. aesd_circular_buffer_find_position b c i = Some p
    \<and> aesd_circular_buffer_find_entry_offset_for_fpos b p = Some (Some (slot b (unat c), i))"
  using cb.find_pos[OF assms(1) _ assms(3), of i] assms(2-4) by (simp flip: sizes_def)

theorem find_position_roundtrip_witness:
  "\<exists>p. aesd_circular_buffer_find_position sample_buffer 2 3 = Some p
    \<and> aesd_circular_buffer_find_entry_offset_for_fpos sample_buffer p =
        Some (Some (slot sample_buffer (unat (2 :: u64)), 3))"
  by (rule find_position_roundtrip) (simp_all add: sample_entries_def)

end
