(* ===== verification/Kernel_Heap.thy ===== *)
theory Kernel_Heap
  imports Prelude
begin

section \<open>Kernel memory and the kernel services the driver calls\<close>

text \<open>
  The driver is linked against the Linux kernel, whose code is not part of the repository. What
  the driver calls is a parameter of the model: a record \<open>kernel\<close> with one field per service.
  Its documented behaviour is the predicate \<open>kernel_ok\<close>. The heap is an explicit store from
  block addresses to the bytes of the block, so that sharing, leaks and use after free are
  visible.
\<close>

type_synonym heap = "addr \<Rightarrow> byte list option"
type_synonym task = nat

text \<open>
  \<^item> \<open>mutex_lock_interruptible\<close>: the value the call returns, 0 or a negative error when a signal
    interrupts the wait (one value per model call, since every handler locks once);
  \<^item> \<open>kmalloc h n\<close>: \<open>None\<close> for a failed allocation, else the address of the new block and its
    \<open>n\<close> indeterminate bytes;
  \<^item> \<open>krealloc h p n\<close>: \<open>None\<close> for a failed reallocation, else the address of the resized block and
    the indeterminate bytes by which it grew;
  \<^item> \<open>copy_from_user\<close>, \<open>copy_to_user\<close>: the number of bytes that could not be copied;
  \<^item> \<open>IOC_TYPE\<close>, \<open>IOC_NR\<close>, \<open>IOWR\<close>: the \<open>ioctl\<close> number macros of the kernel headers.
\<close>

record kernel =
  mutex_lock_interruptible :: int
  kmalloc :: "heap \<Rightarrow> nat \<Rightarrow> (addr \<times> byte list) option"
  krealloc :: "heap \<Rightarrow> addr \<Rightarrow> nat \<Rightarrow> (addr \<times> byte list) option"
  copy_from_user :: nat
  copy_to_user :: nat
  IOC_TYPE :: "u32 \<Rightarrow> u32"
  IOC_NR :: "u32 \<Rightarrow> u32"
  IOWR :: "u32 \<Rightarrow> u32 \<Rightarrow> nat \<Rightarrow> u32"

text \<open>The old contents of the block that is reallocated: none for the \<open>NULL\<close> pointer.\<close>

definition block :: "heap \<Rightarrow> addr \<Rightarrow> byte list" where
  "block h p = (case h p of None \<Rightarrow> [] | Some bs \<Rightarrow> bs)"

text \<open>
  The documented behaviour: an allocation of at least one byte returns a block of that size that is
  not in use (one of zero bytes returns a constant that may be handed out any number of times, so
  nothing is assumed of it); a reallocation returns the same block or one that is not in use; type and number are
  recovered from a composed \<open>ioctl\<close> number.
\<close>

definition kernel_ok :: "kernel \<Rightarrow> bool" where
  "kernel_ok K \<longleftrightarrow>
     (\<forall>h n p bs. kmalloc K h n = Some (p, bs) \<longrightarrow> 0 < n \<longrightarrow>
        p \<noteq> NULL \<and> h p = None \<and> length bs = n)
   \<and> (\<forall>h p n q bs. krealloc K h p n = Some (q, bs) \<longrightarrow> 0 < n \<longrightarrow>
        q \<noteq> NULL \<and> (q = p \<or> h q = None) \<and> length bs = n - length (block h p))
   \<and> (\<forall>ty nr sz. ty < 256 \<longrightarrow> nr < 256 \<longrightarrow>
        IOC_TYPE K (IOWR K ty nr sz) = ty \<and> IOC_NR K (IOWR K ty nr sz) = nr)"

lemma kernel_ok_kmalloc:
  "kernel_ok K \<Longrightarrow> kmalloc K h n = Some (p, bs) \<Longrightarrow> 0 < n \<Longrightarrow> p \<noteq> NULL \<and> h p = None \<and> length bs = n"
  by (simp add: kernel_ok_def)

lemma kernel_ok_krealloc:
  "kernel_ok K \<Longrightarrow> krealloc K h p n = Some (q, bs) \<Longrightarrow> 0 < n \<Longrightarrow>
     q \<noteq> NULL \<and> (q = p \<or> h q = None) \<and> length bs = n - length (block h p)"
  by (simp add: kernel_ok_def)

subsection \<open>Allocation, reallocation, release\<close>

definition do_kmalloc :: "kernel \<Rightarrow> heap \<Rightarrow> nat \<Rightarrow> addr \<times> heap" where
  "do_kmalloc K h n =
     (case kmalloc K h n of None \<Rightarrow> (NULL, h) | Some (p, bs) \<Rightarrow> (p, h(p \<mapsto> bs)))"

text \<open>Reallocating a pointer that is neither \<open>NULL\<close> nor a block has no value.\<close>

definition do_krealloc :: "kernel \<Rightarrow> heap \<Rightarrow> addr \<Rightarrow> nat \<Rightarrow> (addr \<times> heap) option" where
  "do_krealloc K h p n =
     (if p \<noteq> NULL \<and> h p = None then None
      else case krealloc K h p n of
        None \<Rightarrow> Some (NULL, h)
      | Some (q, bs) \<Rightarrow> Some (q, (h(p := None))(q \<mapsto> take n (block h p @ bs))))"

definition do_kfree :: "heap \<Rightarrow> addr \<Rightarrow> heap option" where
  "do_kfree h p =
     (if p = NULL then Some h
      else case h p of None \<Rightarrow> None | Some _ \<Rightarrow> Some (h(p := None)))"

subsection \<open>Reading and writing inside a block\<close>

definition heap_read :: "heap \<Rightarrow> addr \<Rightarrow> nat \<Rightarrow> nat \<Rightarrow> byte list option" where
  "heap_read h p off n =
     (case h p of None \<Rightarrow> None
      | Some bs \<Rightarrow> if off + n \<le> length bs then Some (take n (drop off bs)) else None)"

definition heap_write :: "heap \<Rightarrow> addr \<Rightarrow> nat \<Rightarrow> byte list \<Rightarrow> heap option" where
  "heap_write h p off bs =
     (case h p of None \<Rightarrow> None
      | Some old \<Rightarrow>
          if off + length bs \<le> length old
          then Some (h(p \<mapsto> take off old @ bs @ drop (off + length bs) old)) else None)"

lemma heap_read_all: "h p = Some bs \<Longrightarrow> length bs = n \<Longrightarrow> heap_read h p 0 n = Some bs"
  by (simp add: heap_read_def)

lemma heap_write_all:
  "h p = Some old \<Longrightarrow> length old = length bs \<Longrightarrow> heap_write h p 0 bs = Some (h(p \<mapsto> bs))"
  by (simp add: heap_write_def)

lemma heap_write_append:
  "h p = Some (old @ junk) \<Longrightarrow> length junk = length bs \<Longrightarrow>
     heap_write h p (length old) bs = Some (h(p \<mapsto> old @ bs))"
  by (simp add: heap_write_def)

lemma do_kmalloc_cases:
  assumes "kernel_ok K" "0 < n"
  obtains (fail) "do_kmalloc K h n = (NULL, h)" "kmalloc K h n = None"
  | (ok) p bs where "do_kmalloc K h n = (p, h(p \<mapsto> bs))" "p \<noteq> NULL" "h p = None" "length bs = n"
      "kmalloc K h n = Some (p, bs)"
  using kernel_ok_kmalloc[OF assms(1) _ assms(2), of h]
  by (cases "kmalloc K h n") (auto simp: do_kmalloc_def)

lemma do_krealloc_cases:
  assumes "kernel_ok K" "h p = Some old" "length old \<le> n" "0 < n"
  obtains (fail) "do_krealloc K h p n = Some (NULL, h)" "krealloc K h p n = None"
  | (ok) q bs where "do_krealloc K h p n = Some (q, (h(p := None))(q \<mapsto> old @ bs))"
      "q \<noteq> NULL" "q = p \<or> h q = None" "length bs = n - length old" "krealloc K h p n \<noteq> None"
proof (cases "krealloc K h p n")
  case None
  then show ?thesis using assms fail by (simp add: do_krealloc_def)
next
  case (Some r)
  obtain q bs where r: "krealloc K h p n = Some (q, bs)" using Some by (cases r) simp
  have b: "block h p = old" using assms(2) by (simp add: block_def)
  note k = kernel_ok_krealloc[OF assms(1) r assms(4), unfolded b]
  have "do_krealloc K h p n = Some (q, (h(p := None))(q \<mapsto> old @ bs))"
    using assms(2,3) r k b by (simp add: do_krealloc_def)
  with k r show ?thesis using ok by blast
qed

end
