(* ===== verification/Char_Driver.thy ===== *)
theory Char_Driver
  imports Circular_Buffer Kernel_Heap
begin

section \<open>The character driver\<close>

text \<open>
  \<^verbatim>\<open>src/aesd-char-driver/main.c\<close>, \<^verbatim>\<open>aesdchar.h\<close> and \<^verbatim>\<open>aesd_ioctl.h\<close>: the handlers of the
  \<open>file_operations\<close> table and the module's start and exit. Every handler is a function from the
  kernel services, the calling task, the open file and the kernel state to the returned value
  and the new state. Debug prints (\<open>PDEBUG\<close>, \<open>printk\<close>) are left out.
\<close>

subsection \<open>State\<close>

abbreviation (input) EFAULT :: int where "EFAULT \<equiv> 14"
abbreviation (input) ENOMEM :: int where "ENOMEM \<equiv> 12"
abbreviation (input) EINVAL :: int where "EINVAL \<equiv> 22"
abbreviation (input) ENOTTY :: int where "ENOTTY \<equiv> 25"
abbreviation (input) ERESTARTSYS :: int where "ERESTARTSYS \<equiv> 512"

text \<open>\<open>lock\<close> is the task that holds the mutex. The embedded \<open>struct cdev\<close> belongs to the
  kernel; \<open>cdev_live\<close> below records whether it is registered.\<close>

record aesd_dev =
  lock :: "task option"
  store_buffer :: addr
  buffer_length :: u64
  circular_buffer :: aesd_circular_buffer

text \<open>An open file: its position (\<open>loff_t\<close>, two's complement) and \<open>private_data\<close>, which is
  \<open>NULL\<close> or points to the one device, \<open>aesd_device\<close>.\<close>

datatype dev_ref = Aesd_device

record open_file =
  f_pos :: u64
  private_data :: "dev_ref option"

record kstate =
  mem :: heap
  aesd_device :: aesd_dev
  cdev_live :: bool
  region :: bool
  aesd_major :: int

definition set_dev :: "(aesd_dev \<Rightarrow> aesd_dev) \<Rightarrow> kstate \<Rightarrow> kstate" where
  "set_dev f s = s\<lparr>aesd_device := f (aesd_device s)\<rparr>"

subsection \<open>The mutex\<close>

text \<open>
  A successful \<open>mutex_lock_interruptible\<close> never returns while the mutex is held (also by the
  caller itself); an interrupted one changes nothing. \<open>mutex_unlock\<close> is allowed to the holder
  only.
\<close>

definition lock_dev :: "kernel \<Rightarrow> task \<Rightarrow> kstate \<Rightarrow> (int \<times> kstate) option" where
  "lock_dev K t s =
     (if mutex_lock_interruptible K \<noteq> 0 then Some (mutex_lock_interruptible K, s)
      else if lock (aesd_device s) = None
      then Some (0, set_dev (\<lambda>d. d\<lparr>lock := Some t\<rparr>) s) else None)"

definition unlock_dev :: "task \<Rightarrow> kstate \<Rightarrow> kstate option" where
  "unlock_dev t s =
     (if lock (aesd_device s) = Some t
      then Some (set_dev (\<lambda>d. d\<lparr>lock := None\<rparr>) s) else None)"

subsection \<open>Open and release\<close>

definition aesd_open :: "open_file \<Rightarrow> int \<times> open_file" where
  "aesd_open filp = (0, filp\<lparr>private_data := Some Aesd_device\<rparr>)"

definition aesd_release :: "open_file \<Rightarrow> int \<times> open_file" where
  "aesd_release filp = (0, filp\<lparr>private_data := None\<rparr>)"

subsection \<open>Read\<close>

text \<open>
  The result is the returned value, the bytes stored into the user's buffer, the new \<open>*f_pos\<close>
  and the new state. An interrupted lock is only logged: the handler goes on. Comparing the
  \<open>size_t\<close> \<open>count\<close> with the \<open>ssize_t\<close> \<open>read_bytes\<close> is an unsigned comparison.
\<close>

definition aesd_read ::
  "kernel \<Rightarrow> task \<Rightarrow> open_file \<Rightarrow> u64 \<Rightarrow> u64 \<Rightarrow> kstate \<Rightarrow> (int \<times> byte list \<times> u64 \<times> kstate) option" where
  "aesd_read K t filp count pos s = do {
     private_data filp;
     (_, s) \<leftarrow> lock_dev K t s;
     r \<leftarrow> aesd_circular_buffer_find_entry_offset_for_fpos (circular_buffer (aesd_device s)) pos;
     case r of
       None \<Rightarrow> do { s \<leftarrow> unlock_dev t s; Some (0, [], pos, s) }
     | Some (i, offset) \<Rightarrow> do {
         offset_in \<leftarrow> array_get (entry (circular_buffer (aesd_device s))) i;
         let read_bytes = size_e offset_in - offset;
         let read_bytes = (if count < read_bytes then count else read_bytes);
         bytes \<leftarrow> heap_read (mem s) (buffptr offset_in) (unat offset) (unat read_bytes);
         if copy_to_user K \<noteq> 0
         then do { s \<leftarrow> unlock_dev t s;
                   Some (- EFAULT, take (length bytes - copy_to_user K) bytes, pos, s) }
         else do { s \<leftarrow> unlock_dev t s; Some (sint read_bytes, bytes, pos + read_bytes, s) }
       }
   }"

subsection \<open>Write\<close>

text \<open>The common exit: \<open>mutex_unlock\<close>, then \<open>kfree(buffer)\<close>.\<close>

definition write_end :: "task \<Rightarrow> addr \<Rightarrow> int \<Rightarrow> kstate \<Rightarrow> (int \<times> kstate) option" where
  "write_end t buffer retval s = do {
     s \<leftarrow> unlock_dev t s;
     h \<leftarrow> do_kfree (mem s) buffer;
     Some (retval, s\<lparr>mem := h\<rparr>)
   }"

text \<open>
  The loop over the copied bytes: the position after the last line feed and whether there is
  one. The index is an \<open>int\<close>, which overflows when \<open>count\<close> does not fit.
\<close>

definition scan_newline :: "byte list \<Rightarrow> (u32 \<times> bool) option" where
  "scan_newline buffer =
     (if length buffer < 2 ^ 31
      then Some (fold (\<lambda>i (buffer_new_line, temp).
                   if buffer ! i = newline then (of_nat (i + 1), True) else (buffer_new_line, temp))
                 [0..<length buffer] (0, False))
      else None)"

text \<open>
  Keeping the bytes in the device's store: a first fragment gets a block of its own and is
  stored whole; a later one extends the block, up to the last line feed if there is one. The
  boolean is false when the allocation fails.
\<close>

definition store_bytes ::
  "kernel \<Rightarrow> addr \<Rightarrow> u64 \<Rightarrow> u32 \<Rightarrow> bool \<Rightarrow> kstate \<Rightarrow> (bool \<times> kstate) option" where
  "store_bytes K buffer count buffer_new_line temp s =
     (if buffer_length (aesd_device s) = 0
      then let (p, h) = do_kmalloc K (mem s) (unat count);
               s = set_dev (\<lambda>d. d\<lparr>store_buffer := p\<rparr>) (s\<lparr>mem := h\<rparr>) in
           if p = NULL then Some (False, s)
           else do {
             bytes \<leftarrow> heap_read (mem s) buffer 0 (unat count);
             h \<leftarrow> heap_write (mem s) p 0 bytes;
             Some (True, set_dev (\<lambda>d. d\<lparr>buffer_length := buffer_length d + count\<rparr>) (s\<lparr>mem := h\<rparr>))
           }
      else let size = scast (if temp then buffer_new_line else ucast count) in do {
             (p, h) \<leftarrow> do_krealloc K (mem s) (store_buffer (aesd_device s))
                        (unat (buffer_length (aesd_device s) + size));
             let s = set_dev (\<lambda>d. d\<lparr>store_buffer := p\<rparr>) (s\<lparr>mem := h\<rparr>);
             if p = NULL then Some (False, s)
             else do {
               bytes \<leftarrow> heap_read (mem s) buffer 0 (unat size);
               h \<leftarrow> heap_write (mem s) p (unat (buffer_length (aesd_device s))) bytes;
               Some (True, set_dev (\<lambda>d. d\<lparr>buffer_length := buffer_length d + size\<rparr>) (s\<lparr>mem := h\<rparr>))
             }
           })"

text \<open>A line feed completes the command: its block goes into the circular buffer.\<close>

definition commit_store :: "kstate \<Rightarrow> kstate option" where
  "commit_store s = do {
     let write_buffer = \<lparr>buffptr = store_buffer (aesd_device s),
                         size_e = buffer_length (aesd_device s)\<rparr>;
     (buffer_new, cb) \<leftarrow> aesd_circular_buffer_add_entry (circular_buffer (aesd_device s)) write_buffer;
     let s = set_dev (\<lambda>d. d\<lparr>circular_buffer := cb\<rparr>) s;
     h \<leftarrow> (if buffer_new \<noteq> NULL then do_kfree (mem s) buffer_new else Some (mem s));
     Some (set_dev (\<lambda>d. d\<lparr>buffer_length := 0\<rparr>) (s\<lparr>mem := h\<rparr>))
   }"

text \<open>
  \<open>ubuf\<close> is the user's memory from \<open>buf\<close> on, at least \<open>count\<close> bytes of it; a copy that stops
  early leaves zeros in the rest of the kernel's block.
\<close>

definition aesd_write ::
  "kernel \<Rightarrow> task \<Rightarrow> open_file \<Rightarrow> byte list \<Rightarrow> u64 \<Rightarrow> kstate \<Rightarrow> (int \<times> kstate) option" where
  "aesd_write K t filp ubuf count s = do {
     private_data filp;
     (_, s) \<leftarrow> lock_dev K t s;
     let (buffer, h) = do_kmalloc K (mem s) (unat count);
     let s = s\<lparr>mem := h\<rparr>;
     if buffer = NULL then write_end t buffer (- ENOMEM) s
     else do {
       let left = copy_from_user K;
       h \<leftarrow> heap_write (mem s) buffer 0 (take (unat count - left) ubuf @ replicate left 0);
       let s = s\<lparr>mem := h\<rparr>;
       if left \<noteq> 0 then write_end t buffer (- EFAULT) s
       else do {
         bytes \<leftarrow> heap_read (mem s) buffer 0 (unat count);
         (buffer_new_line, temp) \<leftarrow> scan_newline bytes;
         (ok, s) \<leftarrow> store_bytes K buffer count buffer_new_line temp s;
         if \<not> ok then write_end t buffer (- ENOMEM) s
         else do {
           s \<leftarrow> (if temp then commit_store s else Some s);
           write_end t buffer (sint count) s
         }
       }
     }
   }"

subsection \<open>Seek\<close>

text \<open>
  The position arithmetic wraps around. \<open>SEEK_END\<close> and unknown modes return \<open>-EINVAL\<close> straight
  from the \<open>switch\<close>; the jump to the unlocking exit is never reached from there.
\<close>

definition aesd_llseek ::
  "kernel \<Rightarrow> task \<Rightarrow> open_file \<Rightarrow> u64 \<Rightarrow> int \<Rightarrow> kstate \<Rightarrow> (int \<times> open_file \<times> kstate) option" where
  "aesd_llseek K t filp off whence s = do {
     private_data filp;
     (r, s) \<leftarrow> lock_dev K t s;
     if r \<noteq> 0 then Some (- ERESTARTSYS, filp, s)
     else if whence = 0 \<or> whence = 1 then do {
       let newpos = (if whence = 0 then off else f_pos filp + off);
       s \<leftarrow> unlock_dev t s;
       if sint newpos < 0 then Some (- EINVAL, filp, s)
       else Some (sint newpos, filp\<lparr>f_pos := newpos\<rparr>, s)
     }
     else Some (- EINVAL, filp, s)
   }"

subsection \<open>Ioctl\<close>

record aesd_seekto =
  write_cmd :: u32
  write_cmd_offset :: u32

abbreviation (input) AESD_IOC_MAGIC :: u32 where "AESD_IOC_MAGIC \<equiv> 0x16"
abbreviation (input) AESDCHAR_IOC_MAXNR :: u32 where "AESDCHAR_IOC_MAXNR \<equiv> 1"

definition AESDCHAR_IOCSEEKTO :: "kernel \<Rightarrow> u32" where
  "AESDCHAR_IOCSEEKTO K = IOWR K AESD_IOC_MAGIC 1 8"

text \<open>The handler takes no lock. \<open>arg\<close> is the user's \<open>struct aesd_seekto\<close>.\<close>

definition aesd_unlocked_ioctl ::
  "kernel \<Rightarrow> open_file \<Rightarrow> u32 \<Rightarrow> aesd_seekto \<Rightarrow> kstate \<Rightarrow> (int \<times> open_file) option" where
  "aesd_unlocked_ioctl K filp cmd arg s =
     (if IOC_TYPE K cmd \<noteq> AESD_IOC_MAGIC then Some (- ENOTTY, filp)
      else if AESDCHAR_IOC_MAXNR < IOC_NR K cmd then Some (- ENOTTY, filp)
      else if cmd = AESDCHAR_IOCSEEKTO K then
        (if copy_from_user K \<noteq> 0 then Some (- EFAULT, filp)
         else do {
           newpos \<leftarrow> aesd_circular_buffer_find_position (circular_buffer (aesd_device s))
                      (ucast (write_cmd arg)) (ucast (write_cmd_offset arg));
           Some (0, filp\<lparr>f_pos := newpos\<rparr>)
         })
      else Some (- ENOTTY, filp))"

subsection \<open>Module start and exit\<close>

text \<open>The results of the registration calls: \<open>alloc_chrdev_region\<close> with the major number it
  chose, and \<open>cdev_add\<close>.\<close>

record registration =
  alloc_chrdev_region :: int
  new_major :: int
  cdev_add :: int

definition aesd_setup_cdev :: "registration \<Rightarrow> kstate \<Rightarrow> int \<times> kstate" where
  "aesd_setup_cdev R s =
     (let err = cdev_add R in (err, if err \<noteq> 0 then s else s\<lparr>cdev_live := True\<rparr>))"

definition zero_dev :: aesd_dev where
  "zero_dev = \<lparr>lock = None, store_buffer = NULL, buffer_length = 0,
               circular_buffer = aesd_circular_buffer_init\<rparr>"

definition aesd_init_module :: "registration \<Rightarrow> kstate \<Rightarrow> int \<times> kstate" where
  "aesd_init_module R s =
     (let result = alloc_chrdev_region R;
          s = s\<lparr>aesd_major := new_major R\<rparr> in
      if result < 0 then (result, s)
      else let s = s\<lparr>region := True, aesd_device := zero_dev\<rparr>;
               (result, s) = aesd_setup_cdev R s in
           if result \<noteq> 0 then (result, s\<lparr>region := False\<rparr>) else (result, s))"

text \<open>The body of the release loop, on the slot with index \<open>i\<close>.\<close>

definition free_slot :: "nat \<Rightarrow> kstate \<Rightarrow> kstate option" where
  "free_slot i s = do {
     let cb = circular_buffer (aesd_device s);
     e \<leftarrow> array_get (entry cb) i;
     if buffptr e \<noteq> NULL then do {
       h \<leftarrow> do_kfree (mem s) (buffptr e);
       es \<leftarrow> array_set (entry cb) i (e\<lparr>size_e := 0\<rparr>);
       Some (set_dev (\<lambda>d. d\<lparr>circular_buffer := cb\<lparr>entry := es\<rparr>\<rparr>) (s\<lparr>mem := h\<rparr>))
     } else Some s
   }"

definition aesd_cleanup_module :: "kstate \<Rightarrow> kstate option" where
  "aesd_cleanup_module s = do {
     s \<leftarrow> AESD_CIRCULAR_BUFFER_FOREACH free_slot (s\<lparr>cdev_live := False\<rparr>);
     Some (s\<lparr>region := False\<rparr>)
   }"

end
