(* ===== verification/Driver_Refinement.thy ===== *)
theory Driver_Refinement
  imports Char_Driver
begin

section \<open>The driver implements a list of commands and a pending fragment\<close>

text \<open>
  The abstract device is the list of the stored commands, oldest first, and the fragment that
  waits for its line feed. \<open>dev_inv\<close> ties the kernel state to it: the buffer is well formed, its
  entries own distinct blocks of the recorded sizes, the pending fragment owns another one. Every
  handler keeps the invariant and does on the abstract device what its specification says.
\<close>

subsection \<open>Abstract device\<close>

definition upto_last_newline :: "byte list \<Rightarrow> byte list" where
  "upto_last_newline bs = rev (dropWhile (\<lambda>b. b \<noteq> newline) (rev bs))"

text \<open>What a write of \<open>bs\<close> keeps: everything when nothing is pending or there is no line feed,
  else the bytes up to the last line feed.\<close>

definition kept_bytes :: "byte list \<Rightarrow> byte list \<Rightarrow> byte list" where
  "kept_bytes pend bs =
     (if pend \<noteq> [] \<and> newline \<in> set bs then upto_last_newline bs else bs)"

definition spec_write ::
  "byte list \<Rightarrow> byte list list \<times> byte list \<Rightarrow> byte list list \<times> byte list" where
  "spec_write bs a =
     (let pend = snd a @ kept_bytes (snd a) bs in
      if newline \<in> set bs
      then (last_n AESDCHAR_MAX_WRITE_OPERATIONS_SUPPORTED (fst a @ [pend]), [])
      else (fst a, pend))"

lemma upto_last_newline_snoc:
  "upto_last_newline (bs @ [b]) = (if b = newline then bs @ [b] else upto_last_newline bs)"
  by (simp add: upto_last_newline_def)

lemma upto_last_newline_prefix:
  "upto_last_newline bs = take (length (upto_last_newline bs)) bs"
proof (induction bs rule: rev_induct)
  case Nil
  then show ?case by (simp add: upto_last_newline_def)
next
  case (snoc b bs)
  have "length (upto_last_newline bs) \<le> length bs"
    unfolding upto_last_newline_def using length_dropWhile_le[of _ "rev bs"] by simp
  with snoc show ?case by (simp add: upto_last_newline_snoc)
qed

lemma length_upto_last_newline: "length (upto_last_newline bs) \<le> length bs"
  unfolding upto_last_newline_def using length_dropWhile_le[of _ "rev bs"] by simp

lemma upto_last_newline_Nil: "upto_last_newline bs = [] \<longleftrightarrow> newline \<notin> set bs"
  by (auto simp: upto_last_newline_def)

text \<open>The scanning loop finds the length of that prefix.\<close>

lemma scan_newline_upto:
  assumes "length bs < 2 ^ 31"
  shows "scan_newline bs = Some (of_nat (length (upto_last_newline bs)), newline \<in> set bs)"
proof -
  have "fold (\<lambda>i (buffer_new_line, temp).
            if bs ! i = newline then (of_nat (i + 1), True) else (buffer_new_line, temp))
          [0..<length bs] (0 :: u32, False)
        = (of_nat (length (upto_last_newline bs)), newline \<in> set bs)" (is "?loop bs = _")
  proof (induction bs rule: rev_induct)
    case Nil
    then show ?case by (simp add: upto_last_newline_def)
  next
    case (snoc b bs)
    have "fold (\<lambda>i (buffer_new_line, temp).
            if (bs @ [b]) ! i = newline then (of_nat (i + 1), True) else (buffer_new_line, temp))
          [0..<length bs] (0, False) = ?loop bs"
      by (intro fold_cong) (auto simp: nth_append)
    with snoc show ?case
      by (simp add: upto_last_newline_snoc)
  qed
  with assms show ?thesis by (simp add: scan_newline_def)
qed

subsection \<open>Invariant and abstraction\<close>

definition stored :: "kstate \<Rightarrow> aesd_buffer_entry list" where
  "stored s = entries (circular_buffer (aesd_device s))"

definition commands :: "kstate \<Rightarrow> byte list list" where
  "commands s = map (\<lambda>e. block (mem s) (buffptr e)) (stored s)"

definition pending :: "kstate \<Rightarrow> byte list" where
  "pending s = (if buffer_length (aesd_device s) = 0 then []
                else block (mem s) (store_buffer (aesd_device s)))"

definition abs_dev :: "kstate \<Rightarrow> byte list list \<times> byte list" where
  "abs_dev s = (commands s, pending s)"

text \<open>The blocks the device owns.\<close>

definition owned :: "kstate \<Rightarrow> addr set" where
  "owned s = buffptr ` set (stored s) \<union>
     (if buffer_length (aesd_device s) = 0 then {} else {store_buffer (aesd_device s)})"

definition dev_inv :: "kstate \<Rightarrow> bool" where
  "dev_inv s \<longleftrightarrow> cb_wf (circular_buffer (aesd_device s))
     \<and> mem s NULL = None
     \<and> (\<forall>e \<in> set (stored s). \<exists>bs. mem s (buffptr e) = Some bs \<and> length bs = unat (size_e e))
     \<and> distinct (map buffptr (stored s))
     \<and> (buffer_length (aesd_device s) \<noteq> 0 \<longrightarrow>
          store_buffer (aesd_device s) \<notin> buffptr ` set (stored s)
        \<and> (\<exists>bs. mem s (store_buffer (aesd_device s)) = Some bs
             \<and> length bs = unat (buffer_length (aesd_device s))))"

lemma dev_invD:
  assumes "dev_inv s"
  shows "cb_wf (circular_buffer (aesd_device s))" "mem s NULL = None"
    "distinct (map buffptr (stored s))"
  using assms by (auto simp: dev_inv_def)

lemma dev_inv_entry:
  assumes "dev_inv s" "e \<in> set (stored s)"
  shows "mem s (buffptr e) = Some (block (mem s) (buffptr e))"
    and "length (block (mem s) (buffptr e)) = unat (size_e e)"
  using assms by (fastforce simp: dev_inv_def block_def)+

lemma dev_inv_pending:
  assumes "dev_inv s" "buffer_length (aesd_device s) \<noteq> 0"
  shows "mem s (store_buffer (aesd_device s)) = Some (pending s)"
    and "length (pending s) = unat (buffer_length (aesd_device s))"
    and "store_buffer (aesd_device s) \<notin> buffptr ` set (stored s)"
  using assms by (auto simp: dev_inv_def pending_def block_def)

lemma length_pending:
  "dev_inv s \<Longrightarrow> length (pending s) = unat (buffer_length (aesd_device s))"
  using dev_inv_pending(2)[of s] by (cases "buffer_length (aesd_device s) = 0") (auto simp: pending_def)

lemma pending_Nil_iff: "dev_inv s \<Longrightarrow> pending s = [] \<longleftrightarrow> buffer_length (aesd_device s) = 0"
  using length_pending[of s] by (metis length_0_conv unat_eq_0)

lemma map_length_commands:
  assumes "dev_inv s"
  shows "map length (commands s) = sizes (circular_buffer (aesd_device s))"
  using dev_inv_entry(2)[OF assms] by (simp add: commands_def sizes_def stored_def)

lemma length_commands [simp]: "length (commands s) = buf_count (circular_buffer (aesd_device s))"
  by (simp add: commands_def stored_def)

lemma owned_live: "dev_inv s \<Longrightarrow> p \<in> owned s \<Longrightarrow> mem s p \<noteq> None"
  using dev_inv_entry(1)[of s] dev_inv_pending(1)[of s] by (auto simp: owned_def split: if_splits)

text \<open>Everything depends on the owned blocks only.\<close>

lemma mem_cong:
  assumes "dev_inv s" and "\<And>p. p \<in> owned s \<Longrightarrow> h p = mem s p" and "h NULL = None"
  shows "dev_inv (s\<lparr>mem := h\<rparr>)" and "commands (s\<lparr>mem := h\<rparr>) = commands s"
    and "pending (s\<lparr>mem := h\<rparr>) = pending s" and "owned (s\<lparr>mem := h\<rparr>) = owned s"
  using assms
  by (auto simp: dev_inv_def commands_def pending_def owned_def stored_def block_def)

lemma set_dev_simps [simp]:
  "mem (set_dev f s) = mem s" "aesd_device (set_dev f s) = f (aesd_device s)"
  "cdev_live (set_dev f s) = cdev_live s" "region (set_dev f s) = region s"
  "set_dev g (set_dev f s) = set_dev (\<lambda>d. g (f d)) s"
  by (simp_all add: set_dev_def)

lemma stored_set_lock [simp]: "stored (set_dev (\<lambda>d. d\<lparr>lock := l\<rparr>) s) = stored s"
  by (simp add: stored_def)

lemma set_lock [simp]:
  "dev_inv (set_dev (\<lambda>d. d\<lparr>lock := l\<rparr>) s) = dev_inv s"
  "commands (set_dev (\<lambda>d. d\<lparr>lock := l\<rparr>) s) = commands s"
  "pending (set_dev (\<lambda>d. d\<lparr>lock := l\<rparr>) s) = pending s"
  "owned (set_dev (\<lambda>d. d\<lparr>lock := l\<rparr>) s) = owned s"
  by (simp_all add: dev_inv_def commands_def pending_def owned_def)

subsection \<open>Locking\<close>

text \<open>A handler call in which everything outside the driver goes well: an open file, a free
  mutex, no signal.\<close>

definition can_enter :: "kernel \<Rightarrow> open_file \<Rightarrow> kstate \<Rightarrow> bool" where
  "can_enter K filp s \<longleftrightarrow> private_data filp \<noteq> None \<and> mutex_lock_interruptible K = 0
     \<and> lock (aesd_device s) = None"

lemma can_enter_lock:
  "can_enter K filp s \<Longrightarrow> lock_dev K t s = Some (0, set_dev (\<lambda>d. d\<lparr>lock := Some t\<rparr>) s)"
  by (simp add: can_enter_def lock_dev_def)

lemma can_enter_file: "can_enter K filp s \<Longrightarrow> \<exists>r. private_data filp = Some r"
  by (auto simp: can_enter_def)

lemma unlock_held:
  "lock (aesd_device s) = Some t \<Longrightarrow>
     unlock_dev t s = Some (set_dev (\<lambda>d. d\<lparr>lock := None\<rparr>) s)"
  by (simp add: unlock_dev_def)

lemma set_lock_None [simp]:
  "lock (aesd_device s) = None \<Longrightarrow> set_dev (\<lambda>d. d\<lparr>lock := None\<rparr>) s = s"
  by (simp add: set_dev_def)

subsection \<open>Read\<close>

lemma sum_sizes_commands:
  "dev_inv s \<Longrightarrow> sum_list (sizes (circular_buffer (aesd_device s))) = length (concat (commands s))"
  by (simp add: length_concat map_length_commands)

lemma read_past_end:
  assumes "dev_inv s" "can_enter K filp s"
    and "length (concat (commands s)) < 2 ^ 64" "length (concat (commands s)) \<le> unat pos"
  shows "aesd_read K t filp count pos s = Some (0, [], pos, s)"
proof -
  let ?cb = "circular_buffer (aesd_device s)"
  have "aesd_circular_buffer_find_entry_offset_for_fpos ?cb pos = Some None"
    using cb.find_past_end[OF dev_invD(1)[OF assms(1)], of pos] assms(3,4)
    by (simp add: sum_sizes_commands[OF assms(1)] flip: sizes_def)
  then show ?thesis
    using can_enter_file[OF assms(2)] assms(2)
    by (auto simp: aesd_read_def can_enter_lock unlock_held can_enter_def)
qed

lemma read_in_command:
  assumes inv: "dev_inv s" and enter: "can_enter K filp s" and copied: "copy_to_user K = 0"
    and fits: "length (concat (commands s)) < 2 ^ 64"
    and k: "k < length (commands s)" and r: "r < length (commands s ! k)"
    and pos: "unat pos = length (concat (take k (commands s))) + r"
  shows "aesd_read K t filp count pos s =
    (let bytes = take (unat count) (drop r (commands s ! k)); n = of_nat (length bytes) in
     Some (sint n, bytes, pos + n, s))"
proof -
  let ?cb = "circular_buffer (aesd_device s)"
  let ?e = "stored s ! k"
  let ?left = "size_e ?e - of_nat r"
  let ?n = "if count < ?left then count else ?left"
  have kb: "k < buf_count ?cb" using k by simp
  have e: "?e \<in> set (stored s)" using kb by (simp add: stored_def)
  have blk: "mem s (buffptr ?e) = Some (commands s ! k)"
    and len: "length (commands s ! k) = unat (size_e ?e)"
    using dev_inv_entry[OF inv e] kb by (simp_all add: commands_def stored_def)
  have r64: "unat (of_nat r :: u64) = r"
    using r len unat_lt_64[of "size_e ?e"] by (simp add: unat_of_nat_64)
  have left: "unat ?left = length (commands s ! k) - r"
    using r len r64 by (subst unat_sub_64) (simp_all add: word_le_nat_alt)
  have find: "aesd_circular_buffer_find_entry_offset_for_fpos ?cb pos = Some (Some (slot ?cb k, of_nat r))"
    using cb.find_found[OF dev_invD(1)[OF inv], of k r pos] k r pos fits kb len
    by (simp add: sum_sizes_commands[OF inv] length_concat_take map_length_commands[OF inv]
        stored_def flip: sizes_def)
  have get: "array_get (entry ?cb) (slot ?cb k) = Some ?e"
    using entry_at_slot[OF dev_invD(1)[OF inv] kb] by (simp add: stored_def)
  have n: "unat ?n = min (unat count) (length (commands s ! k) - r)"
    using left by (auto simp: word_less_nat_alt min_def)
  have rd: "heap_read (mem s) (buffptr ?e) r (unat ?n) = Some (take (unat count) (drop r (commands s ! k)))"
    using blk n r by (auto simp: heap_read_def min_def)
  have "length (take (unat count) (drop r (commands s ! k))) = unat ?n"
    using n by simp
  then have nn: "of_nat (length (take (unat count) (drop r (commands s ! k)))) = ?n"
    by (simp only: of_nat_unat ucast_id)
  show ?thesis
    using can_enter_file[OF enter] enter find get rd nn copied
    by (auto simp: aesd_read_def can_enter_lock unlock_held can_enter_def r64 Let_def)
qed

subsection \<open>Write: the store\<close>

text \<open>A block in use by the handler only.\<close>

definition spare :: "kstate \<Rightarrow> addr \<Rightarrow> byte list \<Rightarrow> bool" where
  "spare s p bs \<longleftrightarrow> p \<noteq> NULL \<and> p \<notin> owned s \<and> mem s p = Some bs"

lemma spareD: "spare s p bs \<Longrightarrow> p \<noteq> NULL" "spare s p bs \<Longrightarrow> p \<notin> owned s"
    "spare s p bs \<Longrightarrow> mem s p = Some bs"
  by (simp_all add: spare_def)

text \<open>Changing the contents of a block that the device does not own, or allocating one, or
  freeing one, keeps everything.\<close>

lemma spare_upd:
  assumes "dev_inv s" "p \<noteq> NULL" "p \<notin> owned s"
  shows "dev_inv (s\<lparr>mem := (mem s)(p := v)\<rparr>)" "commands (s\<lparr>mem := (mem s)(p := v)\<rparr>) = commands s"
    "pending (s\<lparr>mem := (mem s)(p := v)\<rparr>) = pending s" "owned (s\<lparr>mem := (mem s)(p := v)\<rparr>) = owned s"
  using assms dev_invD(2)[OF assms(1)] by (intro mem_cong; auto)+

lemma fresh_not_owned: "dev_inv s \<Longrightarrow> mem s p = None \<Longrightarrow> p \<notin> owned s"
  using owned_live by blast

text \<open>Giving the store a block with the pending bytes.\<close>

definition with_store :: "addr \<Rightarrow> u64 \<Rightarrow> heap \<Rightarrow> kstate \<Rightarrow> kstate" where
  "with_store p n h s =
     set_dev (\<lambda>d. d\<lparr>store_buffer := p, buffer_length := n\<rparr>) (s\<lparr>mem := h\<rparr>)"

lemma with_store_sel [simp]:
  "mem (with_store p n h s) = h" "lock (aesd_device (with_store p n h s)) = lock (aesd_device s)"
  "store_buffer (aesd_device (with_store p n h s)) = p"
  "buffer_length (aesd_device (with_store p n h s)) = n"
  "circular_buffer (aesd_device (with_store p n h s)) = circular_buffer (aesd_device s)"
  "stored (with_store p n h s) = stored s"
  by (simp_all add: with_store_def set_dev_def stored_def)

lemma with_store_inv:
  assumes inv: "dev_inv s" and p: "p \<notin> buffptr ` set (stored s)" and NULL: "h NULL = None"
    and same: "\<And>q. q \<in> buffptr ` set (stored s) \<Longrightarrow> h q = mem s q"
    and new: "h p = Some bs" "length bs = unat n"
  shows "dev_inv (with_store p n h s)" "commands (with_store p n h s) = commands s"
    "pending (with_store p n h s) = bs"
    "owned (with_store p n h s) \<subseteq> insert p (buffptr ` set (stored s))"
proof -
  show "dev_inv (with_store p n h s)"
    using inv p NULL same new by (auto simp: dev_inv_def)
  show "commands (with_store p n h s) = commands s"
    using same by (auto simp: commands_def block_def)
  show "pending (with_store p n h s) = bs"
    using new by (auto simp: pending_def block_def)
  show "owned (with_store p n h s) \<subseteq> insert p (buffptr ` set (stored s))"
    by (auto simp: owned_def)
qed

text \<open>The number of bytes a later fragment adds.\<close>

lemma kept_size:
  assumes "length bs = unat (count :: u64)" "length bs < 2 ^ 31" "pend \<noteq> []"
  shows "scast (if newline \<in> set bs then of_nat (length (upto_last_newline bs)) else ucast count :: u32)
       = (of_nat (length (kept_bytes pend bs)) :: u64)"
proof -
  have "scast (ucast count :: u32) = count"
    using assms(1,2) scast_small[of "unat count"] by simp
  then show ?thesis
    using assms length_upto_last_newline[of bs] by (auto simp: kept_bytes_def scast_small)
qed

lemma length_kept_bytes: "length (kept_bytes pend bs) \<le> length bs"
  by (simp add: kept_bytes_def length_upto_last_newline)

lemma take_kept_bytes: "take (length (kept_bytes pend bs)) bs = kept_bytes pend bs"
  by (simp add: kept_bytes_def flip: upto_last_newline_prefix)

text \<open>The blocks that others use stay in use, and do not become the device's.\<close>

definition keeps_blocks :: "kstate \<Rightarrow> kstate \<Rightarrow> bool" where
  "keeps_blocks s s' \<longleftrightarrow> (\<forall>p. p \<notin> owned s \<longrightarrow> mem s p \<noteq> None \<longrightarrow> p \<notin> owned s' \<and> mem s' p \<noteq> None)"

lemma keeps_blocks_refl [simp]: "keeps_blocks s s"
  by (simp add: keeps_blocks_def)

text \<open>
  The outcome of storing the fragment: a failed allocation (then the store's pointer is \<open>NULL\<close>,
  while the recorded length stays), or the kept bytes appended to the pending ones.
\<close>

definition store_failed :: "kstate \<Rightarrow> kstate" where
  "store_failed s = with_store NULL (buffer_length (aesd_device s)) (mem s) s"

definition store_grown :: "kstate \<Rightarrow> addr \<Rightarrow> byte list \<Rightarrow> kstate \<Rightarrow> bool" where
  "store_grown s buffer bs s' \<longleftrightarrow> dev_inv s' \<and> commands s' = commands s
     \<and> pending s' = pending s @ kept_bytes (pending s) bs \<and> spare s' buffer bs
     \<and> lock (aesd_device s') = lock (aesd_device s)
     \<and> circular_buffer (aesd_device s') = circular_buffer (aesd_device s) \<and> keeps_blocks s s'"

text \<open>The allocation that the store needs fails.\<close>

definition store_fails :: "kernel \<Rightarrow> kstate \<Rightarrow> byte list \<Rightarrow> bool" where
  "store_fails K s bs =
     (if pending s = [] then kmalloc K (mem s) (length bs) = None
      else krealloc K (mem s) (store_buffer (aesd_device s))
             (length (pending s @ kept_bytes (pending s) bs)) = None)"

lemma store_failed_eq:
  "set_dev (\<lambda>d. d\<lparr>store_buffer := NULL\<rparr>) s = store_failed s"
  by (simp add: store_failed_def with_store_def set_dev_def)

lemma store_grownI:
  assumes inv: "dev_inv s" and spare: "spare s buffer bs"
    and p: "p \<notin> buffptr ` set (stored s)" "p \<noteq> buffer" and h: "h buffer = Some bs" "h NULL = None"
    and same: "\<And>q. q \<in> buffptr ` set (stored s) \<Longrightarrow> h q = mem s q"
    and new: "h p = Some (pending s @ kept_bytes (pending s) bs)"
    and n: "unat n = length (pending s @ kept_bytes (pending s) bs)"
    and others: "\<And>q. q \<notin> owned s \<Longrightarrow> mem s q \<noteq> None \<Longrightarrow> q \<noteq> p \<and> h q \<noteq> None"
  shows "store_grown s buffer bs (with_store p n h s)"
proof -
  note w = with_store_inv[OF inv p(1) h(2) same new n[symmetric]]
  have "buffer \<notin> insert p (buffptr ` set (stored s))"
    using p(2) spareD(2)[OF spare] by (auto simp: owned_def)
  with w(4) have "spare (with_store p n h s) buffer bs"
    using spareD(1)[OF spare] h(1) by (auto simp: spare_def)
  moreover have "keeps_blocks s (with_store p n h s)"
    using w(4) others by (auto simp: keeps_blocks_def owned_def)
  ultimately show ?thesis using w(1-3) by (simp add: store_grown_def)
qed

lemma store_first:
  assumes K: "kernel_ok K" and inv: "dev_inv s" and spare: "spare s buffer bs"
    and len: "length bs = unat count" "bs \<noteq> []" and empty: "buffer_length (aesd_device s) = 0"
  shows "if store_fails K s bs then store_bytes K buffer count nl temp s = Some (False, store_failed s)
     else \<exists>s'. store_bytes K buffer count nl temp s = Some (True, s') \<and> store_grown s buffer bs s'"
proof -
  have "0 < unat count" using len by (metis length_greater_0_conv)
  with K show ?thesis
  proof (cases rule: do_kmalloc_cases[of K "unat count" "mem s"])
  case fail
  with empty len show ?thesis by (simp add: store_bytes_def store_failed_eq store_fails_def pending_def)
next
  case (ok p junk)
  let ?h = "(mem s)(p \<mapsto> bs)"
  have p: "p \<noteq> buffer" "p \<notin> buffptr ` set (stored s)"
    using ok(3) spareD(3)[OF spare] fresh_not_owned[OF inv ok(3)] by (auto simp: owned_def)
  have "store_bytes K buffer count nl temp s = Some (True, with_store p count ?h s)"
    using empty ok spareD(3)[OF spare] p(1) len
    by (simp add: store_bytes_def heap_read_all heap_write_all with_store_def set_dev_def)
  moreover have "pending s = []" using empty by (simp add: pending_def)
  then have "store_grown s buffer bs (with_store p count ?h s)"
    using p ok(2,3) len spareD(3)[OF spare] dev_invD(2)[OF inv]
    by (intro store_grownI[OF inv spare]) (auto simp: kept_bytes_def)
  moreover have "\<not> store_fails K s bs"
    using ok(5) len empty by (simp add: store_fails_def pending_def)
  ultimately show ?thesis by auto
  qed
qed

lemma store_later:
  assumes K: "kernel_ok K" and inv: "dev_inv s" and spare: "spare s buffer bs"
    and len: "length bs = unat count" "length bs < 2 ^ 31"
    and fits: "unat (buffer_length (aesd_device s)) + length bs < 2 ^ 64"
    and later: "buffer_length (aesd_device s) \<noteq> 0"
  shows "if store_fails K s bs
     then store_bytes K buffer count (of_nat (length (upto_last_newline bs))) (newline \<in> set bs) s
            = Some (False, store_failed s)
     else \<exists>s'. store_bytes K buffer count (of_nat (length (upto_last_newline bs))) (newline \<in> set bs) s
            = Some (True, s') \<and> store_grown s buffer bs s'"
proof -
  note old = dev_inv_pending[OF inv later]
  let ?kept = "kept_bytes (pending s) bs"
  let ?p = "store_buffer (aesd_device s)"
  let ?n = "buffer_length (aesd_device s) + of_nat (length ?kept)"
  have kept: "length ?kept \<le> length bs" by (rule length_kept_bytes)
  have ne: "pending s \<noteq> []" using pending_Nil_iff[OF inv] later by simp
  have usize: "unat (of_nat (length ?kept) :: u64) = length ?kept"
    using kept len(2) by (simp add: unat_of_nat_64)
  have un: "unat ?n = length (pending s) + length ?kept"
    using fits usize old(2) kept by (simp add: unat_add_64)
  have rd: "heap_read h buffer 0 (length ?kept) = Some ?kept" if "h buffer = Some bs" for h
    using that kept by (simp add: heap_read_def take_kept_bytes)
  have own: "?p \<in> owned s" using later by (simp add: owned_def)
  have room: "length (pending s) \<le> unat ?n" using un by simp
  have "0 < unat ?n" using un ne by simp
  with K old(1) room show ?thesis
  proof (cases rule: do_krealloc_cases)
    case fail
    with later show ?thesis
      using un ne by (simp add: store_bytes_def store_failed_eq kept_size[OF len ne] store_fails_def Let_def)
  next
    case (ok q junk)
    let ?h1 = "(mem s)(?p := None, q \<mapsto> pending s @ junk)"
    let ?h = "(mem s)(?p := None, q \<mapsto> pending s @ ?kept)"
    have q: "q \<noteq> buffer"
      using ok(3) own spareD(2,3)[OF spare] by auto
    have q': "q \<notin> buffptr ` set (stored s)"
      using ok(3)
    proof
      assume "mem s q = None"
      then show ?thesis using fresh_not_owned[OF inv, of q] by (simp add: owned_def)
    qed (use old(3) in simp)
    have hb: "?h1 buffer = Some bs"
      using q own spareD(2,3)[OF spare] by auto
    have "heap_write ?h1 q (unat (buffer_length (aesd_device s))) ?kept = Some ?h"
      using ok(4) un heap_write_append[of ?h1 q "pending s" junk ?kept] old(2) by simp
    with ok(1,2) later hb have "store_bytes K buffer count (of_nat (length (upto_last_newline bs)))
        (newline \<in> set bs) s = Some (True, with_store q ?n ?h s)"
      by (simp add: store_bytes_def with_store_def set_dev_def kept_size[OF len ne] usize rd Let_def)
    moreover have "?h x = mem s x" if "x \<in> buffptr ` set (stored s)" for x
      using that q' old(3) by (metis fun_upd_other)
    then have "store_grown s buffer bs (with_store q ?n ?h s)"
      using q q' ok(2,3) own un hb dev_invD(2)[OF inv]
      by (intro store_grownI[OF inv spare]) auto
    moreover have "\<not> store_fails K s bs"
      using ok(5) un ne by (simp add: store_fails_def)
    ultimately show ?thesis by auto
  qed
qed

lemmas store_bytes_outcome = store_first store_later

subsection \<open>Write: the commit\<close>

lemma last_n_10_snoc: "length xs \<le> 10 \<Longrightarrow> last_n 10 (xs @ [x]) = drop (length xs - 9) xs @ [x]"
  by (simp add: last_n_def)

lemma commit_store_outcome:
  assumes inv: "dev_inv s" and pend: "pending s \<noteq> []"
  shows "\<exists>s'. commit_store s = Some s' \<and> dev_inv s'
     \<and> commands s' = last_n AESDCHAR_MAX_WRITE_OPERATIONS_SUPPORTED (commands s @ [pending s])
     \<and> pending s' = [] \<and> mem s' = mem s \<and> lock (aesd_device s') = lock (aesd_device s)
     \<and> owned s' \<subseteq> owned s
     \<and> (full (circular_buffer (aesd_device s)) \<longrightarrow> buffptr (hd (stored s)) \<notin> owned s')"
proof -
  let ?d = "aesd_device s"
  let ?e = "\<lparr>buffptr = store_buffer ?d, size_e = buffer_length ?d\<rparr>"
  let ?cb = "cb_add (circular_buffer ?d) ?e"
  let ?s' = "set_dev (\<lambda>d. d\<lparr>circular_buffer := ?cb, buffer_length := 0\<rparr>) s"
  have later: "buffer_length ?d \<noteq> 0" using pend pending_Nil_iff[OF inv] by simp
  note old = dev_inv_pending[OF inv later]
  note wf = dev_invD(1)[OF inv]
  have run: "commit_store s = Some ?s'"
    using wf by (simp add: commit_store_def add_entry_cb_add Let_def set_dev_def)
  have st: "stored ?s' = drop (buf_count (circular_buffer ?d) - 9) (stored s) @ [?e]"
    using buf_count_le[of "circular_buffer ?d"] last_n_10_snoc[of "stored s" ?e]
    by (simp add: stored_def entries_add[OF wf])
  have sub: "set (stored ?s') \<subseteq> insert ?e (set (stored s))"
    using set_drop_subset by (fastforce simp: st)
  have cmds: "commands ?s' = drop (buf_count (circular_buffer ?d) - 9) (commands s) @ [pending s]"
    using later by (simp add: commands_def st drop_map pending_def)
  have dist: "distinct (map buffptr (stored ?s'))"
    using dev_invD(3)[OF inv] old(3) by (auto simp: st distinct_drop simp flip: drop_map dest: in_set_dropD)
  have "\<exists>bs. mem s (buffptr e) = Some bs \<and> length bs = unat (size_e e)" if "e \<in> set (stored ?s')" for e
    using that sub old(1,2) dev_inv_entry[OF inv, of e] by auto
  then have "dev_inv ?s'"
    using wf dev_invD(2)[OF inv] dist by (simp add: dev_inv_def)
  moreover have "owned ?s' \<subseteq> owned s"
    using sub later by (auto simp: owned_def)
  moreover have "buffptr (hd (stored s)) \<notin> owned ?s'" if "full (circular_buffer ?d)"
  proof -
    have "length (stored s) = 10" using that by (simp add: stored_def buf_count_def)
    then obtain e es where "stored s = e # es" by (cases "stored s") auto
    then show ?thesis
      using st that dev_invD(3)[OF inv] old(3)
      by (auto simp: owned_def stored_def buf_count_def)
  qed
  ultimately show ?thesis
    using run cmds buf_count_le[of "circular_buffer ?d"] last_n_10_snoc[of "commands s" "pending s"]
    by (auto simp: pending_def)
qed

subsection \<open>Write: the whole handler\<close>

lemma write_end_spare:
  assumes inv: "dev_inv s" and spare: "spare s buffer bs" and lock: "lock (aesd_device s) = Some t"
  shows "\<exists>s'. write_end t buffer r s = Some (r, s') \<and> dev_inv s' \<and> abs_dev s' = abs_dev s
     \<and> owned s' = owned s \<and> lock (aesd_device s') = None \<and> mem s' = (mem s)(buffer := None)"
proof -
  let ?s = "set_dev (\<lambda>d. d\<lparr>lock := None\<rparr>) s"
  have "write_end t buffer r s = Some (r, ?s\<lparr>mem := (mem s)(buffer := None)\<rparr>)"
    using lock spareD(1,3)[OF spare] by (simp add: write_end_def unlock_held do_kfree_def)
  moreover have "spare ?s buffer bs" using spare by (simp add: spare_def)
  moreover have "lock (aesd_device (?s\<lparr>mem := h\<rparr>)) = None" for h by (simp add: set_dev_def)
  ultimately show ?thesis
    using inv spare_upd[of ?s buffer None] spareD(1,2)[of ?s buffer bs] by (simp add: abs_dev_def)
qed

text \<open>What the caller of \<open>write\<close> sees of a command on a failed allocation.\<close>

lemma write_end_failed:
  assumes "lock (aesd_device s) = None" "buffer \<noteq> NULL" "mem s buffer = None"
  shows "write_end t buffer r (store_failed (set_dev (\<lambda>d. d\<lparr>lock := Some t\<rparr>)
           (s\<lparr>mem := (mem s)(buffer \<mapsto> bs)\<rparr>))) = Some (r, store_failed s)"
proof -
  have "(mem s)(buffer := None) = mem s" using assms(3) by auto
  moreover have "(aesd_device s)\<lparr>store_buffer := p, lock := None\<rparr>
      = (aesd_device s)\<lparr>store_buffer := p\<rparr>" for p
    using assms(1) by (cases "aesd_device s") simp
  ultimately show ?thesis
    using assms(2)
    by (simp add: write_end_def unlock_dev_def store_failed_def with_store_def set_dev_def do_kfree_def)
qed

lemma kept_bytes_nonempty: "newline \<in> set bs \<Longrightarrow> pend @ kept_bytes pend bs \<noteq> []"
  by (auto simp: kept_bytes_def upto_last_newline_Nil)

text \<open>The part of the handler behind the allocation of its own block.\<close>

definition write_stored :: "kernel \<Rightarrow> task \<Rightarrow> addr \<Rightarrow> u64 \<Rightarrow> kstate \<Rightarrow> (int \<times> kstate) option" where
  "write_stored K t buffer count s = do {
     bytes \<leftarrow> heap_read (mem s) buffer 0 (unat count);
     (buffer_new_line, temp) \<leftarrow> scan_newline bytes;
     (ok, s) \<leftarrow> store_bytes K buffer count buffer_new_line temp s;
     if \<not> ok then write_end t buffer (- ENOMEM) s
     else do {
       s \<leftarrow> (if temp then commit_store s else Some s);
       write_end t buffer (sint count) s
     }
   }"

definition write_done :: "kstate \<Rightarrow> byte list \<Rightarrow> kstate \<Rightarrow> bool" where
  "write_done s bs s' \<longleftrightarrow> dev_inv s' \<and> abs_dev s' = spec_write bs (abs_dev s)
     \<and> lock (aesd_device s') = None
     \<and> (newline \<in> set bs \<and> full (circular_buffer (aesd_device s)) \<longrightarrow>
          buffptr (hd (stored s)) \<notin> owned s' \<and> mem s' (buffptr (hd (stored s))) \<noteq> None)"

lemma stored_cong:
  "circular_buffer (aesd_device s') = circular_buffer (aesd_device s) \<Longrightarrow> stored s' = stored s"
  by (simp add: stored_def)

text \<open>The commit and the exit, on a state in which the fragment is stored.\<close>

definition committed :: "bool \<Rightarrow> byte list list \<times> byte list \<Rightarrow> byte list list \<times> byte list" where
  "committed nl a =
     (if nl then (last_n AESDCHAR_MAX_WRITE_OPERATIONS_SUPPORTED (fst a @ [snd a]), []) else a)"

lemma hd_stored: "full (circular_buffer (aesd_device s)) \<Longrightarrow> hd (stored s) \<in> set (stored s)"
  by (intro hd_in_set) (auto simp: stored_def buf_count_def dest: arg_cong[of _ _ length])

lemma commit_exit:
  assumes inv: "dev_inv s" and spare: "spare s buffer bs" and lock: "lock (aesd_device s) = Some t"
    and some: "nl \<Longrightarrow> pending s \<noteq> []"
  shows "\<exists>s'. do { s2 \<leftarrow> (if nl then commit_store s else Some s); write_end t buffer r s2 } = Some (r, s')
     \<and> dev_inv s' \<and> abs_dev s' = committed nl (abs_dev s) \<and> lock (aesd_device s') = None
     \<and> (nl \<and> full (circular_buffer (aesd_device s)) \<longrightarrow>
          buffptr (hd (stored s)) \<notin> owned s' \<and> mem s' (buffptr (hd (stored s))) \<noteq> None)"
proof (cases nl)
  case False
  then show ?thesis
    using write_end_spare[OF inv spare lock, of r] by (auto simp: committed_def)
next
  case True
  from commit_store_outcome[OF inv some[OF True]] obtain s2 where s2: "commit_store s = Some s2"
    "dev_inv s2" "commands s2 = last_n 10 (commands s @ [pending s])" "pending s2 = []"
    "mem s2 = mem s" "lock (aesd_device s2) = lock (aesd_device s)" "owned s2 \<subseteq> owned s"
    and old: "full (circular_buffer (aesd_device s)) \<Longrightarrow> buffptr (hd (stored s)) \<notin> owned s2"
    by auto
  have spare2: "spare s2 buffer bs"
    using spare s2(5,7) by (auto simp: spare_def)
  have lock2: "lock (aesd_device s2) = Some t" using s2(6) lock by simp
  from write_end_spare[OF s2(2) spare2 lock2, of r] obtain s' where s':
    "write_end t buffer r s2 = Some (r, s')" "dev_inv s'" "abs_dev s' = abs_dev s2"
    "owned s' = owned s2" "lock (aesd_device s') = None" "mem s' = (mem s2)(buffer := None)"
    by auto
  have "mem s' (buffptr (hd (stored s))) \<noteq> None" if "full (circular_buffer (aesd_device s))"
    using spare s'(6) s2(5) hd_stored[OF that] dev_inv_entry(1)[OF inv hd_stored[OF that]]
    by (auto simp: spare_def owned_def)
  then show ?thesis
    using True s2 s' old by (auto simp: committed_def abs_dev_def)
qed

lemma write_committed:
  assumes grown: "store_grown s buffer bs s1" and lock: "lock (aesd_device s) = Some t"
    and inv: "dev_inv s"
  shows "\<exists>s'. do { s2 \<leftarrow> (if newline \<in> set bs then commit_store s1 else Some s1);
                 write_end t buffer r s2 } = Some (r, s') \<and> write_done s bs s'"
proof -
  have g: "dev_inv s1" "spare s1 buffer bs" "lock (aesd_device s1) = Some t"
    "abs_dev s1 = (commands s, pending s @ kept_bytes (pending s) bs)"
    and cb: "circular_buffer (aesd_device s1) = circular_buffer (aesd_device s)"
    using grown lock by (simp_all add: store_grown_def abs_dev_def)
  have "newline \<in> set bs \<Longrightarrow> pending s1 \<noteq> []"
    using g(4) kept_bytes_nonempty[of bs "pending s"] by (simp add: abs_dev_def)
  with commit_exit[OF g(1-3), of "newline \<in> set bs" r] g(4) show ?thesis
    using cb stored_cong[OF cb]
    by (auto simp: write_done_def committed_def spec_write_def abs_dev_def Let_def)
qed

lemma write_stored_outcome:
  assumes K: "kernel_ok K" and inv: "dev_inv s" and spare: "spare s buffer bs"
    and lock: "lock (aesd_device s) = Some t"
    and len: "length bs = unat count" "length bs < 2 ^ 31" "bs \<noteq> []"
    and fits: "length (pending s) + length bs < 2 ^ 64"
  shows "if store_fails K s bs
    then write_stored K t buffer count s = write_end t buffer (- ENOMEM) (store_failed s)
    else \<exists>s'. write_stored K t buffer count s = Some (int (length bs), s') \<and> write_done s bs s'"
proof -
  have rd: "heap_read (mem s) buffer 0 (unat count) = Some bs"
    using spareD(3)[OF spare] len(1) by (simp add: heap_read_all)
  have ret: "sint count = int (length bs)"
    using len(1,2) by (simp add: sint_unat_64)
  have out: "if store_fails K s bs
     then store_bytes K buffer count (of_nat (length (upto_last_newline bs))) (newline \<in> set bs) s
            = Some (False, store_failed s)
     else \<exists>s1. store_bytes K buffer count (of_nat (length (upto_last_newline bs))) (newline \<in> set bs) s
            = Some (True, s1) \<and> store_grown s buffer bs s1"
    using store_first[OF K inv spare len(1,3)] store_later[OF K inv spare len(1,2)] fits length_pending[OF inv]
    by (cases "buffer_length (aesd_device s) = 0") simp_all
  show ?thesis
  proof (cases "store_fails K s bs")
    case True
    then show ?thesis using out by (simp add: write_stored_def rd scan_newline_upto[OF len(2)])
  next
    case False
    with out obtain s1 where s1: "store_bytes K buffer count (of_nat (length (upto_last_newline bs)))
        (newline \<in> set bs) s = Some (True, s1)" "store_grown s buffer bs s1"
      by auto
    have "write_stored K t buffer count s =
        do { s2 \<leftarrow> (if newline \<in> set bs then commit_store s1 else Some s1);
             write_end t buffer (int (length bs)) s2 }"
      using s1(1) rd len(2) by (simp add: write_stored_def scan_newline_upto[OF len(2)] ret cong: if_cong)
    then show ?thesis
      using False write_committed[OF s1(2) lock inv] by simp
  qed
qed

lemma write_end_unchanged:
  assumes "lock (aesd_device s) = None" "buffer \<noteq> NULL" "mem s buffer = None"
  shows "write_end t buffer r (set_dev (\<lambda>d. d\<lparr>lock := Some t\<rparr>)
           (s\<lparr>mem := (mem s)(buffer \<mapsto> bs)\<rparr>)) = Some (r, s)"
proof -
  have "(mem s)(buffer := None) = mem s" using assms(3) by auto
  moreover have "(aesd_device s)\<lparr>lock := None\<rparr> = aesd_device s"
    using assms(1) by (cases "aesd_device s") simp
  ultimately show ?thesis
    using assms(2) by (simp add: write_end_def unlock_dev_def set_dev_def do_kfree_def)
qed

lemma write_end_null:
  "lock (aesd_device s) = None \<Longrightarrow>
     write_end t NULL r (set_dev (\<lambda>d. d\<lparr>lock := Some t\<rparr>) s) = Some (r, s)"
  by (cases "aesd_device s") (simp add: write_end_def unlock_dev_def set_dev_def do_kfree_def)

lemma set_dev_mem [simp]: "(set_dev f s)\<lparr>mem := h\<rparr> = set_dev f (s\<lparr>mem := h\<rparr>)"
  by (simp add: set_dev_def)

lemma aesd_write_fresh:
  assumes "can_enter K filp s" and "do_kmalloc K (mem s) (unat count) = (p, (mem s)(p \<mapsto> junk))"
    and "p \<noteq> NULL" "length junk = unat count"
    and "unat count \<le> length ubuf" "copy_from_user K \<le> unat count"
  shows "aesd_write K t filp ubuf count s =
    (let s1 = set_dev (\<lambda>d. d\<lparr>lock := Some t\<rparr>) (s\<lparr>mem := (mem s)(p \<mapsto>
                take (unat count - copy_from_user K) ubuf @ replicate (copy_from_user K) 0)\<rparr>) in
     if copy_from_user K \<noteq> 0 then write_end t p (- EFAULT) s1 else write_stored K t p count s1)"
  using assms can_enter_file[OF assms(1)] can_enter_lock[OF assms(1), of t]
  by (auto simp: aesd_write_def Let_def heap_write_all write_stored_def)

text \<open>One of the allocations that a write of \<open>bs\<close> needs fails.\<close>

definition alloc_fails :: "kernel \<Rightarrow> kstate \<Rightarrow> byte list \<Rightarrow> bool" where
  "alloc_fails K s bs =
     (case kmalloc K (mem s) (length bs) of
        None \<Rightarrow> True
      | Some (p, junk) \<Rightarrow> store_fails K (s\<lparr>mem := (mem s)(p \<mapsto> bs)\<rparr>) bs)"

lemma aesd_write_outcome:
  assumes K: "kernel_ok K" and inv: "dev_inv s" and enter: "can_enter K filp s"
    and user: "unat count \<le> length ubuf" "copy_from_user K \<le> unat count"
    and small: "unat count < 2 ^ 31" "0 < unat count"
    and fits: "length (pending s) + unat count < 2 ^ 64"
  shows "\<exists>r s'. aesd_write K t filp ubuf count s = Some (r, s') \<and>
     (copy_from_user K = 0 \<and> \<not> alloc_fails K s (take (unat count) ubuf) \<and> r = int (unat count)
        \<and> write_done s (take (unat count) ubuf) s'
    \<or> copy_from_user K \<noteq> 0 \<and> r = - EFAULT \<and> s' = s
    \<or> r = - ENOMEM \<and> s' = s \<and> kmalloc K (mem s) (unat count) = None
    \<or> r = - ENOMEM \<and> s' = store_failed s \<and> copy_from_user K = 0
        \<and> alloc_fails K s (take (unat count) ubuf))"
proof -
  have free: "lock (aesd_device s) = None" using enter by (simp add: can_enter_def)
  from K small(2) show ?thesis
  proof (cases rule: do_kmalloc_cases[of K "unat count" "mem s"])
    case fail
    then have "aesd_write K t filp ubuf count s = Some (- ENOMEM, s)"
      using can_enter_file[OF enter] can_enter_lock[OF enter, of t] free
      by (auto simp: aesd_write_def Let_def write_end_null)
    then show ?thesis using fail by simp
  next
    case (ok p junk)
    note run = aesd_write_fresh[OF enter ok(1,2,4) user, of t]
    let ?bs = "take (unat count) ubuf"
    let ?s1 = "set_dev (\<lambda>d. d\<lparr>lock := Some t\<rparr>) (s\<lparr>mem := (mem s)(p \<mapsto> ?bs)\<rparr>)"
    note upd = spare_upd[OF inv ok(2) fresh_not_owned[OF inv ok(3)], of "Some ?bs"]
    have len: "length ?bs = unat count" "length ?bs < 2 ^ 31" "?bs \<noteq> []" using user small by auto
    show ?thesis
    proof (cases "copy_from_user K = 0")
      case False
      then show ?thesis
        using run write_end_unchanged[OF free ok(2,3)] by (simp add: Let_def)
    next
      case True
      have "spare ?s1 p ?bs" "lock (aesd_device ?s1) = Some t" "dev_inv ?s1"
          "length (pending ?s1) + length ?bs < 2 ^ 64"
        using upd ok(2) fresh_not_owned[OF inv ok(3)] len fits by (simp_all add: spare_def)
      note out = write_stored_outcome[OF K this(3,1,2) len this(4)]
      have "write_done s ?bs s'" if "write_done ?s1 ?bs s'" for s'
        using that upd by (simp add: write_done_def abs_dev_def stored_def)
      moreover have "store_fails K ?s1 ?bs = alloc_fails K s ?bs"
        using ok(5) len by (simp add: alloc_fails_def store_fails_def)
      ultimately show ?thesis
        using out run True len write_end_failed[OF free ok(2,3), of t "- ENOMEM" ?bs]
        by (auto simp: Let_def split: if_splits)
    qed
  qed
qed

end
