(* ===== verification/Byte_Source.thy ===== *)
theory Byte_Source
  imports Prelude
begin

section \<open>The interface of a file that is read from front to back\<close>

text \<open>
  What a program that reads a file in chunks relies on: every read of a positive number of bytes
  delivers the next bytes, at most as many as asked for, and none only at the end. The client is
  the usual loop that reads until a read delivers nothing.
\<close>

text \<open>Reads with a chunk size \<open>n\<close> until the end; \<open>fuel\<close> bounds the number of reads.\<close>

fun read_all :: "('s \<Rightarrow> u64 \<Rightarrow> (byte list \<times> 's) option) \<Rightarrow> u64 \<Rightarrow> nat \<Rightarrow> 's \<Rightarrow> byte list option" where
  "read_all read n 0 s = None"
| "read_all read n (Suc fuel) s = do {
     (bs, s) \<leftarrow> read s n;
     if bs = [] then Some []
     else do { rest \<leftarrow> read_all read n fuel s; Some (bs @ rest) }
   }"

subsection \<open>Reading through a buffered stream\<close>

text \<open>
  The C library's buffered input: the bytes read ahead and the file. An empty buffer is refilled
  by one read of \<open>STREAM_BUF\<close> bytes, which delivers nothing at the end of the file.
\<close>

abbreviation (input) STREAM_BUF :: u64 where "STREAM_BUF \<equiv> 4096"

definition fgetc :: "('s \<Rightarrow> u64 \<Rightarrow> (byte list \<times> 's) option) \<Rightarrow> byte list \<times> 's \<Rightarrow>
    (byte option \<times> (byte list \<times> 's)) option" where
  "fgetc read f = (case f of
       (b # ahead, s) \<Rightarrow> Some (Some b, (ahead, s))
     | ([], s) \<Rightarrow> do {
         (bs, s) \<leftarrow> read s STREAM_BUF;
         case bs of [] \<Rightarrow> Some (None, ([], s)) | b # ahead \<Rightarrow> Some (Some b, (ahead, s))
       })"

fun fgets_chars :: "('s \<Rightarrow> u64 \<Rightarrow> (byte list \<times> 's) option) \<Rightarrow> nat \<Rightarrow> byte list \<times> 's \<Rightarrow>
    (byte list \<times> (byte list \<times> 's)) option" where
  "fgets_chars read 0 f = Some ([], f)"
| "fgets_chars read (Suc n) f = do {
     (c, f) \<leftarrow> fgetc read f;
     case c of
       None \<Rightarrow> Some ([], f)
     | Some b \<Rightarrow>
         if b = newline then Some ([b], f)
         else do { (bs, f) \<leftarrow> fgets_chars read n f; Some (b # bs, f) }
   }"

text \<open>\<open>fgets(buf, n, f)\<close>: \<open>None\<close> is the \<open>NULL\<close> it returns at the end of the file.\<close>

definition fgets :: "('s \<Rightarrow> u64 \<Rightarrow> (byte list \<times> 's) option) \<Rightarrow> nat \<Rightarrow> byte list \<times> 's \<Rightarrow>
    (byte list option \<times> (byte list \<times> 's)) option" where
  "fgets read n f = do {
     (bs, f) \<leftarrow> fgets_chars read (n - 1) f;
     Some (if bs = [] then None else Some bs, f)
   }"

text \<open>What a call of \<open>fgets\<close> takes from the bytes that are left: up to the first line feed.\<close>

fun line_piece :: "nat \<Rightarrow> byte list \<Rightarrow> byte list" where
  "line_piece 0 bs = []"
| "line_piece (Suc n) [] = []"
| "line_piece (Suc n) (b # bs) = (if b = newline then [b] else b # line_piece n bs)"

lemma line_piece_prefix: "line_piece n bs = take (length (line_piece n bs)) bs"
  by (induction n bs rule: line_piece.induct) auto

lemma line_piece_Nil: "line_piece n bs = [] \<longleftrightarrow> n = 0 \<or> bs = []"
  by (cases n; cases bs) auto

lemma length_line_piece: "length (line_piece n bs) \<le> n"
  by (induction n bs rule: line_piece.induct) auto

lemma set_line_piece: "set (line_piece n bs) \<subseteq> set bs"
  by (metis line_piece_prefix set_take_subset)

subsection \<open>The interface\<close>

locale byte_source =
  fixes read :: "'s \<Rightarrow> u64 \<Rightarrow> (byte list \<times> 's) option"
    and left :: "'s \<Rightarrow> byte list"
    and ready :: "'s \<Rightarrow> bool"
  assumes read_next: "ready s \<Longrightarrow> n \<noteq> 0 \<Longrightarrow>
      \<exists>bs s'. read s n = Some (bs, s') \<and> ready s' \<and> left s = bs @ left s'
        \<and> length bs \<le> unat n \<and> (bs = [] \<longrightarrow> left s = [])"
begin

text \<open>The loop returns, after at most one more read than there are bytes, with all of them.\<close>

lemma read_all_left:
  assumes "ready s" "n \<noteq> 0" "length (left s) < fuel"
  shows "read_all read n fuel s = Some (left s)"
  using assms(1,3)
proof (induction fuel arbitrary: s)
  case 0
  then show ?case by simp
next
  case (Suc fuel)
  from read_next[OF Suc.prems(1) assms(2)] obtain bs s' where
    r: "read s n = Some (bs, s')" "ready s'" "left s = bs @ left s'" "bs = [] \<Longrightarrow> left s = []"
    by blast
  show ?case
  proof (cases "bs = []")
    case True
    then show ?thesis using r by simp
  next
    case False
    then have "length (left s') < fuel"
      using r(3) Suc.prems(2) by (cases bs) auto
    then show ?thesis using r Suc.IH[OF r(2)] False by simp
  qed
qed

text \<open>More fuel changes nothing.\<close>

lemma read_all_fuel:
  "ready s \<Longrightarrow> n \<noteq> 0 \<Longrightarrow> length (left s) < fuel \<Longrightarrow> length (left s) < fuel' \<Longrightarrow>
     read_all read n fuel s = read_all read n fuel' s"
  by (simp add: read_all_left)

text \<open>The bytes a stream has still to deliver.\<close>

definition rest :: "byte list \<times> 's \<Rightarrow> byte list" where
  "rest f = fst f @ left (snd f)"

lemma fgetc_rest:
  assumes "ready (snd f)"
  shows "\<exists>f'. ready (snd f') \<and> fgetc read f =
    (case rest f of [] \<Rightarrow> Some (None, f') | b # _ \<Rightarrow> Some (Some b, f')) \<and> rest f' = tl (rest f)"
proof -
  obtain ahead s where f: "f = (ahead, s)" by (cases f)
  show ?thesis
  proof (cases ahead)
    case (Cons b ahead')
    then show ?thesis
      using assms f by (intro exI[of _ "(ahead', s)"]) (simp add: rest_def fgetc_def)
  next
    case Nil
    from read_next[of s STREAM_BUF] assms f obtain bs s' where
      r: "read s STREAM_BUF = Some (bs, s')" "ready s'" "left s = bs @ left s'" "bs = [] \<Longrightarrow> left s = []"
      by auto
    show ?thesis
    proof (cases bs)
      case Nil
      then show ?thesis
        using r f \<open>ahead = []\<close> by (intro exI[of _ "([], s')"]) (simp add: rest_def fgetc_def)
    next
      case (Cons b bs')
      then show ?thesis
        using r f \<open>ahead = []\<close> by (intro exI[of _ "(bs', s')"]) (simp add: rest_def fgetc_def)
    qed
  qed
qed

lemma fgets_chars_piece:
  assumes "ready (snd f)"
  shows "\<exists>f'. ready (snd f') \<and> fgets_chars read n f = Some (line_piece n (rest f), f')
    \<and> rest f' = drop (length (line_piece n (rest f))) (rest f)"
  using assms
proof (induction n arbitrary: f)
  case 0
  then show ?case by (intro exI[of _ f]) simp
next
  case (Suc n)
  from fgetc_rest[OF Suc.prems] obtain f1 where f1: "ready (snd f1)" "rest f1 = tl (rest f)"
    "fgetc read f = (case rest f of [] \<Rightarrow> Some (None, f1) | b # _ \<Rightarrow> Some (Some b, f1))"
    by blast
  show ?case
  proof (cases "rest f")
    case Nil
    then show ?thesis using f1 by (intro exI[of _ f1]) simp
  next
    case (Cons b bs)
    show ?thesis
    proof (cases "b = newline")
      case True
      then show ?thesis using f1 Cons by (intro exI[of _ f1]) simp
    next
      case False
      then show ?thesis using f1 Cons Suc.IH[OF f1(1)] by auto
    qed
  qed
qed

lemma fgets_piece:
  assumes "ready (snd f)" "1 < n"
  shows "\<exists>f'. ready (snd f') \<and> rest f' = drop (length (line_piece (n - 1) (rest f))) (rest f)
    \<and> fgets read n f =
        Some (if rest f = [] then None else Some (line_piece (n - 1) (rest f)), f')"
  using fgets_chars_piece[OF assms(1), of "n - 1"] assms(2)
  by (auto simp: fgets_def line_piece_Nil)

end

end
