(* ===== verification/Driver_Behaviour.thy ===== *)
theory Driver_Behaviour
  imports Driver_Refinement Byte_Source
begin

section \<open>Seeking, reading through, failures and the life of the module\<close>

text \<open>
  The handlers that move the position, the sequential read of the whole device, what is left
  after a failed reallocation, the states the device can reach, and the module's start and exit.
\<close>

subsection \<open>Seeking by command\<close>

lemma ioctl_seek:
  assumes "kernel_ok K" "dev_inv s" "copy_from_user K = 0"
    and "length (concat (commands s)) < 2 ^ 64"
  shows "aesd_unlocked_ioctl K filp (AESDCHAR_IOCSEEKTO K) arg s =
    Some (0, filp\<lparr>f_pos := of_nat (seek_pos (map length (commands s))
                    (unat (write_cmd arg)) (unat (write_cmd_offset arg)))\<rparr>)"
proof -
  have "IOC_TYPE K (AESDCHAR_IOCSEEKTO K) = AESD_IOC_MAGIC" "IOC_NR K (AESDCHAR_IOCSEEKTO K) = 1"
    using assms(1) by (simp_all add: kernel_ok_def AESDCHAR_IOCSEEKTO_def)
  moreover have "sum_list (map (\<lambda>e. unat (size_e e)) (entries (circular_buffer (aesd_device s)))) < 2 ^ 64"
    using assms(4) by (simp add: sum_sizes_commands[OF assms(2)] flip: sizes_def)
  note cb.pos_seek[OF dev_invD(1)[OF assms(2)] this]
  ultimately show ?thesis
    using assms(3) by (simp add: aesd_unlocked_ioctl_def map_length_commands[OF assms(2)] flip: sizes_def)
qed

subsection \<open>Reading through the device\<close>

text \<open>\<open>read\<close> on an open file passes the file's own position.\<close>

definition driver_read ::
  "kernel \<times> task \<times> open_file \<times> kstate \<Rightarrow> u64 \<Rightarrow>
     (byte list \<times> (kernel \<times> task \<times> open_file \<times> kstate)) option" where
  "driver_read = (\<lambda>(K, t, filp, s) n. do {
     (r, bytes, pos, s') \<leftarrow> aesd_read K t filp n (f_pos filp) s;
     if r < 0 then None else Some (bytes, K, t, filp\<lparr>f_pos := pos\<rparr>, s')
   })"

text \<open>Reading changes the file's position only: the kernel state stays \<open>s0\<close>.\<close>

definition driver_ready :: "kstate \<Rightarrow> kernel \<times> task \<times> open_file \<times> kstate \<Rightarrow> bool" where
  "driver_ready s0 = (\<lambda>(K, t, filp, s). s = s0 \<and> dev_inv s \<and> can_enter K filp s \<and> copy_to_user K = 0
     \<and> length (concat (commands s)) < 2 ^ 63)"

definition driver_left :: "kernel \<times> task \<times> open_file \<times> kstate \<Rightarrow> byte list" where
  "driver_left = (\<lambda>(K, t, filp, s). drop (unat (f_pos filp)) (concat (commands s)))"

lemma can_enter_f_pos [simp]: "can_enter K (filp\<lparr>f_pos := p\<rparr>) s = can_enter K filp s"
  by (simp add: can_enter_def)

lemma driver_read_next:
  assumes "dev_inv s" "can_enter K filp s" "copy_to_user K = 0"
    and fits: "length (concat (commands s)) < 2 ^ 63" and "n \<noteq> 0"
  shows "\<exists>bs pos. driver_read (K, t, filp, s) n = Some (bs, K, t, filp\<lparr>f_pos := pos\<rparr>, s)
    \<and> drop (unat (f_pos filp)) (concat (commands s)) = bs @ drop (unat pos) (concat (commands s))
    \<and> length bs \<le> unat n
    \<and> (bs = [] \<longrightarrow> drop (unat (f_pos filp)) (concat (commands s)) = [])"
proof (cases "locate (map length (commands s)) (unat (f_pos filp))")
  case None
  then have "length (concat (commands s)) \<le> unat (f_pos filp)"
    by (simp add: locate_None_iff length_concat)
  then show ?thesis
    using read_past_end[OF assms(1,2)] fits
    by (intro exI[of _ "[]"] exI[of _ "f_pos filp"]) (simp add: driver_read_def)
next
  case (Some kr)
  obtain k r where kr: "kr = (k, r)" by (cases kr)
  let ?bs = "take (unat n) (drop r (commands s ! k))"
  have k: "k < length (commands s)" "r < length (commands s ! k)"
    and pos: "unat (f_pos filp) = length (concat (take k (commands s))) + r"
    using Some kr by (auto simp: locate_Some_iff length_concat_take)
  have all: "length (concat (take k (commands s))) + length (commands s ! k) \<le> length (concat (commands s))"
    using sum_list_take_nth_le[of k "map length (commands s)"] k(1)
    by (simp add: length_concat_take) (simp add: length_concat)
  then have len: "length ?bs < 2 ^ 63" "unat (f_pos filp) + length ?bs < 2 ^ 63"
    using fits k(2) pos by (auto simp: min_def)
  then have pos': "unat (f_pos filp + of_nat (length ?bs)) = unat (f_pos filp) + length ?bs"
    by (subst unat_add_64) (simp_all add: unat_of_nat_64)
  have "driver_read (K, t, filp, s) n =
      Some (?bs, K, t, filp\<lparr>f_pos := f_pos filp + of_nat (length ?bs)\<rparr>, s)"
    using read_in_command[OF assms(1-3) _ k pos, of t n] fits len(1) sint_small_64[OF len(1)]
    by (simp add: driver_read_def Let_def)
  moreover have "drop (unat (f_pos filp)) (concat (commands s))
      = ?bs @ drop (unat (f_pos filp + of_nat (length ?bs))) (concat (commands s))"
  proof -
    have "take (length ?bs) (drop (unat (f_pos filp)) (concat (commands s))) = ?bs"
      using k by (simp add: pos concat_drop_piece min_def)
    then show ?thesis
      unfolding pos' by (metis add.commute append_take_drop_id drop_drop)
  qed
  moreover have "?bs \<noteq> []"
    using k(2) \<open>n \<noteq> 0\<close> by (simp add: unat_eq_0)
  ultimately show ?thesis by fastforce
qed

interpretation driver_file: byte_source driver_read driver_left "driver_ready s0" for s0
proof
  fix x :: "kernel \<times> task \<times> open_file \<times> kstate" and n :: u64
  obtain K t filp s where x: "x = (K, t, filp, s)" by (cases x)
  assume r: "driver_ready s0 x" "n \<noteq> 0"
  then have "dev_inv s" "can_enter K filp s" "copy_to_user K = 0"
      "length (concat (commands s)) < 2 ^ 63"
    by (auto simp: driver_ready_def x)
  from driver_read_next[OF this r(2), of t]
  obtain bs pos where
      "driver_read (K, t, filp, s) n = Some (bs, K, t, filp\<lparr>f_pos := pos\<rparr>, s)"
      "drop (unat (f_pos filp)) (concat (commands s)) = bs @ drop (unat pos) (concat (commands s))"
      "length bs \<le> unat n" "bs = [] \<longrightarrow> drop (unat (f_pos filp)) (concat (commands s)) = []"
    by blast
  with r(1) show "\<exists>bs s'. driver_read x n = Some (bs, s') \<and> driver_ready s0 s' \<and> driver_left x = bs @ driver_left s'
        \<and> length bs \<le> unat n \<and> (bs = [] \<longrightarrow> driver_left x = [])"
    by (intro exI[of _ bs] exI[of _ "(K, t, filp\<lparr>f_pos := pos\<rparr>, s)"])
      (auto simp: x driver_ready_def driver_left_def)
qed

subsection \<open>After a failed reallocation\<close>

text \<open>
  The store's pointer is \<open>NULL\<close> but its length is still recorded: the fragment is lost, and the
  next write prepends that many indeterminate bytes. Everything else is intact.
\<close>

definition empty_store :: "kstate \<Rightarrow> kstate" where
  "empty_store = set_dev (\<lambda>d. d\<lparr>buffer_length := 0\<rparr>)"

definition dev_lost :: "kstate \<Rightarrow> bool" where
  "dev_lost s \<longleftrightarrow> buffer_length (aesd_device s) \<noteq> 0 \<and> store_buffer (aesd_device s) = NULL
     \<and> dev_inv (empty_store s)"

definition dev_safe :: "kstate \<Rightarrow> bool" where
  "dev_safe s \<longleftrightarrow> dev_inv s \<or> dev_lost s"

lemma empty_store_sel [simp]:
  "mem (empty_store s) = mem s" "lock (aesd_device (empty_store s)) = lock (aesd_device s)"
  "circular_buffer (aesd_device (empty_store s)) = circular_buffer (aesd_device s)"
  "stored (empty_store s) = stored s" "commands (empty_store s) = commands s"
  "buffer_length (aesd_device (empty_store s)) = 0" "owned (empty_store s) \<subseteq> owned s"
  "with_store p n h (empty_store s) = with_store p n h s"
  by (auto simp: empty_store_def set_dev_def stored_def commands_def owned_def with_store_def)

lemma dev_inv_empty_store: "dev_inv s \<Longrightarrow> dev_inv (empty_store s)"
  by (simp add: dev_inv_def)

lemma store_failed_safe:
  assumes "dev_inv s"
  shows "dev_safe (store_failed s)" "commands (store_failed s) = commands s"
proof -
  have "dev_inv (empty_store (store_failed s))"
    using dev_inv_empty_store[OF assms]
    by (simp add: store_failed_def dev_inv_def)
  moreover have "dev_inv (store_failed s)" if "buffer_length (aesd_device s) = 0"
    using that assms by (simp add: store_failed_def dev_inv_def)
  ultimately show "dev_safe (store_failed s)"
    by (auto simp: dev_safe_def dev_lost_def store_failed_def)
  show "commands (store_failed s) = commands s"
    by (simp add: store_failed_def commands_def)
qed

lemma store_failed_lost: "dev_inv s \<Longrightarrow> pending s \<noteq> [] \<Longrightarrow> dev_lost (store_failed s)"
  using store_failed_safe(1)[of s] pending_Nil_iff[of s]
  by (auto simp: dev_safe_def dev_inv_def store_failed_def)

text \<open>The reallocation of the \<open>NULL\<close> store that the next write of \<open>bs\<close> asks for: a fresh block for
  the recorded length and the bytes that are kept.\<close>

definition regrow :: "kernel \<Rightarrow> kstate \<Rightarrow> byte list \<Rightarrow> (addr \<times> byte list) option" where
  "regrow K s bs = krealloc K (mem s) NULL
     (unat (buffer_length (aesd_device s)) + length (kept_bytes [0] bs))"

text \<open>The contents of that block up to the recorded length.\<close>

definition fresh_junk :: "kstate \<Rightarrow> addr \<times> byte list \<Rightarrow> byte list" where
  "fresh_junk s r = take (unat (buffer_length (aesd_device s))) (snd r)"

lemma store_lost:
  assumes K: "kernel_ok K" and lost: "dev_lost s" and spare: "spare (empty_store s) buffer bs"
    and len: "length bs = unat count" "length bs < 2 ^ 31"
    and fits: "unat (buffer_length (aesd_device s)) + length bs < 2 ^ 64"
  shows "case regrow K s bs of
       None \<Rightarrow> store_bytes K buffer count (of_nat (length (upto_last_newline bs))) (newline \<in> set bs) s
           = Some (False, s)
     | Some r \<Rightarrow> \<exists>s'. store_bytes K buffer count (of_nat (length (upto_last_newline bs))) (newline \<in> set bs) s
           = Some (True, s') \<and> dev_inv s' \<and> spare s' buffer bs \<and> commands s' = commands s
          \<and> lock (aesd_device s') = lock (aesd_device s)
          \<and> length (fresh_junk s r) = unat (buffer_length (aesd_device s))
          \<and> pending s' = fresh_junk s r @ kept_bytes (fresh_junk s r) bs"
proof -
  have l: "buffer_length (aesd_device s) \<noteq> 0" "store_buffer (aesd_device s) = NULL"
      "dev_inv (empty_store s)"
    using lost by (simp_all add: dev_lost_def)
  note NULL = dev_invD(2)[OF l(3), simplified]
  let ?kept = "kept_bytes [0] bs"
  let ?n = "buffer_length (aesd_device s) + of_nat (length ?kept)"
  have usize: "unat (of_nat (length ?kept) :: u64) = length ?kept"
    using length_kept_bytes[of "[0]" bs] len(2) by (simp add: unat_of_nat_64)
  have un: "unat ?n = unat (buffer_length (aesd_device s)) + length ?kept"
    using fits usize length_kept_bytes[of "[0]" bs] by (simp add: unat_add_64)
  have rd: "heap_read h buffer 0 (length ?kept) = Some ?kept" if "h buffer = Some bs" for h
    using that length_kept_bytes[of "[0]" bs] by (simp add: heap_read_def take_kept_bytes)
  have grow: "regrow K s bs = krealloc K (mem s) NULL (unat ?n)"
    by (simp add: regrow_def un)
  show ?thesis
  proof (cases "krealloc K (mem s) NULL (unat ?n)")
    case None
    have "s\<lparr>aesd_device := aesd_device s\<lparr>store_buffer := 0\<rparr>\<rparr> = s"
      using l(2) by (cases s, cases "aesd_device s") simp
    then show ?thesis
      using None l grow
      by (simp add: store_bytes_def kept_size[OF len, of "[0]"] do_krealloc_def set_dev_def Let_def)
  next
    case (Some r)
    then obtain q new where r: "krealloc K (mem s) NULL (unat ?n) = Some (q, new)" by (cases r) simp
    have k: "q \<noteq> NULL" "mem s q = None" "length new = unat ?n"
      using kernel_ok_krealloc[OF K r] NULL un l(1) by (auto simp: block_def unat_gt_0)
    let ?junk = "take (unat (buffer_length (aesd_device s))) new"
    let ?h = "(mem s)(q \<mapsto> ?junk @ ?kept)"
    have jl: "length ?junk = unat (buffer_length (aesd_device s))" using k(3) un by simp
    then have jne: "?junk \<noteq> []" using l(1) by (metis length_0_conv unat_eq_0)
    have q: "q \<noteq> buffer" "q \<notin> buffptr ` set (stored s)"
      using k(2) spareD(3)[OF spare] fresh_not_owned[OF l(3), of q] by (auto simp: owned_def)
    have [simp]: "(mem s)(0 := None) = mem s" using NULL by auto
    have "store_bytes K buffer count (of_nat (length (upto_last_newline bs))) (newline \<in> set bs) s
           = Some (True, with_store q ?n ?h s)"
      using l r k q(1) NULL un spareD(3)[OF spare] jl rd usize
      by (simp add: store_bytes_def kept_size[OF len, of "[0]"] do_krealloc_def block_def
          heap_write_def with_store_def set_dev_def Let_def)
    moreover
    have same: "?h x = mem (empty_store s) x" if "x \<in> buffptr ` set (stored (empty_store s))" for x
      using that q(2) by auto
    have "?h NULL = None" "q \<notin> buffptr ` set (stored (empty_store s))"
         "?h q = Some (?junk @ ?kept)" "length (?junk @ ?kept) = unat ?n"
      using NULL k(1) q(2) jl un by simp_all
    note w = with_store_inv[OF l(3) this(2,1) same this(3,4), simplified empty_store_sel]
    have "buffer \<notin> owned (with_store q ?n ?h s)"
      using w(4) q(1) spareD(2)[OF spare] by (auto simp: owned_def)
    moreover have "?h buffer = Some bs" using q(1) spareD(3)[OF spare] by simp
    moreover have "kept_bytes ?junk bs = ?kept" using jne by (simp add: kept_bytes_def)
    ultimately show ?thesis
      using w(1-3) jl spareD(1)[OF spare] grow r
      by (auto simp: spare_def fresh_junk_def)
  qed
qed

definition write_prepended :: "byte list \<Rightarrow> kstate \<Rightarrow> byte list \<Rightarrow> kstate \<Rightarrow> bool" where
  "write_prepended junk s bs s' \<longleftrightarrow> dev_inv s' \<and> lock (aesd_device s') = None
     \<and> abs_dev s' = committed (newline \<in> set bs) (commands s, junk @ kept_bytes junk bs)"

lemma write_stored_lost:
  assumes K: "kernel_ok K" and lost: "dev_lost s" and spare: "spare (empty_store s) buffer bs"
    and lock: "lock (aesd_device s) = Some t"
    and len: "length bs = unat count" "length bs < 2 ^ 31"
    and fits: "unat (buffer_length (aesd_device s)) + length bs < 2 ^ 64"
  shows "case regrow K s bs of
      None \<Rightarrow> write_stored K t buffer count s = write_end t buffer (- ENOMEM) s
    | Some r \<Rightarrow> \<exists>s'. write_stored K t buffer count s = Some (int (length bs), s')
        \<and> write_prepended (fresh_junk s r) s bs s'"
proof -
  have rd: "heap_read (mem s) buffer 0 (unat count) = Some bs"
    using spareD(3)[OF spare] len(1) by (simp add: heap_read_all)
  have ret: "sint count = int (length bs)"
    using len by (simp add: sint_unat_64)
  note out = store_lost[OF K lost spare len fits]
  show ?thesis
  proof (cases "regrow K s bs")
    case None
    then show ?thesis
      using out by (simp add: write_stored_def rd scan_newline_upto[OF len(2)])
  next
    case (Some r)
    let ?junk = "fresh_junk s r"
    from out Some obtain s1
      where s1: "store_bytes K buffer count (of_nat (length (upto_last_newline bs))) (newline \<in> set bs) s
        = Some (True, s1)" "dev_inv s1" "spare s1 buffer bs" "commands s1 = commands s"
        "lock (aesd_device s1) = lock (aesd_device s)"
      and junk: "length ?junk = unat (buffer_length (aesd_device s))"
        "pending s1 = ?junk @ kept_bytes ?junk bs"
      by auto
    have "write_stored K t buffer count s =
        do { s2 \<leftarrow> (if newline \<in> set bs then commit_store s1 else Some s1);
             write_end t buffer (int (length bs)) s2 }"
      using s1(1) rd len(2) by (simp add: write_stored_def scan_newline_upto[OF len(2)] ret cong: if_cong)
    moreover have "newline \<in> set bs \<Longrightarrow> pending s1 \<noteq> []"
      using junk(2) kept_bytes_nonempty[of bs ?junk] by simp
    with commit_exit[OF s1(2,3), of t "newline \<in> set bs" "int (length bs)"] s1(4,5) lock junk
    have "\<exists>s'. do { s2 \<leftarrow> (if newline \<in> set bs then commit_store s1 else Some s1);
             write_end t buffer (int (length bs)) s2 } = Some (int (length bs), s')
        \<and> write_prepended ?junk s bs s'"
      by (auto simp: write_prepended_def abs_dev_def)
    ultimately show ?thesis using Some by simp
  qed
qed

lemma empty_store_upd:
  "empty_store (set_dev (\<lambda>d. d\<lparr>lock := l\<rparr>) (s\<lparr>mem := h\<rparr>))
     = set_dev (\<lambda>d. d\<lparr>lock := l\<rparr>) ((empty_store s)\<lparr>mem := h\<rparr>)"
  by (simp add: empty_store_def set_dev_def)

text \<open>The same request at the point of \<open>aesd_write\<close> where it is made: the write's own buffer is
  allocated and filled.\<close>

definition lost_block :: "kernel \<Rightarrow> kstate \<Rightarrow> byte list \<Rightarrow> (addr \<times> byte list) option" where
  "lost_block K s bs = do {
     (p, _) \<leftarrow> kmalloc K (mem s) (length bs);
     regrow K (s\<lparr>mem := (mem s)(p \<mapsto> bs)\<rparr>) bs
   }"

lemma aesd_write_lost:
  assumes K: "kernel_ok K" and lost: "dev_lost s" and enter: "can_enter K filp s"
    and user: "unat count \<le> length ubuf" "copy_from_user K \<le> unat count"
    and small: "unat count < 2 ^ 31" "0 < unat count"
    and fits: "unat (buffer_length (aesd_device s)) + unat count < 2 ^ 64"
  shows "\<exists>r s'. aesd_write K t filp ubuf count s = Some (r, s') \<and>
     (if copy_from_user K = 0 \<and> lost_block K s (take (unat count) ubuf) \<noteq> None
      then r = int (unat count)
        \<and> write_prepended (fresh_junk s (the (lost_block K s (take (unat count) ubuf)))) s
             (take (unat count) ubuf) s'
      else (r = - EFAULT \<or> r = - ENOMEM) \<and> s' = s)"
proof -
  have free: "lock (aesd_device s) = None" using enter by (simp add: can_enter_def)
  have inv: "dev_inv (empty_store s)" using lost by (simp add: dev_lost_def)
  from K small(2) show ?thesis
  proof (cases rule: do_kmalloc_cases[of K "unat count" "mem s"])
    case fail
    then have "aesd_write K t filp ubuf count s = Some (- ENOMEM, s)"
      using can_enter_file[OF enter] can_enter_lock[OF enter, of t] free
      by (auto simp: aesd_write_def Let_def write_end_null)
    then show ?thesis using fail user(1) by (simp add: lost_block_def)
  next
    case (ok p junk)
    note run = aesd_write_fresh[OF enter ok(1,2,4) user, of t]
    let ?bs = "take (unat count) ubuf"
    let ?s1 = "set_dev (\<lambda>d. d\<lparr>lock := Some t\<rparr>) (s\<lparr>mem := (mem s)(p \<mapsto> ?bs)\<rparr>)"
    have p: "p \<notin> owned (empty_store s)" using fresh_not_owned[OF inv, of p] ok(3) by simp
    note upd = spare_upd[OF inv ok(2) p, of "Some ?bs"]
    have len: "length ?bs = unat count" "length ?bs < 2 ^ 31" using user small by simp_all
    show ?thesis
    proof (cases "copy_from_user K = 0")
      case False
      then show ?thesis
        using run write_end_unchanged[OF free ok(2,3)] by (simp add: Let_def)
    next
      case True
      have "dev_lost ?s1" "spare (empty_store ?s1) p ?bs"
        using lost upd p ok(2)
        unfolding dev_lost_def spare_def empty_store_upd by simp_all
      moreover have "lock (aesd_device ?s1) = Some t"
          "unat (buffer_length (aesd_device ?s1)) + length ?bs < 2 ^ 64"
        using len fits by simp_all
      moreover have "regrow K ?s1 ?bs = lost_block K s ?bs"
        using ok(5) len by (simp add: lost_block_def regrow_def)
      ultimately have out: "case lost_block K s ?bs of
          None \<Rightarrow> write_stored K t p count ?s1 = write_end t p (- ENOMEM) ?s1
        | Some r \<Rightarrow> \<exists>s'. write_stored K t p count ?s1 = Some (int (length ?bs), s')
            \<and> write_prepended (fresh_junk ?s1 r) ?s1 ?bs s'"
        using write_stored_lost[OF K _ _ _ len, of ?s1 p t] by simp
      have "commands (s\<lparr>mem := (mem s)(p \<mapsto> ?bs)\<rparr>) = commands s"
        using upd(2) by (simp add: commands_def stored_def)
      then have "write_prepended (fresh_junk s r) s ?bs s'"
        if "write_prepended (fresh_junk ?s1 r) ?s1 ?bs s'" for r s'
        using that by (simp add: write_prepended_def fresh_junk_def)
      with out show ?thesis
        using run True len write_end_unchanged[OF free ok(2,3), of t "- ENOMEM" ?bs]
        by (auto simp: Let_def split: option.splits)
    qed
  qed
qed

subsection \<open>What the handlers leave alone\<close>

lemma store_bytes_frame:
  assumes "store_bytes K buffer count nl temp s = Some (ok, s')"
  shows "lock (aesd_device s') = lock (aesd_device s)"
    and "circular_buffer (aesd_device s') = circular_buffer (aesd_device s)"
  using assms
  by (auto simp: store_bytes_def set_dev_def Let_def bind_eq_Some_conv split: if_splits prod.splits)

lemma commit_store_frame:
  assumes "commit_store s = Some s'" "cb_wf (circular_buffer (aesd_device s))"
  shows "lock (aesd_device s') = lock (aesd_device s)"
    and "\<exists>e. circular_buffer (aesd_device s') = cb_add (circular_buffer (aesd_device s)) e"
  using assms
  by (auto simp: commit_store_def set_dev_def Let_def bind_eq_Some_conv add_entry_cb_add split: if_splits)

lemma write_end_frame:
  assumes "write_end t buffer r s = Some (r', s')"
  shows "lock (aesd_device s) = Some t" "lock (aesd_device s') = None"
    and "circular_buffer (aesd_device s') = circular_buffer (aesd_device s)"
  using assms by (auto simp: write_end_def unlock_dev_def set_dev_def bind_eq_Some_conv split: if_splits)

lemma lock_dev_frame:
  assumes "lock_dev K t s = Some (r, s')"
  shows "circular_buffer (aesd_device s') = circular_buffer (aesd_device s)" "mem s' = mem s"
    and "mutex_lock_interruptible K \<noteq> 0 \<Longrightarrow> s' = s"
    and "mutex_lock_interruptible K = 0 \<Longrightarrow> lock (aesd_device s) = None"
  using assms by (auto simp: lock_dev_def set_dev_def split: if_splits)

text \<open>A write that returns held the mutex; it changes the buffer by at most one insertion.\<close>

lemma aesd_write_frame:
  assumes run: "aesd_write K t filp ubuf count s = Some (r, s')"
    and wf: "cb_wf (circular_buffer (aesd_device s))"
  shows "private_data filp \<noteq> None" "lock (aesd_device s') = None"
    and "mutex_lock_interruptible K = 0 \<and> lock (aesd_device s) = None \<or> lock (aesd_device s) = Some t"
    and "circular_buffer (aesd_device s') = circular_buffer (aesd_device s)
      \<or> (\<exists>e. circular_buffer (aesd_device s') = cb_add (circular_buffer (aesd_device s)) e)"
proof -
  from run obtain q where q: "private_data filp = Some q"
    by (auto simp: aesd_write_def bind_eq_Some_conv)
  from run obtain r1 s1 where s1: "lock_dev K t s = Some (r1, s1)"
    by (auto simp: aesd_write_def bind_eq_Some_conv)
  have "\<exists>buffer r2 s2. write_end t buffer r2 s2 = Some (r, s') \<and>
      lock (aesd_device s2) = lock (aesd_device s1) \<and>
      (circular_buffer (aesd_device s2) = circular_buffer (aesd_device s1) \<or>
       (\<exists>e. circular_buffer (aesd_device s2) = cb_add (circular_buffer (aesd_device s1)) e))"
  proof -
    obtain buffer h where b: "do_kmalloc K (mem s1) (unat count) = (buffer, h)" by (cases "do_kmalloc K (mem s1) (unat count)")
    let ?s1 = "s1\<lparr>mem := h\<rparr>"
    show ?thesis
    proof (cases "buffer = NULL")
      case True
      then show ?thesis
        using run s1 b q by (intro exI[of _ buffer] exI[of _ "- ENOMEM"] exI[of _ ?s1]) (simp add: aesd_write_def)
    next
      case False
      then obtain h' where h': "heap_write h buffer 0 (take (unat count - copy_from_user K) ubuf
          @ replicate (copy_from_user K) 0) = Some h'"
        using run s1 b q by (auto simp: aesd_write_def bind_eq_Some_conv Let_def)
      let ?s2 = "s1\<lparr>mem := h'\<rparr>"
      have run2: "(if copy_from_user K \<noteq> 0 then write_end t buffer (- EFAULT) ?s2
          else write_stored K t buffer count ?s2) = Some (r, s')"
        using run s1 b q h' False by (simp add: aesd_write_def write_stored_def Let_def split: if_splits)
      show ?thesis
      proof (cases "copy_from_user K = 0")
        case False
        then show ?thesis
          using run2 by (intro exI[of _ buffer] exI[of _ "- EFAULT"] exI[of _ ?s2]) simp
      next
        case True
        with run2 obtain nl temp ok s3 where s3: "store_bytes K buffer count nl temp ?s2 = Some (ok, s3)"
            "(if \<not> ok then write_end t buffer (- ENOMEM) s3
              else do { s \<leftarrow> (if temp then commit_store s3 else Some s3);
                        write_end t buffer (sint count) s }) = Some (r, s')"
          by (auto simp: write_stored_def bind_eq_Some_conv)
        note f = store_bytes_frame[OF s3(1)]
        have wf3: "cb_wf (circular_buffer (aesd_device s3))"
          using wf f(2) lock_dev_frame(1)[OF s1] by simp
        show ?thesis
          using s3(2) f commit_store_frame[OF _ wf3]
          by (fastforce split: if_splits simp: bind_eq_Some_conv)
      qed
    qed
  qed
  then obtain buffer r2 s2 where e: "write_end t buffer r2 s2 = Some (r, s')"
      "lock (aesd_device s2) = lock (aesd_device s1)"
      "circular_buffer (aesd_device s2) = circular_buffer (aesd_device s1) \<or>
       (\<exists>e. circular_buffer (aesd_device s2) = cb_add (circular_buffer (aesd_device s1)) e)"
    by blast
  show "private_data filp \<noteq> None" using q by simp
  show "lock (aesd_device s') = None" using write_end_frame(2)[OF e(1)] .
  show "mutex_lock_interruptible K = 0 \<and> lock (aesd_device s) = None \<or> lock (aesd_device s) = Some t"
    using write_end_frame(1)[OF e(1)] e(2) lock_dev_frame(3,4)[OF s1] by auto
  show "circular_buffer (aesd_device s') = circular_buffer (aesd_device s)
      \<or> (\<exists>e. circular_buffer (aesd_device s') = cb_add (circular_buffer (aesd_device s)) e)"
    using write_end_frame(3)[OF e(1)] e(3) lock_dev_frame(1)[OF s1] by simp
qed

subsection \<open>Reads and seeks in every safe state\<close>

lemma aesd_read_total:
  assumes safe: "dev_safe s" and enter: "can_enter K filp s"
    and fits: "length (concat (commands s)) < 2 ^ 64"
  shows "\<exists>r bytes pos'. aesd_read K t filp count pos s = Some (r, bytes, pos', s)"
proof -
  let ?cb = "circular_buffer (aesd_device s)"
  have inv: "dev_inv (empty_store s)"
    using safe dev_inv_empty_store by (auto simp: dev_safe_def dev_lost_def)
  note wf = dev_invD(1)[OF inv, simplified]
  have sizes: "sum_list (map (\<lambda>e. unat (size_e e)) (entries ?cb)) < 2 ^ 64"
    using fits sum_sizes_commands[OF inv] by (simp flip: sizes_def)
  show ?thesis
  proof (cases "locate (sizes ?cb) (unat pos)")
    case None
    then have "aesd_circular_buffer_find_entry_offset_for_fpos ?cb pos = Some None"
      using cb.find_locate[OF wf sizes, of pos] by (simp flip: sizes_def)
    then show ?thesis
      using can_enter_file[OF enter] enter
      by (auto simp: aesd_read_def can_enter_lock unlock_held can_enter_def)
  next
    case (Some kr)
    obtain k r where kr: "kr = (k, r)" by (cases kr)
    have k: "k < buf_count ?cb" "r < unat (size_e (stored s ! k))"
      using Some kr by (auto simp: locate_Some_iff stored_def)
    have find: "aesd_circular_buffer_find_entry_offset_for_fpos ?cb pos = Some (Some (slot ?cb k, of_nat r))"
      using cb.find_locate[OF wf sizes, of pos] Some kr by (simp flip: sizes_def)
    have get: "array_get (entry ?cb) (slot ?cb k) = Some (stored s ! k)"
      using entry_at_slot[OF wf k(1)] by (simp add: stored_def)
    have e: "stored s ! k \<in> set (stored s)" using k(1) by (simp add: stored_def)
    note blk = dev_inv_entry[OF inv, simplified, OF e]
    have r64: "unat (of_nat r :: u64) = r"
      using k(2) unat_lt_64[of "size_e (stored s ! k)"] by (simp add: unat_of_nat_64)
    have left: "unat (size_e (stored s ! k) - of_nat r) = unat (size_e (stored s ! k)) - r"
      using k(2) r64 by (subst unat_sub_64) (simp_all add: word_le_nat_alt)
    let ?n = "if count < size_e (stored s ! k) - of_nat r then count else size_e (stored s ! k) - of_nat r"
    have "r + unat ?n \<le> unat (size_e (stored s ! k))"
      using k(2) left by (auto simp: word_less_nat_alt)
    then have "\<exists>bs. heap_read (mem s) (buffptr (stored s ! k)) r (unat ?n) = Some bs"
      using blk by (simp add: heap_read_def)
    then show ?thesis
      using can_enter_file[OF enter] enter find get
      by (auto simp: aesd_read_def can_enter_lock unlock_held can_enter_def r64 Let_def)
  qed
qed

text \<open>A read or a seek that returns changes at most the mutex. A read leaves it free; a seek takes
  a free mutex along only when its mode is neither \<open>SEEK_SET\<close> nor \<open>SEEK_CUR\<close>, and leaves a held
  one alone.\<close>

abbreviation (input) set_lock :: "task option \<Rightarrow> kstate \<Rightarrow> kstate" where
  "set_lock l \<equiv> set_dev (\<lambda>d. d\<lparr>lock := l\<rparr>)"

lemma set_lock_again: "set_lock l (set_lock l' s) = set_lock l s"
  by (simp add: set_dev_def)

lemma set_lock_same: "lock (aesd_device s) = l \<Longrightarrow> set_lock l s = s"
  by (auto simp: set_dev_def)

lemma aesd_read_frame:
  assumes "aesd_read K t filp count pos s = Some (r, bytes, pos', s')"
  shows "s' = set_lock None s"
    and "mutex_lock_interruptible K = 0 \<and> lock (aesd_device s) = None \<or> lock (aesd_device s) = Some t"
  using assms
  by (auto simp: aesd_read_def lock_dev_def unlock_dev_def Let_def bind_eq_Some_conv set_lock_again
      split: if_splits option.splits)

lemma aesd_llseek_frame:
  assumes "aesd_llseek K t filp off whence s = Some (r, filp', s')"
  shows "s' = s \<or> lock (aesd_device s) = None \<and> whence \<notin> {0, 1} \<and> r = - EINVAL \<and> filp' = filp
      \<and> s' = set_lock (Some t) s"
  using assms
  by (auto simp: aesd_llseek_def lock_dev_def unlock_dev_def Let_def bind_eq_Some_conv set_lock_again
      split: if_splits option.splits)

lemma handlers_blocked:
  assumes "lock (aesd_device s) \<noteq> None" "mutex_lock_interruptible K = 0"
  shows "aesd_read K t filp count pos s = None" "aesd_write K t filp ubuf count s = None"
    "aesd_llseek K t filp off whence s = None"
  using assms by (auto simp: aesd_read_def aesd_write_def aesd_llseek_def lock_dev_def bind_eq_None_conv)

text \<open>An interrupted write by the task that holds the mutex goes on as if it had just locked it.\<close>

lemma interrupted_kernel:
  "do_kmalloc (K\<lparr>mutex_lock_interruptible := i\<rparr>) = do_kmalloc K"
  "do_krealloc (K\<lparr>mutex_lock_interruptible := i\<rparr>) = do_krealloc K"
  "store_bytes (K\<lparr>mutex_lock_interruptible := i\<rparr>) = store_bytes K"
  "kernel_ok (K\<lparr>mutex_lock_interruptible := i\<rparr>) = kernel_ok K"
proof -
  show malloc: "do_kmalloc (K\<lparr>mutex_lock_interruptible := i\<rparr>) = do_kmalloc K"
    by (simp add: fun_eq_iff do_kmalloc_def)
  show realloc: "do_krealloc (K\<lparr>mutex_lock_interruptible := i\<rparr>) = do_krealloc K"
    by (simp add: fun_eq_iff do_krealloc_def cong: if_cong)
  show "store_bytes (K\<lparr>mutex_lock_interruptible := i\<rparr>) = store_bytes K"
    by (simp add: fun_eq_iff store_bytes_def malloc realloc cong: if_cong)
  show "kernel_ok (K\<lparr>mutex_lock_interruptible := i\<rparr>) = kernel_ok K"
    by (simp add: kernel_ok_def)
qed

lemma aesd_write_interrupted:
  assumes "mutex_lock_interruptible K \<noteq> 0" "lock (aesd_device s) = Some t"
  shows "aesd_write K t filp ubuf count s
    = aesd_write (K\<lparr>mutex_lock_interruptible := 0\<rparr>) t filp ubuf count (set_lock None s)"
proof -
  have "lock_dev K t s = Some (mutex_lock_interruptible K, s)"
    using assms(1) by (simp add: lock_dev_def)
  moreover have "lock_dev (K\<lparr>mutex_lock_interruptible := 0\<rparr>) t (set_lock None s) = Some (0, s)"
    using assms(2) by (simp add: lock_dev_def set_lock_again set_lock_same)
  ultimately show ?thesis
    by (simp add: aesd_write_def interrupted_kernel cong: if_cong)
qed

subsection \<open>Module start and exit\<close>

lemma init_module_state:
  assumes "aesd_init_module R s0 = (r, s)" "0 \<le> alloc_chrdev_region R"
  shows "aesd_device s = zero_dev" "mem s = mem s0"
    and "cdev_live s = (cdev_live s0 \<or> r = 0)" "region s = (r = 0)"
  using assms by (auto simp: aesd_init_module_def aesd_setup_cdev_def Let_def split: if_splits)

lemma zero_dev_inv:
  assumes "aesd_device s = zero_dev" "mem s NULL = None"
  shows "dev_inv s" "commands s = []" "pending s = []"
  using assms by (simp_all add: dev_inv_def commands_def pending_def stored_def zero_dev_def)

text \<open>What the release loop has done before slot \<open>i\<close>, started in \<open>s0\<close>.\<close>

definition slot_pointers :: "kstate \<Rightarrow> addr list" where
  "slot_pointers s = map buffptr (entry (circular_buffer (aesd_device s)))"

definition freed_upto :: "kstate \<Rightarrow> nat \<Rightarrow> kstate \<Rightarrow> bool" where
  "freed_upto s0 i s \<longleftrightarrow> slot_pointers s = slot_pointers s0
     \<and> mem s = (\<lambda>p. if p \<in> set (take i (slot_pointers s0)) \<and> p \<noteq> NULL then None else mem s0 p)
     \<and> cdev_live s = cdev_live s0"

lemma free_slot_step:
  assumes s0: "dev_inv (empty_store s0)" "unused_null (circular_buffer (aesd_device s0))"
    and i: "i < 10" and inv: "freed_upto s0 i s"
  shows "\<exists>s'. free_slot i s = Some s' \<and> freed_upto s0 (Suc i) s'"
proof -
  let ?old = "circular_buffer (aesd_device s0)"
  let ?b = "circular_buffer (aesd_device s)"
  note wf = dev_invD(1)[OF s0(1), simplified]
  have len0: "length (slot_pointers s0) = 10" using cb_wfD(1)[OF wf] by (simp add: slot_pointers_def)
  have same: "slot_pointers s = slot_pointers s0" using inv by (simp add: freed_upto_def)
  then have len: "length (entry ?b) = 10" using len0 by (metis length_map slot_pointers_def)
  have p: "buffptr (entry ?b ! i) = buffptr (entry ?old ! i)"
    using arg_cong[OF same, of "\<lambda>xs. xs ! i"] i len len0 by (simp add: slot_pointers_def)
  have p0: "slot_pointers s0 ! i = buffptr (entry ?old ! i)"
    using i cb_wfD(1)[OF wf] by (simp add: slot_pointers_def)
  have upto: "take (Suc i) (slot_pointers s0) = take i (slot_pointers s0) @ [buffptr (entry ?old ! i)]"
    using i len0 p0 by (simp add: take_Suc_conv_app_nth)
  show ?thesis
  proof (cases "buffptr (entry ?old ! i) = NULL")
    case True
    then show ?thesis
      using inv i len p upto by (auto simp: free_slot_def freed_upto_def)
  next
    case False
    let ?p = "buffptr (entry ?old ! i)"
    have "?p \<notin> set (take i (slot_pointers s0))"
    proof
      assume "?p \<in> set (take i (slot_pointers s0))"
      then obtain j where j: "j < i" "buffptr (entry ?old ! j) = ?p"
        using i cb_wfD(1)[OF wf] by (auto simp: in_set_conv_nth slot_pointers_def)
      have "distinct (map buffptr (entries ?old))"
        using dev_invD(3)[OF s0(1)] by (simp add: stored_def)
      then show False
        using slot_pointers_distinct[OF wf s0(2) _ i, of j] i j False by auto
    qed
    moreover have "mem s0 ?p \<noteq> None"
      using slot_pointer_stored[OF wf s0(2) i False] dev_inv_entry(1)[OF s0(1), simplified]
      by (metis length_entries nth_mem option.distinct(1) stored_def)
    ultimately obtain bs where bs: "mem s ?p = Some bs"
      using inv by (auto simp: freed_upto_def)
    let ?es = "(entry ?b)[i := (entry ?b ! i)\<lparr>size_e := 0\<rparr>]"
    let ?s' = "set_dev (\<lambda>d. d\<lparr>circular_buffer := ?b\<lparr>entry := ?es\<rparr>\<rparr>) (s\<lparr>mem := (mem s)(?p := None)\<rparr>)"
    have "free_slot i s = Some ?s'"
      using i len p False bs by (simp add: free_slot_def do_kfree_def Let_def)
    moreover have "slot_pointers ?s' = slot_pointers s"
      using i len by (simp add: slot_pointers_def map_update list_update_same_conv)
    moreover have "cdev_live ?s' = cdev_live s" by simp
    ultimately show ?thesis
      using inv False upto by (auto simp: freed_upto_def fun_eq_iff)
  qed
qed

lemma slot_pointers_stored:
  assumes "cb_wf (circular_buffer (aesd_device s))" "unused_null (circular_buffer (aesd_device s))"
  shows "p \<in> set (slot_pointers s) \<and> p \<noteq> NULL \<longleftrightarrow> p \<in> buffptr ` set (stored s) \<and> p \<noteq> NULL"
proof -
  let ?b = "circular_buffer (aesd_device s)"
  have "p \<in> buffptr ` set (stored s)" if p: "p \<in> set (slot_pointers s)" "p \<noteq> NULL"
  proof -
    obtain i where i: "i < length (slot_pointers s)" "p = slot_pointers s ! i"
      using p(1) by (auto simp: in_set_conv_nth)
    then have i: "i < 10" "p = buffptr (entry ?b ! i)"
      using cb_wfD(1)[OF assms(1)] by (simp_all add: slot_pointers_def)
    then obtain k where "k < buf_count ?b" "entries ?b ! k = entry ?b ! i"
      using slot_pointer_stored[OF assms i(1)] p(2) i(2) by auto
    then show ?thesis using i(2) by (metis imageI length_entries nth_mem stored_def)
  qed
  moreover have "set (stored s) \<subseteq> set (entry ?b)"
    using slot_in_array[OF assms(1)] unfolding stored_def entries_def by (auto intro!: nth_mem)
  then have "buffptr ` set (stored s) \<subseteq> set (slot_pointers s)"
    by (simp add: slot_pointers_def image_mono)
  ultimately show ?thesis by blast
qed

lemma cleanup_module_frees:
  assumes "dev_safe s" "unused_null (circular_buffer (aesd_device s))"
  shows "\<exists>s'. aesd_cleanup_module s = Some s' \<and> \<not> region s' \<and> \<not> cdev_live s'
    \<and> mem s' = (\<lambda>p. if p \<in> buffptr ` set (stored s) then None else mem s p)"
proof -
  let ?start = "s\<lparr>cdev_live := False\<rparr>"
  have inv: "dev_inv (empty_store ?start)"
  proof -
    have "dev_inv (empty_store s)"
      using assms(1) dev_inv_empty_store by (auto simp: dev_safe_def dev_lost_def)
    then show ?thesis by (simp add: dev_inv_def empty_store_def set_dev_def stored_def)
  qed
  have un: "unused_null (circular_buffer (aesd_device ?start))" using assms(2) by simp
  have "freed_upto ?start 0 ?start" by (simp add: freed_upto_def)
  from FOREACH_invariant[of "freed_upto ?start" free_slot, OF free_slot_step[OF inv un] this]
  obtain s1 where s1: "AESD_CIRCULAR_BUFFER_FOREACH free_slot ?start = Some s1" "freed_upto ?start 10 s1"
    by blast
  note wf = dev_invD(1)[OF inv, simplified]
  have "length (slot_pointers ?start) = 10" using cb_wfD(1)[OF wf] by (simp add: slot_pointers_def)
  moreover have "stored ?start = stored s" by (simp add: stored_def)
  moreover have "NULL \<notin> buffptr ` set (stored s)"
    using dev_inv_entry(1)[OF inv] dev_invD(2)[OF inv] by (fastforce simp: stored_def)
  ultimately have "mem s1 = (\<lambda>p. if p \<in> buffptr ` set (stored s) then None else mem s p)"
    using s1(2) slot_pointers_stored[of ?start] wf un by (auto simp: freed_upto_def fun_eq_iff)
  then show ?thesis
    using s1 by (simp add: aesd_cleanup_module_def freed_upto_def)
qed

subsection \<open>The states a loaded module can reach\<close>

text \<open>
  One completed handler call, by any task and through any open file, whatever the kernel's
  services answer. Positions outside the device, failed copies, failed allocations, waits that a
  signal interrupts and seeks of any mode are included. A writer passes at least one byte and no
  more than \<open>INT_MAX\<close> (the kernel caps the count of a write there), and the fragment's length fits
  a \<open>size_t\<close>. A call that never returns makes no step.
\<close>

inductive dev_step :: "kstate \<Rightarrow> kstate \<Rightarrow> bool" where
  step_read: "aesd_read K t filp count pos s = Some (r, bytes, pos', s') \<Longrightarrow> dev_step s s'"
| step_write: "aesd_write K t filp ubuf count s = Some (r, s') \<Longrightarrow> kernel_ok K \<Longrightarrow>
     unat count \<le> length ubuf \<Longrightarrow> copy_from_user K \<le> unat count \<Longrightarrow> unat count < 2 ^ 31 \<Longrightarrow>
     0 < unat count \<Longrightarrow>
     unat (buffer_length (aesd_device s)) + unat count < 2 ^ 64 \<Longrightarrow> dev_step s s'"
| step_llseek: "aesd_llseek K t filp off whence s = Some (r, filp', s') \<Longrightarrow> dev_step s s'"
| step_ioctl: "aesd_unlocked_ioctl K filp cmd arg s = Some (r, filp') \<Longrightarrow> dev_step s s"

inductive dev_reachable :: "kstate \<Rightarrow> bool" where
  loaded: "aesd_init_module R s0 = (0, s) \<Longrightarrow> mem s0 NULL = None \<Longrightarrow> dev_reachable s"
| handled: "dev_reachable s \<Longrightarrow> dev_step s s' \<Longrightarrow> dev_reachable s'"

text \<open>What every one of these states satisfies, whoever holds the mutex.\<close>

definition dev_sound :: "kstate \<Rightarrow> bool" where
  "dev_sound s \<longleftrightarrow> dev_safe s \<and> unused_null (circular_buffer (aesd_device s))"

lemma set_lock_empty_store: "empty_store (set_lock l s) = set_lock l (empty_store s)"
  by (simp add: empty_store_def set_dev_def)

lemma dev_safe_set_lock [simp]: "dev_safe (set_lock l s) = dev_safe s"
  by (simp add: dev_safe_def dev_lost_def set_lock_empty_store)

lemma dev_sound_set_lock [simp]: "dev_sound (set_lock l s) = dev_sound s"
  by (simp add: dev_sound_def)

text \<open>Releasing the mutex, where the step took it or found it held.\<close>

lemma dev_step_lock:
  assumes "dev_step s s'" "cb_wf (circular_buffer (aesd_device s))"
  shows "lock (aesd_device s') = None \<or> lock (aesd_device s') = lock (aesd_device s)
    \<or> lock (aesd_device s) = None \<and> (\<exists>K t filp off whence. whence \<notin> {0, 1}
        \<and> aesd_llseek K t filp off whence s = Some (- EINVAL, filp, s') \<and> s' = set_lock (Some t) s)"
  using assms(1)
proof (cases rule: dev_step.cases)
  case (step_read K t filp count pos r bytes pos')
  then show ?thesis using aesd_read_frame(1)[OF step_read] by simp
next
  case (step_write K t filp ubuf count r)
  then show ?thesis using aesd_write_frame(2)[OF step_write(1) assms(2)] by simp
next
  case (step_llseek K t filp off whence r filp')
  then show ?thesis using aesd_llseek_frame[OF step_llseek] by metis
qed simp

lemma dev_safe_wf: "dev_safe s \<Longrightarrow> cb_wf (circular_buffer (aesd_device s))"
  by (auto simp: dev_safe_def dev_lost_def dev_inv_def)

lemma aesd_write_safe:
  assumes "dev_safe s" "can_enter K filp s" "kernel_ok K"
    and "unat count \<le> length ubuf" "copy_from_user K \<le> unat count" "unat count < 2 ^ 31"
    and "0 < unat count" and "unat (buffer_length (aesd_device s)) + unat count < 2 ^ 64"
  shows "\<exists>r s'. aesd_write K t filp ubuf count s = Some (r, s') \<and> dev_safe s'
    \<and> (r = int (unat count) \<or> r = - EFAULT \<or> r = - ENOMEM)"
  using assms(1) unfolding dev_safe_def
proof
  assume inv: "dev_inv s"
  have "length (pending s) + unat count < 2 ^ 64"
    using assms(8) length_pending[OF inv] by simp
  from aesd_write_outcome[OF assms(3) inv assms(2,4-7) this, of t]
  show "\<exists>r s'. aesd_write K t filp ubuf count s = Some (r, s') \<and> (dev_inv s' \<or> dev_lost s')
    \<and> (r = int (unat count) \<or> r = - EFAULT \<or> r = - ENOMEM)"
    using inv store_failed_safe(1)[OF inv] unfolding write_done_def dev_safe_def by auto
next
  assume lost: "dev_lost s"
  from aesd_write_lost[OF assms(3) lost assms(2,4-8), of t]
  show "\<exists>r s'. aesd_write K t filp ubuf count s = Some (r, s') \<and> (dev_inv s' \<or> dev_lost s')
    \<and> (r = int (unat count) \<or> r = - EFAULT \<or> r = - ENOMEM)"
    using lost unfolding write_prepended_def by (auto split: if_splits)
qed

lemma aesd_write_sound:
  assumes run: "aesd_write K t filp ubuf count s = Some (r, s')" and safe: "dev_safe s" and "kernel_ok K"
    and user: "unat count \<le> length ubuf" "copy_from_user K \<le> unat count" "unat count < 2 ^ 31"
      "0 < unat count" "unat (buffer_length (aesd_device s)) + unat count < 2 ^ 64"
  shows "dev_safe s'"
proof -
  note f = aesd_write_frame[OF run dev_safe_wf[OF safe]]
  show ?thesis
  proof (cases "mutex_lock_interruptible K = 0")
    case True
    have "lock (aesd_device s) = None"
      using handlers_blocked(2)[of s K t filp ubuf count] True run by fastforce
    then have "can_enter K filp s" using f(1) True by (simp add: can_enter_def)
    from aesd_write_safe[OF safe this assms(3) user, of t] run show ?thesis by auto
  next
    case False
    let ?K = "K\<lparr>mutex_lock_interruptible := 0\<rparr>" and ?s = "set_lock None s"
    have "can_enter ?K filp ?s" using f(1) by (simp add: can_enter_def)
    moreover have "aesd_write ?K t filp ubuf count ?s = Some (r, s')"
      using run f(3) aesd_write_interrupted[OF False] False by simp
    ultimately show ?thesis
      using aesd_write_safe[of ?s ?K filp count ubuf t] safe assms(3) user
      by (auto simp: interrupted_kernel)
  qed
qed

lemma dev_step_sound:
  assumes "dev_step s s'" and sound: "dev_sound s"
  shows "dev_sound s'"
  using assms(1)
proof (cases rule: dev_step.cases)
  case (step_read K t filp count pos r bytes pos')
  then show ?thesis using aesd_read_frame(1)[OF step_read] sound by simp
next
  case (step_write K t filp ubuf count r)
  have safe: "dev_safe s" using sound by (simp add: dev_sound_def)
  note wf = dev_safe_wf[OF safe]
  have "dev_safe s'" using aesd_write_sound[OF step_write(1) safe step_write(2-7)] .
  then show ?thesis
    using aesd_write_frame(4)[OF step_write(1) wf] sound unused_null_add[OF wf]
    by (auto simp: dev_sound_def)
next
  case (step_llseek K t filp off whence r filp')
  then show ?thesis using aesd_llseek_frame[OF step_llseek] sound by auto
qed (use sound in simp)

lemma dev_reachable_sound: "dev_reachable s \<Longrightarrow> dev_sound s"
proof (induction rule: dev_reachable.induct)
  case (loaded R s0 s)
  have "0 \<le> alloc_chrdev_region R"
    using loaded(1) by (auto simp: aesd_init_module_def Let_def split: if_splits)
  note s = init_module_state[OF loaded(1) this]
  then have "dev_inv s" using zero_dev_inv(1) loaded(2) by simp
  then show ?case using s by (simp add: dev_sound_def dev_safe_def zero_dev_def)
next
  case (handled s s')
  then show ?case using dev_step_sound by blast
qed

subsection \<open>A mutex that is not released\<close>

lemma handlers_interrupted:
  assumes "lock (aesd_device s) \<noteq> Some t" "mutex_lock_interruptible K \<noteq> 0"
    and "cb_wf (circular_buffer (aesd_device s))"
  shows "aesd_read K t filp count pos s = None" "aesd_write K t filp ubuf count s = None"
proof -
  show "aesd_read K t filp count pos s = None"
    using assms(1,2)
    by (cases "aesd_read K t filp count pos s")
      (auto simp: aesd_read_def lock_dev_def unlock_dev_def Let_def bind_eq_Some_conv
        split: if_splits option.splits)
  show "aesd_write K t filp ubuf count s = None"
    using aesd_write_frame(3)[OF _ assms(3), of K t filp ubuf count] assms(1,2)
    by (cases "aesd_write K t filp ubuf count s") auto
qed

end
