(* ===== verification/Driver_Properties.thy ===== *)
theory Driver_Properties
  imports Driver_Behaviour
begin

section \<open>Properties of the character driver\<close>

text \<open>
  What the handlers of \<^verbatim>\<open>src/aesd-char-driver/main.c\<close> do, stated for their callers. The proofs
  apply the refinement lemmas of \<open>Driver_Refinement\<close> and \<open>Driver_Behaviour\<close>; the witnesses use
  a concrete kernel with a small heap.
\<close>

subsection \<open>A concrete kernel\<close>

definition heap_slots :: "addr list" where
  "heap_slots = [0x1000, 0x2000, 0x3000, 0x4000]"

definition sample_kmalloc :: "heap \<Rightarrow> nat \<Rightarrow> (addr \<times> byte list) option" where
  "sample_kmalloc h n =
     (case filter (\<lambda>p. h p = None) heap_slots of [] \<Rightarrow> None | p # _ \<Rightarrow> Some (p, replicate n 0xAA))"

definition sample_kernel :: kernel where
  "sample_kernel =
     \<lparr>mutex_lock_interruptible = 0, kmalloc = sample_kmalloc,
      krealloc = (\<lambda>h p n. if p = NULL then None else Some (p, replicate (n - length (block h p)) 0xAA)),
      copy_from_user = 0, copy_to_user = 0,
      IOC_TYPE = (\<lambda>c. c div 256), IOC_NR = (\<lambda>c. c mod 256), IOWR = (\<lambda>ty nr sz. ty * 256 + nr)\<rparr>"

lemma sample_kmalloc_ok:
  assumes "sample_kmalloc h n = Some (p, bs)"
  shows "p \<noteq> NULL \<and> h p = None \<and> length bs = n"
proof -
  obtain ps where f: "filter (\<lambda>p. h p = None) heap_slots = p # ps" and bs: "bs = replicate n 0xAA"
    using assms by (auto simp: sample_kmalloc_def split: list.splits)
  have "p \<in> set (filter (\<lambda>p. h p = None) heap_slots)" unfolding f by simp
  then have "p \<in> set heap_slots" "h p = None" unfolding set_filter by simp_all
  then show ?thesis using bs by (auto simp: heap_slots_def)
qed

lemma sample_ioc:
  assumes "ty < 256" "nr < (256 :: u32)"
  shows "(ty * 256 + nr) div 256 = ty \<and> (ty * 256 + nr) mod 256 = nr"
proof -
  have t: "unat ty < 256" and n: "unat nr < 256" using assms by (simp_all add: word_less_nat_alt)
  have "unat (ty * 256) = unat ty * 256" using t by (subst unat_mult_lem[THEN iffD1]) auto
  then have u: "unat (ty * 256 + nr) = unat ty * 256 + unat nr"
    using t n by (subst unat_add_lem[THEN iffD1]) auto
  show ?thesis
    using t n by (simp add: word_unat_eq_iff unat_div unat_mod u)
qed

lemma sample_kernel_ok [simp]: "kernel_ok sample_kernel"
  using sample_kmalloc_ok sample_ioc by (simp add: kernel_ok_def sample_kernel_def)

lemma sample_kernel_sel [simp]:
  "mutex_lock_interruptible sample_kernel = 0" "copy_from_user sample_kernel = 0"
  "copy_to_user sample_kernel = 0"
  by (simp_all add: sample_kernel_def)

definition sample_file :: open_file where
  "sample_file = \<lparr>f_pos = 0, private_data = Some Aesd_device\<rparr>"

text \<open>A freshly loaded module.\<close>

definition fresh_state :: kstate where
  "fresh_state = \<lparr>mem = (\<lambda>_. None), aesd_device = zero_dev, cdev_live = True, region = True,
                  aesd_major = 250\<rparr>"

lemma fresh_state [simp]: "dev_inv fresh_state" "commands fresh_state = []" "pending fresh_state = []"
  using zero_dev_inv[of fresh_state] by (simp_all add: fresh_state_def)

lemma fresh_enter [simp]: "can_enter sample_kernel sample_file fresh_state"
  by (simp add: can_enter_def fresh_state_def zero_dev_def sample_file_def)

lemma fresh_reachable [simp]: "dev_reachable fresh_state"
  by (rule loaded[of "\<lparr>alloc_chrdev_region = 0, new_major = 250, cdev_add = 0\<rparr>"
        "fresh_state\<lparr>cdev_live := False, region := False\<rparr>"])
    (simp_all add: aesd_init_module_def aesd_setup_cdev_def fresh_state_def)

text \<open>The module with the commands \<open>one\<close> and \<open>two\<close> stored and a fragment pending.\<close>

definition busy_state :: kstate where
  "busy_state = fresh_state
     \<lparr>mem := [0x1000 \<mapsto> [0x6F, 0x6E, 0x65, 10], 0x2000 \<mapsto> [0x74, 0x77, 0x6F, 10], 0x3000 \<mapsto> [0x74, 0x68]],
      aesd_device := zero_dev\<lparr>store_buffer := 0x3000, buffer_length := 2,
        circular_buffer := cb_add (cb_add aesd_circular_buffer_init \<lparr>buffptr = 0x1000, size_e = 4\<rparr>)
                             \<lparr>buffptr = 0x2000, size_e = 4\<rparr>\<rparr>\<rparr>"

lemma busy_stored: "stored busy_state = [\<lparr>buffptr = 0x1000, size_e = 4\<rparr>, \<lparr>buffptr = 0x2000, size_e = 4\<rparr>]"
  by (simp add: stored_def busy_state_def entries_add)

lemma busy_state [simp]:
  "dev_inv busy_state" "commands busy_state = [[0x6F, 0x6E, 0x65, 10], [0x74, 0x77, 0x6F, 10]]"
  "pending busy_state = [0x74, 0x68]" "can_enter sample_kernel sample_file busy_state"
  "buffer_length (aesd_device busy_state) = 2"
proof -
  show "commands busy_state = [[0x6F, 0x6E, 0x65, 10], [0x74, 0x77, 0x6F, 10]]"
    unfolding commands_def busy_stored by (simp add: block_def busy_state_def)
  show "pending busy_state = [0x74, 0x68]" by (simp add: pending_def block_def busy_state_def)
  show "dev_inv busy_state"
    unfolding dev_inv_def busy_stored by (simp add: busy_state_def fresh_state_def)
  show "can_enter sample_kernel sample_file busy_state"
    by (simp add: can_enter_def busy_state_def fresh_state_def zero_dev_def sample_file_def)
qed (simp add: busy_state_def)

subsection \<open>Write\<close>

text \<open>Property C3: a write whose bytes can be copied from the user returns, releases the mutex, and
  either does on the list of commands and the pending fragment what \<open>spec_write\<close> says and returns
  the whole count, or, exactly when one of its two allocations fails, returns \<open>-ENOMEM\<close> with the
  stored commands unchanged.\<close>

theorem aesd_write_refines:
  assumes "kernel_ok K" "dev_inv s" "can_enter K filp s" "copy_from_user K = 0"
    and "unat count \<le> length ubuf" "unat count < 2 ^ 31" "0 < unat count"
    and "length (pending s) + unat count < 2 ^ 64"
  shows "\<exists>r s'. aesd_write K t filp ubuf count s = Some (r, s') \<and> lock (aesd_device s') = None
    \<and> (if alloc_fails K s (take (unat count) ubuf)
       then r = - ENOMEM \<and> dev_safe s' \<and> commands s' = commands s
       else r = int (unat count) \<and> dev_inv s'
          \<and> abs_dev s' = spec_write (take (unat count) ubuf) (abs_dev s))"
proof -
  have free: "lock (aesd_device s) = None" using assms(3) by (simp add: can_enter_def)
  have "alloc_fails K s (take (unat count) ubuf)" if "kmalloc K (mem s) (unat count) = None"
    using that assms(5) by (simp add: alloc_fails_def)
  then show ?thesis
    using aesd_write_outcome[OF assms(1-3,5) _ assms(6-8), of t] assms(2,4) free
      store_failed_safe[OF assms(2)]
    by (auto simp: write_done_def dev_safe_def store_failed_def)
qed

theorem aesd_write_refines_witness:
  "\<exists>s'. aesd_write sample_kernel 1 sample_file [0x69, 0x72, 0x64, 10, 0x78] 5 busy_state = Some (5, s')
    \<and> dev_inv s' \<and> abs_dev s' = ([[0x6F, 0x6E, 0x65, 10], [0x74, 0x77, 0x6F, 10],
                                   [0x74, 0x68, 0x69, 0x72, 0x64, 10]], [])"
proof -
  have spec: "spec_write [0x69, 0x72, 0x64, 10, 0x78] (abs_dev busy_state) =
      ([[0x6F, 0x6E, 0x65, 10], [0x74, 0x77, 0x6F, 10], [0x74, 0x68, 0x69, 0x72, 0x64, 10]], [])"
    by (simp add: spec_write_def abs_dev_def kept_bytes_def upto_last_newline_def)
  have "\<not> alloc_fails sample_kernel busy_state [0x69, 0x72, 0x64, 10, 0x78]"
    by (simp add: alloc_fails_def store_fails_def sample_kernel_def sample_kmalloc_def heap_slots_def
        busy_state_def pending_def block_def)
  then show ?thesis
    using aesd_write_refines[of sample_kernel busy_state sample_file 5 "[0x69, 0x72, 0x64, 10, 0x78]" 1] spec
    by auto
qed

text \<open>A write whose source cannot be read returns \<open>-EFAULT\<close> (or \<open>-ENOMEM\<close> before the
  copy) and leaves the device, its memory and its mutex exactly as they were.\<close>

theorem aesd_write_fault_unchanged:
  assumes "kernel_ok K" "dev_inv s" "can_enter K filp s"
    and "0 < copy_from_user K" "copy_from_user K \<le> unat count"
    and "unat count \<le> length ubuf" "unat count < 2 ^ 31" "length (pending s) + unat count < 2 ^ 64"
  shows "aesd_write K t filp ubuf count s =
    Some (if kmalloc K (mem s) (unat count) = None then - ENOMEM else - EFAULT, s)"
proof (cases "kmalloc K (mem s) (unat count)")
  case None
  have free: "lock (aesd_device s) = None" using assms(3) by (simp add: can_enter_def)
  show ?thesis
    using None can_enter_file[OF assms(3)] can_enter_lock[OF assms(3), of t]
    by (auto simp: aesd_write_def do_kmalloc_def Let_def write_end_null[OF free])
next
  case (Some a)
  then show ?thesis
    using aesd_write_outcome[OF assms(1-3,6,5,7) _ assms(8), of t] assms(4,5)
      aesd_write_fresh[OF assms(3) _ _ _ assms(6,5)] by auto
qed

theorem aesd_write_fault_unchanged_witness:
  "aesd_write (sample_kernel\<lparr>copy_from_user := 2\<rparr>) 1 sample_file [1, 2, 3] 3 busy_state = Some (- EFAULT, busy_state)"
proof -
  have "kernel_ok (sample_kernel\<lparr>copy_from_user := 2\<rparr>)"
    using sample_kernel_ok by (simp add: kernel_ok_def)
  moreover have "can_enter (sample_kernel\<lparr>copy_from_user := 2\<rparr>) sample_file busy_state"
    using busy_state(4) by (simp add: can_enter_def)
  moreover have "kmalloc (sample_kernel\<lparr>copy_from_user := 2\<rparr>) (mem busy_state) 3 \<noteq> None"
    by (simp add: sample_kernel_def sample_kmalloc_def heap_slots_def busy_state_def)
  ultimately show ?thesis
    using aesd_write_fault_unchanged[of "sample_kernel\<lparr>copy_from_user := 2\<rparr>" busy_state sample_file 3 "[1, 2, 3]" 1]
    by simp
qed

text \<open>Property C37: a write that completes a command while ten commands are stored drops the oldest
  one from the device but leaves its block allocated: nothing the device owns points to it any
  more (the insertion never hands the replaced pointer back, so the driver's \<open>kfree\<close> is dead code).\<close>

theorem aesd_write_leaks_oldest:
  assumes "kernel_ok K" "dev_inv s" "can_enter K filp s" "copy_from_user K = 0"
    and "unat count \<le> length ubuf" "unat count < 2 ^ 31" "length (pending s) + unat count < 2 ^ 64"
    and "full (circular_buffer (aesd_device s))" "newline \<in> set (take (unat count) ubuf)"
    and "aesd_write K t filp ubuf count s = Some (r, s')" "0 \<le> r"
  shows "mem s' (buffptr (hd (stored s))) \<noteq> None \<and> buffptr (hd (stored s)) \<notin> owned s'"
proof -
  have "0 < unat count" using assms(9) by (cases "unat count") auto
  then show ?thesis
    using aesd_write_outcome[OF assms(1-3,5) _ assms(6) _ assms(7), of t] assms(4,8-11)
    by (auto simp: write_done_def)
qed

text \<open>Ten one-byte commands.\<close>

definition full_state :: kstate where
  "full_state = fresh_state
     \<lparr>mem := (\<lambda>p. if p \<in> of_nat ` {1..10} then Some [10] else None),
      aesd_device := zero_dev\<lparr>circular_buffer :=
        foldl cb_add aesd_circular_buffer_init (map (\<lambda>i. \<lparr>buffptr = of_nat i, size_e = 1\<rparr>) [1..<11])\<rparr>\<rparr>"

lemma full_stored: "stored full_state = map (\<lambda>i. \<lparr>buffptr = of_nat i, size_e = 1\<rparr>) [1..<11]"
  by (simp add: stored_def full_state_def cb.items_history)

lemma full_state [simp]: "dev_inv full_state" "can_enter sample_kernel sample_file full_state"
  "full (circular_buffer (aesd_device full_state))" "pending full_state = []"
proof -
  have wf: "cb_wf (circular_buffer (aesd_device full_state))"
    by (simp add: full_state_def cb.inv_adds)
  have mem: "mem full_state (of_nat i) = Some [10]" if "i \<in> {1..10}" for i
    using that by (auto simp: full_state_def)
  have "mem full_state NULL = None"
    by (auto simp: full_state_def word_unat_eq_iff unat_of_nat_64)
  moreover have "\<forall>e \<in> set (stored full_state). mem full_state (buffptr e) = Some [10] \<and> size_e e = 1"
    using mem by (auto simp: full_stored)
  moreover have "distinct (map buffptr (stored full_state))"
    by (simp add: full_stored upt_rec)
  ultimately show "dev_inv full_state"
    using wf by (auto simp: dev_inv_def full_state_def zero_dev_def)
  show "can_enter sample_kernel sample_file full_state"
    by (simp add: can_enter_def full_state_def fresh_state_def zero_dev_def sample_file_def)
  have "buf_count (circular_buffer (aesd_device full_state)) = 10"
    using arg_cong[OF full_stored, of length] by (simp add: stored_def)
  then show "full (circular_buffer (aesd_device full_state))"
    using buf_count_not_full by fastforce
  show "pending full_state = []" by (simp add: pending_def full_state_def zero_dev_def)
qed

theorem aesd_write_leaks_oldest_witness:
  "\<exists>s'. aesd_write sample_kernel 1 sample_file [0x41, 10] 2 full_state = Some (2, s')
    \<and> mem s' 1 \<noteq> None \<and> 1 \<notin> owned s'"
proof -
  have m: "mem full_state 0x1000 = None" "mem full_state 0x2000 = None"
    by (auto simp: full_state_def word_unat_eq_iff unat_of_nat_64)
  have "\<not> alloc_fails sample_kernel full_state [0x41, 10]"
    using m by (simp add: alloc_fails_def store_fails_def sample_kernel_def sample_kmalloc_def heap_slots_def
        pending_def full_state_def zero_dev_def)
  moreover have "kmalloc sample_kernel (mem full_state) 2 \<noteq> None"
    using m by (simp add: sample_kernel_def sample_kmalloc_def heap_slots_def)
  ultimately obtain s' where run: "aesd_write sample_kernel 1 sample_file [0x41, 10] 2 full_state = Some (2, s')"
    using aesd_write_outcome[of sample_kernel full_state sample_file 2 "[0x41, 10]" 1] by auto
  have "buffptr (hd (stored full_state)) = 1" by (simp add: full_stored upt_rec)
  then show ?thesis
    using aesd_write_leaks_oldest[OF _ _ _ _ _ _ _ _ _ run] run by simp
qed

text \<open>Property C36: when the reallocation for a later fragment fails, the write returns \<open>-ENOMEM\<close>, the
  pending fragment stays allocated but nothing the device owns points to it, and its length is
  still recorded: the next write whose allocations succeed stores, in place of the fragment, the
  first bytes of the fresh block \<open>krealloc(NULL, ...)\<close> handed out, as many as the fragment had,
  in front of its own data.\<close>

theorem aesd_write_after_failed_realloc:
  assumes "kernel_ok K" "dev_inv s" "can_enter K filp s" "copy_from_user K = 0"
    and "unat count \<le> length ubuf" "unat count < 2 ^ 31" "length (pending s) + unat count < 2 ^ 64"
    and "0 < unat count" "0 < unat count'"
    and "pending s \<noteq> []" "kmalloc K (mem s) (unat count) \<noteq> None"
    and "alloc_fails K s (take (unat count) ubuf)"
    and "kernel_ok K'" "can_enter K' filp s" "unat count' \<le> length ubuf'" "unat count' < 2 ^ 31"
    and "length (pending s) + unat count' < 2 ^ 64" "copy_from_user K' = 0"
    and "data = take (unat count') ubuf'" "kmalloc K' (mem s) (unat count') = Some (p, old)"
    and "krealloc K' ((mem s)(p \<mapsto> data)) NULL (length (pending s) + length (kept_bytes (pending s) data))
       = Some (q, fresh)"
  shows "\<exists>s1 s2. aesd_write K t filp ubuf count s = Some (- ENOMEM, s1) \<and> commands s1 = commands s
    \<and> mem s1 (store_buffer (aesd_device s)) = Some (pending s)
    \<and> store_buffer (aesd_device s) \<notin> owned s1
    \<and> aesd_write K' t' filp ubuf' count' s1 = Some (int (unat count'), s2)
    \<and> abs_dev s2 = committed (newline \<in> set data)
         (commands s, take (length (pending s)) fresh @ kept_bytes (pending s) data)"
proof -
  let ?s1 = "store_failed s"
  have run: "aesd_write K t filp ubuf count s = Some (- ENOMEM, ?s1)"
    using aesd_write_outcome[OF assms(1-3,5) _ assms(6,8,7), of t] assms(4,11,12) by auto
  have lost: "dev_lost ?s1" using store_failed_lost[OF assms(2,10)] .
  have cmds: "commands ?s1 = commands s" using store_failed_safe(2)[OF assms(2)] .
  have len: "unat (buffer_length (aesd_device ?s1)) = length (pending s)"
    using length_pending[OF assms(2)] by (simp add: store_failed_def)
  have enter: "can_enter K' filp ?s1"
    using assms(14) by (simp add: can_enter_def store_failed_def)
  have fits: "unat (buffer_length (aesd_device ?s1)) + unat count' < 2 ^ 64"
    using assms(17) len by simp
  have bl: "buffer_length (aesd_device s) \<noteq> 0" using assms(10) pending_Nil_iff[OF assms(2)] by simp
  note old = dev_inv_pending[OF assms(2) bl]
  have "store_buffer (aesd_device s) \<noteq> NULL" using old(1) dev_invD(2)[OF assms(2)] by auto
  then have leak: "store_buffer (aesd_device s) \<notin> owned ?s1"
    using old(3) by (auto simp: owned_def store_failed_def)
  have kept: "kept_bytes xs data = kept_bytes (pending s) data" if "xs \<noteq> []" for xs
    using that assms(10) by (simp add: kept_bytes_def)
  have new: "lost_block K' ?s1 data = Some (q, fresh)"
    using assms(15,19-21) len kept[of "[0]"] by (simp add: lost_block_def regrow_def store_failed_def)
  have "length (take (length (pending s)) fresh) = length (pending s)"
    using kernel_ok_krealloc[OF assms(13,21)] dev_invD(2)[OF assms(2)] assms(10)
      kernel_ok_kmalloc[OF assms(13,20,9)] by (simp add: block_def)
  then have "take (length (pending s)) fresh \<noteq> []" using assms(10) by (metis length_0_conv)
  then have junk: "kept_bytes (fresh_junk ?s1 (q, fresh)) data = kept_bytes (pending s) data"
    "fresh_junk ?s1 (q, fresh) = take (length (pending s)) fresh"
    using kept by (simp_all only: fresh_junk_def snd_conv len)
  obtain s2 where "aesd_write K' t' filp ubuf' count' ?s1 = Some (int (unat count'), s2)"
    "write_prepended (fresh_junk ?s1 (q, fresh)) ?s1 data s2"
    using aesd_write_lost[OF assms(13) lost enter assms(15) _ assms(16,9) fits, of t'] assms(18) new
    unfolding assms(19) by auto
  then show ?thesis
    using run cmds leak old(1) junk by (auto simp: write_prepended_def store_failed_def)
qed

definition regrow_in_5000 :: "heap \<Rightarrow> addr \<Rightarrow> nat \<Rightarrow> (addr \<times> byte list) option" where
  "regrow_in_5000 h p n =
     (if p = NULL \<and> h NULL = None \<and> h 0x5000 = None then Some (0x5000, replicate n 0xAA) else None)"

text \<open>The fragment \<open>th\<close> is pending; after the failure the line \<open>x\<close> is stored behind two bytes of
  fresh memory.\<close>

theorem aesd_write_after_failed_realloc_witness:
  "\<exists>s1 s2. aesd_write (sample_kernel\<lparr>krealloc := \<lambda>h p n. None\<rparr>) 1 sample_file [0x69, 10] 2 busy_state
      = Some (- ENOMEM, s1)
    \<and> aesd_write (sample_kernel\<lparr>krealloc := regrow_in_5000\<rparr>)
        1 sample_file [0x78, 10] 2 s1 = Some (2, s2)
    \<and> commands s2 = [[0x6F, 0x6E, 0x65, 10], [0x74, 0x77, 0x6F, 10], [0xAA, 0xAA, 0x78, 10]]"
proof -
  let ?K = "sample_kernel\<lparr>krealloc := \<lambda>h p n. None\<rparr>"
  let ?K' = "sample_kernel\<lparr>krealloc := regrow_in_5000\<rparr>"
  have ok: "kernel_ok ?K" "kernel_ok ?K'"
    using sample_kernel_ok by (auto simp: kernel_ok_def block_def regrow_in_5000_def)
  have enter: "can_enter ?K sample_file busy_state" "can_enter ?K' sample_file busy_state"
    using busy_state(4) by (simp_all add: can_enter_def)
  have two: "replicate 2 (0xAA :: byte) = [0xAA, 0xAA]" by (simp add: numeral_2_eq_2)
  have "kmalloc ?K (mem busy_state) 2 \<noteq> None" "alloc_fails ?K busy_state [0x69, 10]"
    by (simp_all add: sample_kernel_def sample_kmalloc_def heap_slots_def busy_state_def
        alloc_fails_def store_fails_def pending_def block_def)
  moreover have "kmalloc ?K' (mem busy_state) 2 = Some (0x4000, [0xAA, 0xAA])"
    by (simp add: sample_kernel_def sample_kmalloc_def heap_slots_def busy_state_def two)
  moreover have kept: "kept_bytes [0x74, 0x68] [0x78, 10] = [0x78, 10]"
    by (simp add: kept_bytes_def upto_last_newline_def)
  moreover have "krealloc ?K' ((mem busy_state)(0x4000 \<mapsto> [0x78, 10])) NULL (Suc (Suc (Suc (Suc 0))))
      = Some (0x5000, [0xAA, 0xAA, 0xAA, 0xAA])"
    by (simp add: regrow_in_5000_def busy_state_def)
  ultimately show ?thesis
    using aesd_write_after_failed_realloc[of ?K busy_state sample_file 2 "[0x69, 10]" 2 ?K'
        "[0x78, 10]" "[0x78, 10]" "0x4000" "[0xAA, 0xAA]" "0x5000" "[0xAA, 0xAA, 0xAA, 0xAA]" 1 1] ok enter
    by (auto simp: committed_def abs_dev_def)
qed

subsection \<open>Read and seek\<close>

text \<open>A read at the position of byte \<open>r\<close> of stored command \<open>k\<close> delivers the next
  bytes of that command, no more than asked for and never across its end, returns their number
  and advances the position by it; the device is unchanged and the mutex released.\<close>

theorem aesd_read_in_command:
  assumes "dev_inv s" "can_enter K filp s" "copy_to_user K = 0"
    and "length (concat (commands s)) < 2 ^ 63"
    and "k < length (commands s)" "r < length (commands s ! k)"
    and "unat pos = length (concat (take k (commands s))) + r"
  shows "\<exists>bytes pos'. aesd_read K t filp count pos s = Some (int (length bytes), bytes, pos', s)
    \<and> bytes = take (unat count) (drop r (commands s ! k)) \<and> unat pos' = unat pos + length bytes"
proof -
  let ?bs = "take (unat count) (drop r (commands s ! k))"
  have "length (commands s ! k) + length (concat (take k (commands s))) \<le> length (concat (commands s))"
    using sum_list_take_nth_le[of k "map length (commands s)"] assms(5)
    by (simp add: length_concat_take) (simp add: length_concat)
  then have len: "length ?bs < 2 ^ 63" "unat pos + length ?bs < 2 ^ 64"
    using assms(4,6,7) by (auto simp: min_def)
  then have "unat (pos + of_nat (length ?bs)) = unat pos + length ?bs"
    by (subst unat_add_64) (simp_all add: unat_of_nat_64)
  then show ?thesis
    using read_in_command[OF assms(1-3) _ assms(5-7), of t count] assms(4) sint_small_64[OF len(1)]
    by (simp add: Let_def)
qed

theorem aesd_read_in_command_witness:
  "\<exists>pos'. aesd_read sample_kernel 1 sample_file 10 5 busy_state
      = Some (3, [0x77, 0x6F, 10], pos', busy_state) \<and> unat pos' = 8"
  using aesd_read_in_command[of busy_state sample_kernel sample_file 1 1 5 1 10] by simp

text \<open>Property C11: a program that reads a device file until a read delivers nothing gets, whatever
  its chunk size and wherever it starts, exactly the bytes of the stored commands from there on,
  after at most one read more than there are bytes. Each read is an \<open>aesd_read\<close> at the file's
  position.\<close>

theorem read_all_delivers_commands:
  assumes "dev_inv s" "can_enter K filp s" "copy_to_user K = 0" "n \<noteq> 0"
    and "length (concat (commands s)) < 2 ^ 63" "length (concat (commands s)) < fuel"
  shows "read_all driver_read n fuel (K, t, filp, s)
       = Some (drop (unat (f_pos filp)) (concat (commands s)))"
  using driver_file.read_all_left[of s "(K, t, filp, s)" n fuel] assms
  by (simp add: driver_ready_def driver_left_def)

theorem read_all_delivers_commands_witness:
  "read_all driver_read 3 20 (sample_kernel, 1, sample_file, busy_state)
     = Some [0x6F, 0x6E, 0x65, 10, 0x74, 0x77, 0x6F, 10]"
proof -
  have "f_pos sample_file = 0" by (simp add: sample_file_def)
  then show ?thesis
    using read_all_delivers_commands[of busy_state sample_kernel sample_file 3 20 1] by simp
qed

text \<open>Property C12: after \<open>AESDCHAR_IOCSEEKTO\<close> with the number of a stored command and an offset
  inside it, a read delivers that command from that offset on.\<close>

theorem ioctl_seek_then_read:
  assumes "kernel_ok K" "dev_inv s" "can_enter K filp s" "copy_from_user K = 0" "copy_to_user K = 0"
    and "length (concat (commands s)) < 2 ^ 63"
    and "unat (write_cmd arg) < length (commands s)"
    and "unat (write_cmd_offset arg) < length (commands s ! unat (write_cmd arg))"
  shows "\<exists>filp'. aesd_unlocked_ioctl K filp (AESDCHAR_IOCSEEKTO K) arg s = Some (0, filp')
    \<and> (\<exists>pos'. aesd_read K t filp' count (f_pos filp') s =
         (let bytes = take (unat count) (drop (unat (write_cmd_offset arg))
                                              (commands s ! unat (write_cmd arg)))
          in Some (int (length bytes), bytes, pos', s)))"
proof -
  let ?c = "unat (write_cmd arg)"
  let ?i = "unat (write_cmd_offset arg)"
  let ?bs = "take (unat count) (drop ?i (commands s ! ?c))"
  let ?p = "seek_pos (map length (commands s)) ?c ?i"
  have p: "?p = length (concat (take ?c (commands s))) + ?i"
    using assms(7,8) by (simp add: seek_pos_def length_concat_take)
  have le: "length (commands s ! ?c) + length (concat (take ?c (commands s))) \<le> length (concat (commands s))"
    using sum_list_take_nth_le[of ?c "map length (commands s)"] assms(7)
    by (simp add: length_concat_take) (simp add: length_concat)
  then have pos: "unat (of_nat ?p :: u64) = length (concat (take ?c (commands s))) + ?i"
    using assms(6,8) by (subst unat_of_nat_64) (simp_all add: p)
  have len: "length ?bs < 2 ^ 63" using assms(6,8) le by (auto simp: min_def)
  have enter: "can_enter K (filp\<lparr>f_pos := of_nat ?p\<rparr>) s" using assms(3) by simp
  have "aesd_unlocked_ioctl K filp (AESDCHAR_IOCSEEKTO K) arg s = Some (0, filp\<lparr>f_pos := of_nat ?p\<rparr>)"
    using ioctl_seek[OF assms(1,2,4)] assms(6) by simp
  moreover have "\<exists>pos'. aesd_read K t (filp\<lparr>f_pos := of_nat ?p\<rparr>) count (of_nat ?p) s
      = Some (int (length ?bs), ?bs, pos', s)"
    using read_in_command[OF assms(2) enter assms(5) _ assms(7,8) pos, of t count] assms(6)
      sint_small_64[OF len] by (simp add: Let_def)
  ultimately show ?thesis by (simp add: Let_def)
qed

theorem ioctl_seek_then_read_witness:
  "\<exists>filp' pos'. aesd_unlocked_ioctl sample_kernel sample_file (AESDCHAR_IOCSEEKTO sample_kernel)
      \<lparr>write_cmd = 1, write_cmd_offset = 2\<rparr> busy_state = Some (0, filp')
    \<and> aesd_read sample_kernel 1 filp' 10 (f_pos filp') busy_state = Some (2, [0x6F, 10], pos', busy_state)"
  using ioctl_seek_then_read[of sample_kernel busy_state sample_file "\<lparr>write_cmd = 1, write_cmd_offset = 2\<rparr>" 1 10]
  by auto

text \<open>Property C39: a seek to a command that does not exist is not refused: it returns 0 and moves to
  the end of the data, where a read delivers nothing; an offset beyond a command moves to the start
  of that command.\<close>

theorem ioctl_seek_out_of_range:
  assumes "kernel_ok K" "dev_inv s" "copy_from_user K = 0" "length (concat (commands s)) < 2 ^ 63"
    and "unat (write_cmd arg) < length (commands s) \<Longrightarrow>
      length (commands s ! unat (write_cmd arg)) < unat (write_cmd_offset arg)"
  shows "\<exists>p. aesd_unlocked_ioctl K filp (AESDCHAR_IOCSEEKTO K) arg s = Some (0, filp\<lparr>f_pos := p\<rparr>)
    \<and> unat p = length (concat (take (unat (write_cmd arg)) (commands s)))
    \<and> (can_enter K filp s \<and> length (commands s) \<le> unat (write_cmd arg) \<longrightarrow>
        aesd_read K t filp count p s = Some (0, [], p, s))"
proof -
  let ?c = "unat (write_cmd arg)"
  let ?p = "seek_pos (map length (commands s)) ?c (unat (write_cmd_offset arg))"
  have p: "?p = length (concat (take ?c (commands s)))"
    using assms(5) by (auto simp: seek_pos_def length_concat_take)
  have "?p \<le> length (concat (commands s))"
    using seek_pos_le[of "map length (commands s)" ?c "unat (write_cmd_offset arg)"]
    by (simp only: length_concat)
  then have u: "unat (of_nat ?p :: u64) = length (concat (take ?c (commands s)))"
    using assms(4) p by (simp add: unat_of_nat_64)
  then have "can_enter K filp s \<and> length (commands s) \<le> ?c \<Longrightarrow>
      aesd_read K t filp count (of_nat ?p) s = Some (0, [], of_nat ?p, s)"
    using read_past_end[OF assms(2), of K filp "of_nat ?p" t count] assms(4) by simp
  with u show ?thesis
    using ioctl_seek[OF assms(1-3), of filp arg] assms(4) by auto
qed

theorem ioctl_seek_out_of_range_witness:
  "\<exists>p. aesd_unlocked_ioctl sample_kernel sample_file (AESDCHAR_IOCSEEKTO sample_kernel)
      \<lparr>write_cmd = 7, write_cmd_offset = 0\<rparr> busy_state = Some (0, sample_file\<lparr>f_pos := p\<rparr>)
    \<and> unat p = length (concat (commands busy_state))"
  using ioctl_seek_out_of_range[of sample_kernel busy_state "\<lparr>write_cmd = 7, write_cmd_offset = 0\<rparr>"
      sample_file 1 1]
  by auto

subsection \<open>Every state the module can reach\<close>

text \<open>Property C7: in every state reached from a successful load by completed handler calls, with
  arbitrary failures of the kernel services, interrupted waits and seeks of any mode, the buffer is
  well formed, each stored entry owns a live block of exactly its recorded size that no other entry
  shares, and the pending fragment owns another one or is lost to a failed reallocation. A call
  that finds the mutex free leaves it free, but for a seek whose mode is neither \<open>SEEK_SET\<close> nor
  \<open>SEEK_CUR\<close>: that one returns \<open>-EINVAL\<close>, keeps the mutex and changes nothing else.\<close>

theorem reachable_safe:
  assumes "dev_reachable s"
  shows "dev_safe s \<and> cb_wf (circular_buffer (aesd_device s))
    \<and> distinct (map buffptr (stored s))
    \<and> (\<forall>e \<in> set (stored s). \<exists>bs. mem s (buffptr e) = Some bs \<and> length bs = unat (size_e e))
    \<and> (\<forall>s'. dev_step s s' \<and> lock (aesd_device s) = None \<and> lock (aesd_device s') \<noteq> None \<longrightarrow>
         (\<exists>K t filp off whence. whence \<notin> {0, 1}
            \<and> aesd_llseek K t filp off whence s = Some (- EINVAL, filp, s')
            \<and> s' = set_dev (\<lambda>d. d\<lparr>lock := Some t\<rparr>) s))"
proof -
  have safe: "dev_safe s" using dev_reachable_sound[OF assms] by (simp add: dev_sound_def)
  have "dev_inv (empty_store s)"
    using safe dev_inv_empty_store by (auto simp: dev_safe_def dev_lost_def)
  moreover note dev_safe_wf[OF safe]
  moreover from this have "\<exists>K t filp off whence. whence \<notin> {0, 1}
      \<and> aesd_llseek K t filp off whence s = Some (- EINVAL, filp, s')
      \<and> s' = set_dev (\<lambda>d. d\<lparr>lock := Some t\<rparr>) s"
    if "dev_step s s'" "lock (aesd_device s) = None" "lock (aesd_device s') \<noteq> None" for s'
    using dev_step_lock[OF that(1)] that(2,3) by metis
  ultimately show ?thesis
    using safe by (auto simp: dev_inv_def)
qed

theorem reachable_safe_witness:
  "\<exists>r s'. aesd_write sample_kernel 1 sample_file [0x41, 10] 2 fresh_state = Some (r, s') \<and> dev_safe s'
    \<and> cb_wf (circular_buffer (aesd_device s'))"
proof -
  have "buffer_length (aesd_device fresh_state) = 0" by (simp add: fresh_state_def zero_dev_def)
  then obtain r s' where run: "aesd_write sample_kernel 1 sample_file [0x41, 10] 2 fresh_state = Some (r, s')"
    using aesd_write_safe[of fresh_state sample_kernel sample_file 2 "[0x41, 10]" 1]
    by (auto simp: dev_safe_def)
  have "dev_step fresh_state s'"
    using \<open>buffer_length (aesd_device fresh_state) = 0\<close> by (intro step_write[OF run]) simp_all
  then show ?thesis
    using reachable_safe[OF handled[OF fresh_reachable]] run by blast
qed

text \<open>Property C4: in every reachable state in which the mutex is free, each handler called on an open
  file without a signal returns, a seek of any mode included; a write (of 1 to \<open>INT_MAX\<close> bytes)
  returns the count, \<open>-EFAULT\<close> or \<open>-ENOMEM\<close>. No handler reads or writes outside a block, uses a
  freed one, or waits for ever. In a reachable state in which an earlier seek has kept the mutex,
  read, write and seek wait for ever; the ioctl returns in every reachable state.\<close>

theorem reachable_handlers_return:
  assumes "dev_reachable s" "kernel_ok K" "private_data filp \<noteq> None" "mutex_lock_interruptible K = 0"
    and "length (concat (commands s)) < 2 ^ 64"
    and "unat count \<le> length ubuf" "copy_from_user K \<le> unat count" "unat count < 2 ^ 31"
    and "0 < unat count" "unat (buffer_length (aesd_device s)) + unat count < 2 ^ 64"
  shows "(if lock (aesd_device s) = None
      then (\<exists>r bytes pos'. aesd_read K t filp count pos s = Some (r, bytes, pos', s))
        \<and> (\<exists>r s'. aesd_write K t filp ubuf count s = Some (r, s')
             \<and> (r = int (unat count) \<or> r = - EFAULT \<or> r = - ENOMEM))
        \<and> (\<exists>r filp' s'. aesd_llseek K t filp off whence s = Some (r, filp', s'))
      else aesd_read K t filp count pos s = None \<and> aesd_write K t filp ubuf count s = None
        \<and> aesd_llseek K t filp off whence s = None)
    \<and> (\<exists>r filp'. aesd_unlocked_ioctl K filp cmd arg s = Some (r, filp'))"
proof -
  have safe: "dev_safe s" using dev_reachable_sound[OF assms(1)] by (simp add: dev_sound_def)
  have inv: "dev_inv (empty_store s)"
    using safe dev_inv_empty_store by (auto simp: dev_safe_def dev_lost_def)
  have "sum_list (map (\<lambda>e. unat (size_e e)) (entries (circular_buffer (aesd_device s)))) < 2 ^ 64"
    using sum_sizes_commands[OF inv] assms(5) by (simp flip: sizes_def)
  note seek = cb.pos_seek[OF dev_safe_wf[OF safe] this]
  have ioctl: "\<exists>r filp'. aesd_unlocked_ioctl K filp cmd arg s = Some (r, filp')"
    by (simp add: aesd_unlocked_ioctl_def seek)
  show ?thesis
  proof (cases "lock (aesd_device s) = None")
    case True
    have enter: "can_enter K filp s" using assms(3,4) True by (simp add: can_enter_def)
    obtain f where "private_data filp = Some f" using assms(3) by auto
    then have "\<exists>r filp' s'. aesd_llseek K t filp off whence s = Some (r, filp', s')"
      by (simp add: aesd_llseek_def can_enter_lock[OF enter] unlock_held set_lock_None[OF True] Let_def)
    then show ?thesis
      using True ioctl aesd_read_total[OF safe enter assms(5), of t count pos]
        aesd_write_safe[OF safe enter assms(2,6-10), of t] by auto
  next
    case False
    then show ?thesis using ioctl handlers_blocked[OF False assms(4)] by simp
  qed
qed

theorem reachable_handlers_return_witness:
  "(\<exists>r bytes pos'. aesd_read sample_kernel 1 sample_file 4 99 fresh_state = Some (r, bytes, pos', fresh_state))
   \<and> (\<exists>r s'. aesd_write sample_kernel 1 sample_file [1, 2, 3, 10] 4 fresh_state = Some (r, s'))"
proof -
  have "buffer_length (aesd_device fresh_state) = 0" "private_data sample_file \<noteq> None"
    "lock (aesd_device fresh_state) = None"
    by (simp_all add: fresh_state_def zero_dev_def sample_file_def)
  then show ?thesis
    using reachable_handlers_return[of fresh_state sample_kernel sample_file 4 "[1, 2, 3, 10]" 1 99]
    by simp blast
qed

text \<open>\<open>llseek\<close> from the start or from the current position moves the file there, or
  returns \<open>-EINVAL\<close> for a negative result and leaves the position; the mutex is released.\<close>

theorem aesd_llseek_moves:
  assumes "can_enter K filp s" "whence = 0 \<or> whence = 1"
  shows "aesd_llseek K t filp off whence s =
    (let newpos = (if whence = 0 then off else f_pos filp + off) in
     if sint newpos < 0 then Some (- EINVAL, filp, s)
     else Some (sint newpos, filp\<lparr>f_pos := newpos\<rparr>, s))"
  using assms can_enter_file[OF assms(1)]
  by (auto simp: aesd_llseek_def can_enter_lock unlock_held can_enter_def Let_def)

theorem aesd_llseek_moves_witness:
  "aesd_llseek sample_kernel 1 (sample_file\<lparr>f_pos := 5\<rparr>) 4 1 fresh_state
     = Some (9, sample_file\<lparr>f_pos := 9\<rparr>, fresh_state)"
  using aesd_llseek_moves[of sample_kernel "sample_file\<lparr>f_pos := 5\<rparr>" fresh_state 1 1 4] by simp



text \<open>When a signal interrupts the wait for the mutex, \<open>read\<close> and \<open>write\<close> only log it
  and go on to release a mutex they do not hold: unless the calling task holds it already, the
  call has no defined outcome.\<close>

theorem interrupted_lock_undefined:
  assumes "dev_reachable s" "mutex_lock_interruptible K \<noteq> 0" "lock (aesd_device s) \<noteq> Some t"
  shows "aesd_read K t filp count pos s = None \<and> aesd_write K t filp ubuf count s = None"
proof -
  have "dev_safe s"
    using dev_reachable_sound[OF assms(1)] by (simp add: dev_sound_def)
  then show ?thesis
    using handlers_interrupted[OF assms(3,2) dev_safe_wf] by simp
qed

theorem interrupted_lock_undefined_witness:
  "aesd_read (sample_kernel\<lparr>mutex_lock_interruptible := - 4\<rparr>) 1 sample_file 1 0 fresh_state = None"
proof -
  have "lock (aesd_device fresh_state) \<noteq> Some 1" by (simp add: fresh_state_def zero_dev_def)
  then show ?thesis
    using interrupted_lock_undefined[of fresh_state "sample_kernel\<lparr>mutex_lock_interruptible := - 4\<rparr>" 1]
    by simp
qed

subsection \<open>Start and exit\<close>

text \<open>Property C25: unloading the module in a reachable state returns and frees the blocks of the
  stored commands and nothing else, each once; in particular the block of a pending fragment
  stays allocated.\<close>

theorem cleanup_frees_stored:
  assumes "dev_reachable s"
  shows "\<exists>s'. aesd_cleanup_module s = Some s' \<and> \<not> region s' \<and> \<not> cdev_live s'
    \<and> (\<forall>p. mem s' p = (if p \<in> buffptr ` set (stored s) then None else mem s p))
    \<and> (dev_inv s \<and> pending s \<noteq> [] \<longrightarrow> mem s' (store_buffer (aesd_device s)) = Some (pending s))"
proof -
  have idle: "dev_safe s" "unused_null (circular_buffer (aesd_device s))"
    using dev_reachable_sound[OF assms] by (simp_all add: dev_sound_def)
  have "store_buffer (aesd_device s) \<notin> buffptr ` set (stored s)
      \<and> mem s (store_buffer (aesd_device s)) = Some (pending s)" if "dev_inv s" "pending s \<noteq> []"
    using that dev_inv_pending[OF that(1)] pending_Nil_iff[OF that(1)] by simp
  then show ?thesis
    using cleanup_module_frees[OF idle] by auto
qed

theorem cleanup_frees_stored_witness:
  "\<exists>s'. aesd_cleanup_module fresh_state = Some s' \<and> \<not> region s' \<and> \<not> cdev_live s'"
  using cleanup_frees_stored[OF fresh_reachable] by auto

text \<open>Loading either succeeds with the device number reserved, the device registered and
  empty and its mutex free, or fails and leaves neither behind.\<close>

theorem init_all_or_nothing:
  "\<exists>r s'. aesd_init_module R s = (r, s') \<and> mem s' = mem s
    \<and> (if r = 0 then region s' \<and> cdev_live s' \<and> aesd_device s' = zero_dev
       else cdev_live s' = cdev_live s
          \<and> region s' = (alloc_chrdev_region R < 0 \<and> region s))"
  by (auto simp: aesd_init_module_def aesd_setup_cdev_def Let_def)

subsection \<open>Writing lines and reading them back\<close>

text \<open>A program that writes chunks and checks that each is accepted in full.\<close>

fun write_all :: "kernel \<Rightarrow> task \<Rightarrow> open_file \<Rightarrow> byte list list \<Rightarrow> kstate \<Rightarrow> kstate option" where
  "write_all K t filp [] s = Some s"
| "write_all K t filp (bs # bss) s = do {
     (r, s) \<leftarrow> aesd_write K t filp bs (of_nat (length bs)) s;
     if r = int (length bs) then write_all K t filp bss s else None
   }"

lemma length_spec_write: "length (snd (spec_write bs a)) \<le> length (snd a) + length bs"
  using length_kept_bytes[of "snd a" bs] by (simp add: spec_write_def Let_def)

lemma write_all_spec:
  assumes "kernel_ok K" "copy_from_user K = 0" "can_enter K filp s" "dev_inv s"
    and "\<forall>bs \<in> set bss. bs \<noteq> [] \<and> length bs < 2 ^ 31"
    and "length (pending s) + length (concat bss) < 2 ^ 64"
    and "write_all K t filp bss s = Some s'"
  shows "dev_inv s' \<and> can_enter K filp s' \<and> abs_dev s' = foldl (\<lambda>a bs. spec_write bs a) (abs_dev s) bss"
  using assms(3-)
proof (induction bss arbitrary: s)
  case Nil
  then show ?case by simp
next
  case (Cons bs bss)
  have len: "unat (of_nat (length bs) :: u64) = length bs"
    using Cons.prems(3) by (simp add: unat_of_nat_64)
  obtain s1 where s1: "aesd_write K t filp bs (of_nat (length bs)) s = Some (int (length bs), s1)"
      "write_all K t filp bss s1 = Some s'"
    using Cons.prems(5) by (auto simp: bind_eq_Some_conv split: if_splits)
  have "write_done s bs s1"
    using aesd_write_outcome[OF assms(1) Cons.prems(2,1), of "of_nat (length bs)" bs t]
      s1(1) Cons.prems(3,4) len assms(2) by auto
  then have w: "dev_inv s1" "abs_dev s1 = spec_write bs (abs_dev s)" "lock (aesd_device s1) = None"
    by (simp_all add: write_done_def)
  have "can_enter K filp s1" using Cons.prems(1) w(3) by (simp add: can_enter_def)
  moreover have "length (pending s1) \<le> length (pending s) + length bs"
    using length_spec_write[of bs "abs_dev s"] unfolding w(2)[symmetric] by (simp add: abs_dev_def)
  then have "length (pending s1) + length (concat bss) < 2 ^ 64"
    using Cons.prems(4) by simp
  ultimately show ?case
    using Cons.IH[of s1] w(1,2) s1(2) Cons.prems(3) by simp
qed

lemma spec_write_lines:
  "\<forall>bs \<in> set ls. newline \<in> set bs \<Longrightarrow> length cs \<le> 10 \<Longrightarrow>
     foldl (\<lambda>a bs. spec_write bs a) (cs, []) ls = (last_n 10 (cs @ ls), [])"
proof (induction ls rule: rev_induct)
  case (snoc l ls)
  then show ?case
    by (simp add: spec_write_def kept_bytes_def last_n_snoc_last_n)
qed simp

lemma sample_writes: "write_all sample_kernel 1 sample_file [[97, 10], [98, 10]] fresh_state \<noteq> None"
  by (simp add: aesd_write_def lock_dev_def unlock_dev_def set_dev_def do_kmalloc_def do_krealloc_def
      do_kfree_def heap_write_def heap_read_def scan_newline_def store_bytes_def commit_store_def
      write_end_def sample_kernel_def sample_file_def fresh_state_def zero_dev_def sample_kmalloc_def
      heap_slots_def aesd_circular_buffer_init_def aesd_circular_buffer_add_entry_def Let_def)

text \<open>Property C1: from a fresh load, after any number of whole lines were written, one write each,
  a program that reads the device from its start gets exactly the last ten lines, in order.\<close>

theorem last_ten_lines_read_back:
  assumes "aesd_init_module R s0 = (0, s)" "mem s0 NULL = None"
    and "kernel_ok K" "copy_from_user K = 0" "copy_to_user K = 0" "can_enter K filp s"
    and "\<forall>l \<in> set ls. newline \<in> set l \<and> length l < 2 ^ 31" "length (concat ls) < 2 ^ 63"
    and "write_all K t filp ls s = Some s'"
    and "n \<noteq> 0" "f_pos filp = 0" "length (concat ls) < fuel"
  shows "read_all driver_read n fuel (K, t, filp, s') = Some (concat (last_n 10 ls))"
proof -
  have "0 \<le> alloc_chrdev_region R"
    using assms(1) by (auto simp: aesd_init_module_def Let_def split: if_splits)
  note fresh = zero_dev_inv[of s] init_module_state[OF assms(1) this]
  have s: "dev_inv s" "abs_dev s = ([], [])" "pending s = []"
    using fresh assms(2) by (simp_all add: abs_dev_def)
  have "dev_inv s' \<and> can_enter K filp s' \<and> abs_dev s' = (last_n 10 ls, [])"
    using write_all_spec[OF assms(3,4,6) s(1) _ _ assms(9)] s(2,3) assms(7,8)
      spec_write_lines[of ls "[]"] by fastforce
  then have inv: "dev_inv s'" "can_enter K filp s'" and cmds: "commands s' = last_n 10 ls"
    by (simp_all add: abs_dev_def)
  have "concat ls = concat (take (length ls - 10) ls) @ concat (last_n 10 ls)"
    by (simp add: last_n_def flip: concat_append)
  then have "length (concat (last_n 10 ls)) \<le> length (concat ls)" by simp
  then show ?thesis
    using driver_file.read_all_left[of s' "(K, t, filp, s')" n fuel] inv cmds assms(5,8,10-12)
    by (simp add: driver_ready_def driver_left_def)
qed

theorem last_ten_lines_read_back_witness:
  "\<exists>s'. write_all sample_kernel 1 sample_file [[97, 10], [98, 10]] fresh_state = Some s'
    \<and> read_all driver_read 3 9 (sample_kernel, 1, sample_file, s') = Some [97, 10, 98, 10]"
proof -
  obtain s' where run: "write_all sample_kernel 1 sample_file [[97, 10], [98, 10]] fresh_state = Some s'"
    using sample_writes by auto
  have "aesd_init_module \<lparr>alloc_chrdev_region = 0, new_major = 250, cdev_add = 0\<rparr>
      (fresh_state\<lparr>cdev_live := False, region := False\<rparr>) = (0, fresh_state)"
    by (simp add: aesd_init_module_def aesd_setup_cdev_def fresh_state_def)
  moreover have "mem (fresh_state\<lparr>cdev_live := False, region := False\<rparr>) NULL = None"
      "f_pos sample_file = 0"
    by (simp_all add: fresh_state_def sample_file_def)
  ultimately show ?thesis
    using last_ten_lines_read_back[OF _ _ _ _ _ _ _ _ run, of _ _ 3 9] run by simp
qed

end
