(* ===== verification/Aesd_Socket.thy ===== *)
theory Aesd_Socket
  imports Driver_Properties
begin

section \<open>The socket server\<close>

text \<open>
  \<^verbatim>\<open>src/server/aesdsocket.c\<close>, with the driver of \<open>Char_Driver\<close> behind \<^verbatim>\<open>/dev/aesdchar\<close>. A
  connection is one \<open>recv\<close>: either a seek command or bytes for the driver; then everything the
  device delivers is sent back line by line. The main loop accepts connections and runs one
  thread per connection. What the sockets, \<open>malloc\<close> and \<open>pthread_create\<close> answer is an input;
  log messages and the timestamp thread (whose file output is commented out) are left out.
\<close>

subsection \<open>Constants\<close>

text \<open>\<open>"AESDCHAR_IOCSEEKTO:"\<close> with its terminating zero byte.\<close>

definition IOCTL :: "byte list" where
  "IOCTL = [0x41, 0x45, 0x53, 0x44, 0x43, 0x48, 0x41, 0x52, 0x5F, 0x49, 0x4F, 0x43, 0x53, 0x45,
            0x45, 0x4B, 0x54, 0x4F, 0x3A, 0]"

abbreviation (input) sizeof_IOCTL :: nat where "sizeof_IOCTL \<equiv> 20"

text \<open>\<open>sizeof(IOCTL - 1)\<close> is the size of a pointer, not the length of the string.\<close>

abbreviation (input) sizeof_IOCTL_minus_1 :: nat where "sizeof_IOCTL_minus_1 \<equiv> 8"

abbreviation (input) BUFFER_SIZE :: nat where "BUFFER_SIZE \<equiv> 1994"

subsection \<open>C strings\<close>

text \<open>The string at the start of a memory area; reading past the end of the area has no value.\<close>

definition c_string :: "byte list \<Rightarrow> byte list option" where
  "c_string bs = (if 0 \<in> set bs then Some (takeWhile (\<lambda>b. b \<noteq> 0) bs) else None)"

abbreviation (input) is_digit :: "byte \<Rightarrow> bool" where "is_digit b \<equiv> 48 \<le> b \<and> b \<le> 57"

fun atoi_digits :: "int \<Rightarrow> byte list \<Rightarrow> int option" where
  "atoi_digits acc [] = None"
| "atoi_digits acc (b # bs) =
     (if is_digit b then atoi_digits (10 * acc + int (unat b - 48)) bs else Some acc)"

text \<open>\<open>atoi\<close>: white space, a sign, digits. A number outside \<open>int\<close> has no defined value.\<close>

definition atoi :: "byte list \<Rightarrow> int option" where
  "atoi bs = do {
     let bs = dropWhile (\<lambda>b. b = 32 \<or> 9 \<le> b \<and> b \<le> 13) bs;
     n \<leftarrow> (case bs of
             [] \<Rightarrow> None
           | b # bs' \<Rightarrow>
               if b = 45 then map_option uminus (atoi_digits 0 bs')
               else if b = 43 then atoi_digits 0 bs' else atoi_digits 0 bs);
     if - (2 ^ 31) \<le> n \<and> n < 2 ^ 31 then Some n else None
   }"

subsection \<open>One connection\<close>

text \<open>
  What \<open>recv\<close> returns and stores into \<open>buf\<close>, the previous contents of that stack array,
  whether \<open>malloc\<close> and \<open>fopen\<close> succeed, and the result of the \<open>i\<close>-th \<open>send\<close> of \<open>n\<close> bytes: -1
  or the number of bytes that were taken. (A client that has closed its end makes \<open>send\<close> raise
  \<open>SIGPIPE\<close>, for which the server sets no handler; that end of the process is not modelled.)
\<close>

record connection =
  recv_ret :: int
  recv_bytes :: "byte list"
  stack :: "byte list"
  malloc_ok :: bool
  fopen_ok :: bool
  send_ret :: "nat \<Rightarrow> nat \<Rightarrow> int"

text \<open>The comparison loop; it leaves the status of the last comparison made.\<close>

fun ioctl_loop :: "byte list \<Rightarrow> nat \<Rightarrow> nat \<Rightarrow> bool \<Rightarrow> bool option" where
  "ioctl_loop buf 0 x ioctl_status = Some ioctl_status"
| "ioctl_loop buf (Suc n) x ioctl_status = do {
     b \<leftarrow> array_get buf x;
     c \<leftarrow> array_get IOCTL x;
     if b = c then ioctl_loop buf n (x + 1) True else Some False
   }"

text \<open>\<open>holder\<close> is a copy of \<open>buf[0..byte_count]\<close>; a \<open>NULL\<close> from \<open>malloc\<close> is not checked.\<close>

definition make_holder :: "connection \<Rightarrow> byte list \<Rightarrow> byte list option" where
  "make_holder c buf =
     (if \<not> malloc_ok c then None
      else if recv_ret c < 0 then Some []
      else if nat (recv_ret c) < length buf then Some (take (nat (recv_ret c) + 1) buf) else None)"

text \<open>
  The stream of \<open>fopen(OUTPUT_FILE, "a+")\<close>: the string goes to the stream's buffer and is written
  by the flush that \<open>fseek\<close> starts with; then the position is set to the start. A flush that the
  driver refuses leaves the stream in an error state that is not modelled.
\<close>

definition put_and_rewind ::
  "kernel \<Rightarrow> task \<Rightarrow> open_file \<Rightarrow> byte list \<Rightarrow> kstate \<Rightarrow> (open_file \<times> kstate) option" where
  "put_and_rewind K t filp bytes s = do {
     s \<leftarrow> (if bytes = [] then Some s
          else do {
            (r, s) \<leftarrow> aesd_write K t filp bytes (of_nat (length bytes)) s;
            if r = int (length bytes) then Some s else None
          });
     (r, filp, s) \<leftarrow> aesd_llseek K t filp 0 0 s;
     Some (filp, s)
   }"

text \<open>The bytes of a piece that a \<open>send\<close> took; one that fails takes none.\<close>

definition taken :: "int \<Rightarrow> byte list \<Rightarrow> byte list" where
  "taken dang piece = (if dang = - 1 then [] else take (nat dang) piece)"

text \<open>The loop that sends what \<open>fgets\<close> delivers, \<open>strlen(buf)\<close> bytes of it at a time. The result of
  \<open>send\<close> is only logged: whatever it is, the loop goes on with the next piece. The value lists what
  each call took.\<close>

partial_function (option) send_loop ::
  "(nat \<Rightarrow> nat \<Rightarrow> int) \<Rightarrow> nat \<Rightarrow> ('s \<Rightarrow> u64 \<Rightarrow> (byte list \<times> 's) option) \<Rightarrow> byte list \<times> 's
     \<Rightarrow> (byte list list \<times> 's) option" where
  "send_loop send i read f = do {
     (r, f) \<leftarrow> fgets read BUFFER_SIZE f;
     case r of
       None \<Rightarrow> Some ([], snd f)
     | Some buf \<Rightarrow> do {
         let string = takeWhile (\<lambda>b. b \<noteq> 0) buf;
         let dang = send i (length string);
         (sent, d) \<leftarrow> send_loop send (Suc i) read f;
         Some (taken dang string # sent, d)
       }
   }"

definition threadFunc ::
  "kernel \<Rightarrow> task \<Rightarrow> connection \<Rightarrow> kstate \<Rightarrow> (byte list list \<times> kstate) option" where
  "threadFunc K t c s = do {
     let buf = recv_bytes c @ drop (length (recv_bytes c)) (stack c);
     ioctl_status \<leftarrow> ioctl_loop buf sizeof_IOCTL_minus_1 0 False;
     holder \<leftarrow> make_holder c buf;
     if \<not> fopen_ok c then None
     else do {
       let filp = snd (aesd_open \<lparr>f_pos = 0, private_data = None\<rparr>);
       (filp, s) \<leftarrow>
         (if ioctl_status then do {
            cmd \<leftarrow> atoi (drop (sizeof_IOCTL - 1) holder);
            offset \<leftarrow> atoi (drop (sizeof_IOCTL + 1) holder);
            (temp, filp) \<leftarrow> aesd_unlocked_ioctl K filp (AESDCHAR_IOCSEEKTO K)
                              \<lparr>write_cmd = of_int cmd, write_cmd_offset = of_int offset\<rparr> s;
            Some (filp, s)
          } else do {
            bytes \<leftarrow> c_string holder;
            put_and_rewind K t filp bytes s
          });
       (sent, (_, _, _, s)) \<leftarrow> send_loop (send_ret c) 0 driver_read ([], (K, t, filp, s));
       Some (sent, s)
     }
   }"

subsection \<open>The main loop\<close>

text \<open>
  The server's state: the shutdown flag, whether the listening socket is open for connections, the
  list of the threads (\<open>SLIST_HEAD\<close>), how many were created, the data sent to each client, and
  the kernel. A round is one pass of the loop: the result of \<open>accept\<close>, the connection, whether the
  node can be allocated and the thread created, and whether a signal arrives during it.
\<close>

record server =
  cleanShutdown :: bool
  listening :: bool
  head :: "nat list"
  created :: nat
  replies :: "byte list list list"
  device :: kstate

record round =
  accept_ret :: int
  conn :: connection
  node_ok :: bool
  thread_ok :: bool
  signalled :: bool

definition signal_handler :: "server \<Rightarrow> server" where
  "signal_handler srv = srv\<lparr>listening := False, cleanShutdown := True\<rparr>"

text \<open>
  Joining waits for the thread to run to its end. A thread whose socket is the \<open>-1\<close> of a failed
  \<open>accept\<close> receives \<open>-1\<close>. The loop over the list leaves after its first element, which is the
  thread just created. An unchecked \<open>malloc\<close> or \<open>pthread_create\<close> that fails has no value.
\<close>

definition accept_round :: "kernel \<Rightarrow> round \<Rightarrow> server \<Rightarrow> server option" where
  "accept_round K r srv = do {
     let srv = (if signalled r then signal_handler srv else srv);
     let id = created srv;
     let c = (if accept_ret r < 0 then (conn r)\<lparr>recv_ret := - 1, recv_bytes := []\<rparr> else conn r);
     if \<not> node_ok r \<or> \<not> thread_ok r then None
     else do {
       let srv = srv\<lparr>head := id # head srv, created := id + 1\<rparr>;
       case head srv of
         [] \<Rightarrow> Some srv
       | datap # _ \<Rightarrow>
           if datap = id then do {
             (sent, s) \<leftarrow> threadFunc K id c (device srv);
             Some (srv\<lparr>head := remove1 datap (head srv), replies := replies srv @ [sent], device := s\<rparr>)
           } else None
     }
   }"

text \<open>Once the flag is set the loop ends and the process exits with status 0.\<close>

fun server_main :: "(kernel \<times> round) list \<Rightarrow> server \<Rightarrow> server option" where
  "server_main [] srv = Some srv"
| "server_main ((K, r) # rs) srv =
     (if cleanShutdown srv then Some (srv\<lparr>listening := False\<rparr>)
      else do { srv \<leftarrow> accept_round K r srv; server_main rs srv })"

subsection \<open>Sending back a file\<close>

text \<open>What the client gets of the given pieces, one \<open>send\<close> for each.\<close>

fun delivered :: "(nat \<Rightarrow> nat \<Rightarrow> int) \<Rightarrow> nat \<Rightarrow> byte list list \<Rightarrow> byte list list" where
  "delivered send i [] = []"
| "delivered send i (p # ps) = taken (send i (length p)) p # delivered send (Suc i) ps"

definition sends_all :: "connection \<Rightarrow> bool" where
  "sends_all c \<longleftrightarrow> send_ret c = (\<lambda>i n. int n)"

lemma delivered_all: "sends_all c \<Longrightarrow> delivered (send_ret c) i ps = ps"
  by (induction ps arbitrary: i) (auto simp: sends_all_def taken_def)

context byte_source
begin

text \<open>The loop returns with everything the stream had left, in pieces of at most 1993 bytes; if
  no byte of it is zero, everything is handed to \<open>send\<close>.\<close>

lemma send_loop_rest:
  assumes "ready (snd f)"
  shows "\<exists>pieces d. send_loop send i read f = Some (delivered send i pieces, d) \<and> ready d
    \<and> (0 \<notin> set (rest f) \<longrightarrow> concat pieces = rest f) \<and> (\<forall>c \<in> set pieces. length c \<le> 1993)"
  using assms
proof (induction "length (rest f)" arbitrary: i f rule: less_induct)
  case less
  from fgets_piece[OF less.prems, of BUFFER_SIZE] obtain f' where f': "ready (snd f')"
    "rest f' = drop (length (line_piece 1993 (rest f))) (rest f)"
    "fgets read BUFFER_SIZE f = Some (if rest f = [] then None else Some (line_piece 1993 (rest f)), f')"
    by auto
  show ?case
  proof (cases "rest f = []")
    case True
    then show ?thesis
      using f' by (subst send_loop.simps) (simp add: exI[of _ "[]"])
  next
    case False
    let ?piece = "line_piece 1993 (rest f)"
    let ?string = "takeWhile (\<lambda>b. b \<noteq> 0) ?piece"
    have ne: "?piece \<noteq> []" using False by (simp add: line_piece_Nil)
    have "length (rest f') < length (rest f)"
      using ne False f'(2) by (cases ?piece; cases "rest f") auto
    from less.hyps[OF this f'(1), of "Suc i"] obtain pieces d
      where d: "send_loop send (Suc i) read f' = Some (delivered send (Suc i) pieces, d)" "ready d"
      "0 \<notin> set (rest f') \<Longrightarrow> concat pieces = rest f'" "\<forall>c \<in> set pieces. length c \<le> 1993"
      by blast
    have run: "send_loop send i read f = Some (delivered send i (?string # pieces), d)"
      using False f'(3) d(1) by (subst send_loop.simps) (simp add: Let_def)
    have "length ?string \<le> 1993"
      using length_takeWhile_le[of _ ?piece] length_line_piece[of 1993 "rest f"] by (rule le_trans)
    moreover have "?string @ concat pieces = rest f" if "0 \<notin> set (rest f)"
    proof -
      have "0 \<notin> set ?piece" using that set_line_piece[of 1993 "rest f"] by blast
      then have "?string = ?piece" by (auto simp: takeWhile_eq_all_conv)
      moreover have "0 \<notin> set (rest f')" using that f'(2) set_drop_subset[of _ "rest f"] by auto
      ultimately show ?thesis
        using d(3) f'(2) line_piece_prefix[of 1993 "rest f"] by (metis append_take_drop_id)
    qed
    ultimately show ?thesis
      using run d by (intro exI[of _ "?string # pieces"] exI[of _ d]) simp
  qed
qed

end

text \<open>On the driver, from the position of an open file.\<close>

lemma send_driver:
  assumes "dev_inv s" "can_enter K filp s" "copy_to_user K = 0" "length (concat (commands s)) < 2 ^ 63"
  shows "\<exists>pieces K' t' filp'.
      send_loop send i driver_read ([], (K, t, filp, s)) = Some (delivered send i pieces, (K', t', filp', s))
    \<and> (0 \<notin> set (concat (commands s)) \<longrightarrow>
         concat pieces = drop (unat (f_pos filp)) (concat (commands s)))
    \<and> (\<forall>c \<in> set pieces. length c \<le> 1993)"
proof -
  let ?f = "([], (K, t, filp, s))"
  have r: "driver_ready s (snd ?f)" using assms by (simp add: driver_ready_def)
  have left: "driver_file.rest ?f = drop (unat (f_pos filp)) (concat (commands s))"
    by (simp add: driver_file.rest_def) (simp add: driver_left_def)
  from driver_file.send_loop_rest[OF r] obtain pieces d
    where d: "send_loop send i driver_read ?f = Some (delivered send i pieces, d)"
    "driver_ready s d" "0 \<notin> set (driver_file.rest ?f) \<longrightarrow> concat pieces = driver_file.rest ?f"
    "\<forall>c \<in> set pieces. length c \<le> 1993"
    by blast
  obtain K' t' filp' s' where "d = (K', t', filp', s')" by (cases d)
  then show ?thesis
    using d left set_drop_subset[of "unat (f_pos filp)" "concat (commands s)"]
    by (auto simp: driver_ready_def)
qed

subsection \<open>One connection\<close>

lemma ioctl_loop_take:
  "x + n \<le> length buf \<Longrightarrow> x + n \<le> 20 \<Longrightarrow>
     ioctl_loop buf n x True = Some (take n (drop x buf) = take n (drop x IOCTL))"
proof (induction n arbitrary: x)
  case (Suc n)
  have "length IOCTL = 20" by (simp add: IOCTL_def)
  with Suc.prems have "drop x buf = buf ! x # drop (Suc x) buf"
      "drop x IOCTL = IOCTL ! x # drop (Suc x) IOCTL" "x < length buf" "x < length IOCTL"
    by (auto simp: Cons_nth_drop_Suc)
  then show ?case using Suc.IH[of "Suc x"] Suc.prems by simp
qed simp

lemma ioctl_loop_prefix:
  assumes "8 \<le> length buf"
  shows "ioctl_loop buf 8 0 False = Some (take 8 buf = take 8 IOCTL)"
proof -
  have "ioctl_loop buf (Suc n) 0 False = ioctl_loop buf (Suc n) 0 True" for n by simp
  from this[of 7] show ?thesis using ioctl_loop_take[of 0 8 buf] assms by simp
qed

text \<open>A successful \<open>recv\<close> of \<open>bytes\<close>, with room for all. The byte of \<open>buf\<close> behind them is what the
  stack held before (the server writes no terminator); \<open>terminated\<close> says that it is zero.\<close>

definition received :: "connection \<Rightarrow> byte list \<Rightarrow> bool" where
  "received c bytes \<longleftrightarrow> recv_bytes c = bytes \<and> recv_ret c = int (length bytes)
     \<and> length bytes \<le> 1993 \<and> length (stack c) = BUFFER_SIZE \<and> malloc_ok c \<and> fopen_ok c"

definition behind :: "connection \<Rightarrow> byte" where
  "behind c = stack c ! length (recv_bytes c)"

definition terminated :: "connection \<Rightarrow> bool" where
  "terminated c \<longleftrightarrow> behind c = 0"

lemma received_buf:
  assumes "received c bytes"
  shows "make_holder c (recv_bytes c @ drop (length (recv_bytes c)) (stack c)) = Some (bytes @ [behind c])"
    and "8 \<le> length (recv_bytes c @ drop (length (recv_bytes c)) (stack c))"
  using assms by (auto simp: received_def behind_def make_holder_def take_Suc_conv_app_nth)

definition opened :: open_file where
  "opened = \<lparr>f_pos = 0, private_data = Some Aesd_device\<rparr>"

lemma c_string_snoc: "0 \<notin> set bytes \<Longrightarrow> c_string (bytes @ [0]) = Some bytes"
  by (auto simp: c_string_def takeWhile_append takeWhile_eq_all_conv)

text \<open>Storing a line and going back to the start.\<close>

lemma put_line:
  assumes "kernel_ok K" "copy_from_user K = 0" "dev_inv s" "can_enter K filp s"
    and "bytes \<noteq> []" "length bytes < 2 ^ 31" "length (pending s) + length bytes < 2 ^ 64"
    and "\<not> alloc_fails K s bytes"
  shows "\<exists>s'. put_and_rewind K t filp bytes s = Some (filp\<lparr>f_pos := 0\<rparr>, s') \<and> write_done s bytes s'"
proof -
  have len: "unat (of_nat (length bytes) :: u64) = length bytes"
    using assms(6) by (simp add: unat_of_nat_64)
  have "kmalloc K (mem s) (length bytes) \<noteq> None"
    using assms(8) by (cases "kmalloc K (mem s) (length bytes)") (simp_all add: alloc_fails_def)
  then obtain s' where w: "aesd_write K t filp bytes (of_nat (length bytes)) s = Some (int (length bytes), s')"
      "write_done s bytes s'"
    using aesd_write_outcome[OF assms(1,3,4), of "of_nat (length bytes)" bytes t] len assms(2,5-8) by auto
  obtain f where "private_data filp = Some f" using assms(4) by (auto simp: can_enter_def)
  moreover have "can_enter K filp s'" "lock (aesd_device s') = None"
    using assms(4) w(2) by (simp_all add: can_enter_def write_done_def)
  ultimately have "aesd_llseek K t filp 0 0 s' = Some (0, filp\<lparr>f_pos := 0\<rparr>, s')"
    by (simp add: aesd_llseek_def can_enter_lock unlock_held set_lock_None Let_def)
  then show ?thesis using w assms(5) by (simp add: put_and_rewind_def)
qed

text \<open>A message that is not a command.\<close>

lemma threadFunc_line:
  assumes "kernel_ok K" "copy_from_user K = 0" "copy_to_user K = 0" "dev_inv s" "can_enter K opened s"
    and c: "received c bytes" "0 \<notin> set bytes" "bytes \<noteq> []" "terminated c"
    and plain: "take 8 (bytes @ drop (length bytes) (stack c)) \<noteq> take 8 IOCTL"
    and fits: "length (pending s) < 2 ^ 62" "length (concat (commands s)) < 2 ^ 61"
    and "\<not> alloc_fails K s bytes"
  shows "\<exists>pieces s'. threadFunc K t c s = Some (delivered (send_ret c) 0 pieces, s')
    \<and> dev_inv s' \<and> lock (aesd_device s') = None \<and> abs_dev s' = spec_write bytes (abs_dev s)
    \<and> (0 \<notin> set (concat (commands s')) \<longrightarrow> concat pieces = concat (commands s'))
    \<and> (\<forall>p \<in> set pieces. length p \<le> 1993)"
proof -
  let ?buf = "bytes @ drop (length bytes) (stack c)"
  have rb: "recv_bytes c = bytes" "fopen_ok c" "length bytes \<le> 1993"
    using c(1) by (simp_all add: received_def)
  from put_line[OF assms(1,2,4,5) c(3) _ _ assms(13), of t] rb(3) fits(1) obtain s' where
    s': "put_and_rewind K t opened bytes s = Some (opened\<lparr>f_pos := 0\<rparr>, s')" "write_done s bytes s'"
    by auto
  then have inv: "dev_inv s'" "abs_dev s' = spec_write bytes (abs_dev s)" "lock (aesd_device s') = None"
    by (simp_all add: write_done_def)
  have enter: "can_enter K (opened\<lparr>f_pos := 0\<rparr>) s'"
    using assms(5) s'(2) by (simp add: can_enter_def write_done_def)
  have "length (concat (commands s')) \<le> length (concat (commands s)) + length (pending s) + length bytes"
  proof -
    have "length (concat (last_n 10 xs)) \<le> length (concat xs)" for xs :: "byte list list"
    proof -
      have "concat xs = concat (take (length xs - 10) xs) @ concat (last_n 10 xs)"
        by (simp add: last_n_def flip: concat_append)
      then show ?thesis by simp
    qed
    from this[of "commands s @ [pending s @ kept_bytes (pending s) bytes]"]
    show ?thesis
      using inv(2) length_kept_bytes[of "pending s" bytes]
      by (auto simp: abs_dev_def spec_write_def Let_def split: if_splits)
  qed
  then have "length (concat (commands s')) < 2 ^ 63"
    using fits rb(3) by simp
  from send_driver[OF inv(1) enter assms(3) this, of "send_ret c" 0 t]
  obtain pieces K' t' filp' where
    "send_loop (send_ret c) 0 driver_read ([], (K, t, opened\<lparr>f_pos := 0\<rparr>, s'))
       = Some (delivered (send_ret c) 0 pieces, (K', t', filp', s'))"
    "0 \<notin> set (concat (commands s')) \<longrightarrow>
       concat pieces = drop (unat (f_pos (opened\<lparr>f_pos := 0\<rparr>))) (concat (commands s'))"
    "\<forall>p \<in> set pieces. length p \<le> 1993"
    by blast
  then show ?thesis
    using inv s'(1) rb received_buf[OF c(1)] c(4) ioctl_loop_prefix[of ?buf] plain c_string_snoc[OF c(2)]
    by (intro exI[of _ pieces] exI[of _ s'])
      (simp add: threadFunc_def aesd_open_def opened_def terminated_def Let_def)
qed

text \<open>If the byte behind the message is not zero, \<open>holder\<close> is no string: \<open>fputs\<close> reads past its end.\<close>

lemma threadFunc_unterminated:
  assumes "received c bytes" "0 \<notin> set bytes" "\<not> terminated c"
    and "take 8 (bytes @ drop (length bytes) (stack c)) \<noteq> take 8 IOCTL"
  shows "threadFunc K t c s = None"
proof -
  have "recv_bytes c = bytes" "c_string (bytes @ [behind c]) = None"
    using assms(1-3) by (auto simp: received_def c_string_def terminated_def)
  then show ?thesis
    using received_buf[OF assms(1)] ioctl_loop_prefix[of "bytes @ drop (length bytes) (stack c)"] assms(4)
    by (simp add: threadFunc_def Let_def)
qed

text \<open>Numbers as the client sends them.\<close>

definition dec_value :: "byte list \<Rightarrow> int" where
  "dec_value ys = foldl (\<lambda>a b. 10 * a + int (unat b - 48)) 0 ys"

lemma atoi_digits_all:
  "\<forall>y \<in> set ys. is_digit y \<Longrightarrow> \<not> is_digit b \<Longrightarrow>
     atoi_digits acc (ys @ b # zs) = Some (foldl (\<lambda>a b. 10 * a + int (unat b - 48)) acc ys)"
  by (induction ys arbitrary: acc) auto

lemma dec_value_nonneg: "0 \<le> dec_value ys"
proof -
  have "0 \<le> a \<Longrightarrow> 0 \<le> foldl (\<lambda>a b. 10 * a + int (unat b - 48)) a ys" for a
    by (induction ys arbitrary: a) auto
  then show ?thesis by (simp add: dec_value_def)
qed

lemma digit_no_space:
  assumes "is_digit y"
  shows "\<not> (y = 32 \<or> 9 \<le> y \<and> y \<le> 13)" "y \<noteq> 45" "y \<noteq> 43"
  using assms by (auto simp: word_le_nat_alt)

lemma atoi_number:
  assumes "ys \<noteq> []" "\<forall>y \<in> set ys. is_digit y" "\<not> is_digit b" "dec_value ys < 2 ^ 31"
  shows "atoi (ys @ b # zs) = Some (dec_value ys)"
proof -
  obtain y ys' where ys: "ys = y # ys'" using assms(1) by (cases ys) auto
  have y: "is_digit y" using assms(2) ys by simp
  have "atoi_digits 0 (ys @ b # zs) = Some (dec_value ys)"
    using atoi_digits_all[OF assms(2,3)] by (simp add: dec_value_def)
  moreover have "dropWhile (\<lambda>b. b = 32 \<or> 9 \<le> b \<and> b \<le> 13) (ys @ b # zs) = ys @ b # zs"
    using digit_no_space(1)[OF y] by (auto simp: ys)
  ultimately show ?thesis
    using digit_no_space(2,3)[OF y] assms(4) dec_value_nonneg[of ys]
    by (simp add: atoi_def ys)
qed

text \<open>A seek command: one digit, a comma, a number, and anything that does not continue it.\<close>

definition seek_message :: "byte \<Rightarrow> byte list \<Rightarrow> byte list \<Rightarrow> byte list" where
  "seek_message d ys zs = take 19 IOCTL @ [d, 44] @ ys @ zs"

lemma threadFunc_seek:
  assumes "kernel_ok K" "copy_from_user K = 0" "copy_to_user K = 0" "dev_inv s" "can_enter K opened s"
    and c: "received c (seek_message d ys zs)"
    and num: "is_digit d" "ys \<noteq> []" "\<forall>y \<in> set ys. is_digit y" "dec_value ys < 2 ^ 31"
      "\<not> is_digit (List.hd (zs @ [behind c]))"
    and fits: "length (concat (commands s)) < 2 ^ 63"
  shows "\<exists>pieces. threadFunc K t c s = Some (delivered (send_ret c) 0 pieces, s)
    \<and> (0 \<notin> set (concat (commands s)) \<longrightarrow> concat pieces =
         drop (seek_pos (map length (commands s)) (unat d - 48) (nat (dec_value ys))) (concat (commands s)))
    \<and> (\<forall>p \<in> set pieces. length p \<le> 1993)"
proof -
  let ?msg = "seek_message d ys zs"
  let ?buf = "?msg @ drop (length ?msg) (stack c)"
  let ?arg = "\<lparr>write_cmd = of_int (dec_value [d]), write_cmd_offset = of_int (dec_value ys)\<rparr>"
  let ?p = "seek_pos (map length (commands s)) (unat d - 48) (nat (dec_value ys))"
  have len: "length IOCTL = 20" by (simp add: IOCTL_def)
  have rb: "recv_bytes c = ?msg" "fopen_ok c" using c by (simp_all add: received_def)
  obtain b zs' where b: "zs @ [behind c] = b # zs'" "\<not> is_digit b"
    using num(5) by (cases "zs @ [behind c]") simp_all
  have d1: "drop 19 (?msg @ [behind c]) = [d] @ 44 # ys @ zs @ [behind c]"
    using len by (simp add: seek_message_def)
  have d2: "drop 21 (?msg @ [behind c]) = ys @ b # zs'"
    using len b(1) by (simp add: seek_message_def)
  have a1: "atoi (drop 19 (?msg @ [behind c])) = Some (dec_value [d])"
    unfolding d1 using num(1) unsigned_less[of d, where 'a = int]
    by (intro atoi_number) (simp_all add: dec_value_def word_le_nat_alt)
  have a2: "atoi (drop 21 (?msg @ [behind c])) = Some (dec_value ys)"
    unfolding d2 by (rule atoi_number[OF num(2,3) b(2) num(4)])
  have u1: "unat (of_int (dec_value [d]) :: u32) = unat d - 48"
    using unat_lt_8[of d] by (simp add: dec_value_def unat_of_nat)
  have "of_int (dec_value ys) = (of_nat (nat (dec_value ys)) :: u32)"
    using dec_value_nonneg[of ys] by (metis int_nat_eq of_int_of_nat_eq)
  moreover have "nat (dec_value ys) < 2 ^ 32"
    using num(4) dec_value_nonneg[of ys] by (simp add: nat_less_iff)
  ultimately have u2: "unat (of_int (dec_value ys) :: u32) = nat (dec_value ys)"
    by (simp only: unat_of_nat_32)
  have seek: "aesd_unlocked_ioctl K opened (AESDCHAR_IOCSEEKTO K) ?arg s
      = Some (0, opened\<lparr>f_pos := of_nat ?p\<rparr>)"
    using ioctl_seek[OF assms(1,4,2), of opened ?arg] fits u1 u2 by simp
  have "?p \<le> length (concat (commands s))"
    using seek_pos_le[of "map length (commands s)"] by (simp only: length_concat)
  then have p: "unat (of_nat ?p :: u64) = ?p"
    using fits by (simp add: unat_of_nat_64)
  have enter: "can_enter K (opened\<lparr>f_pos := of_nat ?p\<rparr>) s" using assms(5) by simp
  from send_driver[OF assms(4) enter assms(3) fits, of "send_ret c" 0 t] obtain pieces K' t' filp' where
    send: "send_loop (send_ret c) 0 driver_read ([], (K, t, opened\<lparr>f_pos := of_nat ?p\<rparr>, s))
        = Some (delivered (send_ret c) 0 pieces, (K', t', filp', s))"
    "0 \<notin> set (concat (commands s)) \<longrightarrow>
       concat pieces = drop (unat (f_pos (opened\<lparr>f_pos := of_nat ?p\<rparr>))) (concat (commands s))"
    "\<forall>p \<in> set pieces. length p \<le> 1993"
    by blast
  have "take 8 ?buf = take 8 IOCTL" using len by (simp add: seek_message_def)
  then show ?thesis
    using received_buf[OF c] ioctl_loop_prefix[of ?buf] rb a1 a2 seek send p
    by (intro exI[of _ pieces]) (simp add: threadFunc_def aesd_open_def opened_def[symmetric] Let_def)
qed

subsection \<open>The main loop\<close>

lemma threadFunc_recv_error:
  assumes "recv_ret c < 0"
  shows "threadFunc K t c s = None"
proof -
  have "make_holder c buf = (if malloc_ok c then Some [] else None)" for buf
    using assms by (simp add: make_holder_def)
  moreover have "atoi [] = None" "c_string [] = None" by (simp_all add: atoi_def c_string_def)
  ultimately show ?thesis
    by (simp add: threadFunc_def Let_def bind_eq_None_conv)
qed

lemma accept_round_list:
  assumes "accept_round K r srv = Some srv'"
  shows "head srv' = head srv" "created srv' = created srv + 1"
    "length (replies srv') = length (replies srv) + 1"
    "cleanShutdown srv' = (cleanShutdown srv \<or> signalled r)"
  using assms by (auto simp: accept_round_def signal_handler_def Let_def bind_eq_Some_conv split: if_splits)

subsection \<open>Properties\<close>

text \<open>A connection that receives the given bytes on a stack that is all zero, and whose sends take
  everything.\<close>

definition sample_conn :: "byte list \<Rightarrow> connection" where
  "sample_conn bs = \<lparr>recv_ret = int (length bs), recv_bytes = bs, stack = replicate 1994 0,
                     malloc_ok = True, fopen_ok = True, send_ret = (\<lambda>i n. int n)\<rparr>"

lemma sample_received:
  "length bs \<le> 1993 \<Longrightarrow> received (sample_conn bs) bs"
  "length bs \<le> 1993 \<Longrightarrow> terminated (sample_conn bs)"
  "sends_all (sample_conn bs)"
  by (simp_all add: received_def terminated_def behind_def sends_all_def sample_conn_def)

lemma can_enter_opened [simp]: "can_enter sample_kernel opened fresh_state"
    "can_enter sample_kernel opened busy_state"
  by (simp_all add: can_enter_def opened_def busy_state_def fresh_state_def zero_dev_def)

lemma sample_line:
  "\<not> alloc_fails sample_kernel fresh_state [0x68, 0x69, 10]"
  "spec_write [0x68, 0x69, 10] (abs_dev fresh_state) = ([[0x68, 0x69, 10]], [])"
  "received (sample_conn [0x68, 0x69, 10]) [0x68, 0x69, 10]"
  "terminated (sample_conn [0x68, 0x69, 10])"
  "take 8 ([0x68, 0x69, 10] @ xs) \<noteq> take 8 IOCTL"
proof -
  show "\<not> alloc_fails sample_kernel fresh_state [0x68, 0x69, 10]"
    by (simp add: alloc_fails_def store_fails_def sample_kernel_def sample_kmalloc_def heap_slots_def
        fresh_state_def pending_def zero_dev_def)
  show "spec_write [0x68, 0x69, 10] (abs_dev fresh_state) = ([[0x68, 0x69, 10]], [])"
    by (simp add: spec_write_def abs_dev_def kept_bytes_def)
  show "received (sample_conn [0x68, 0x69, 10]) [0x68, 0x69, 10]"
    by (rule sample_received(1)) simp
  show "terminated (sample_conn [0x68, 0x69, 10])" by (rule sample_received(2)) simp
  show "take 8 ([0x68, 0x69, 10] @ xs) \<noteq> take 8 IOCTL"
    by (simp add: IOCTL_def)
qed

lemma sample_echo:
  "\<exists>sent s'. threadFunc sample_kernel t (sample_conn [0x68, 0x69, 10]) fresh_state = Some (sent, s')"
  using threadFunc_line[of sample_kernel fresh_state "sample_conn [0x68, 0x69, 10]" "[0x68, 0x69, 10]" t]
    sample_line by auto

text \<open>A client that sends bytes that are not a seek command (no zero byte among them, a
  zero byte behind them on the stack) has them written to the device, and is sent every byte the
  device then stores, from the start, in one pass that ends and in pieces of at most 1993 bytes.\<close>

theorem connection_stores_and_echoes:
  assumes "kernel_ok K" "copy_from_user K = 0" "copy_to_user K = 0" "dev_inv s" "can_enter K opened s"
    and "received c bytes" "0 \<notin> set bytes" "bytes \<noteq> []" "terminated c"
    and "take 8 (bytes @ drop (length bytes) (stack c)) \<noteq> take 8 IOCTL"
    and "length (pending s) < 2 ^ 62" "length (concat (commands s)) < 2 ^ 61"
    and "\<not> alloc_fails K s bytes"
  shows "\<exists>pieces s'. threadFunc K t c s = Some (delivered (send_ret c) 0 pieces, s') \<and> dev_inv s'
    \<and> abs_dev s' = spec_write bytes (abs_dev s)
    \<and> (0 \<notin> set (concat (commands s')) \<longrightarrow> concat pieces = concat (commands s'))
    \<and> (\<forall>p \<in> set pieces. length p \<le> 1993)"
  using threadFunc_line[OF assms, of t] by blast

theorem connection_stores_and_echoes_witness:
  "\<exists>sent s'. threadFunc sample_kernel 1 (sample_conn [0x68, 0x69, 10]) fresh_state = Some (sent, s')
    \<and> commands s' = [[0x68, 0x69, 10]] \<and> concat sent = [0x68, 0x69, 10]"
  using connection_stores_and_echoes[of sample_kernel fresh_state "sample_conn [0x68, 0x69, 10]"
      "[0x68, 0x69, 10]" 1] sample_line delivered_all[OF sample_received(3), of "[0x68, 0x69, 10]"]
  by (auto simp: abs_dev_def)

text \<open>If the byte behind such a message happens not to be zero, the copy the server makes of it is
  no string, and the call that writes it to the device reads past its end.\<close>

theorem unterminated_message_undefined:
  assumes "received c bytes" "0 \<notin> set bytes" "\<not> terminated c"
    and "take 8 (bytes @ drop (length bytes) (stack c)) \<noteq> take 8 IOCTL"
  shows "threadFunc K t c s = None"
  using threadFunc_unterminated[OF assms] .

theorem unterminated_message_undefined_witness:
  "threadFunc sample_kernel 1 ((sample_conn [0x68, 10])\<lparr>stack := replicate 1994 0x78\<rparr>) fresh_state = None"
proof -
  let ?c = "(sample_conn [0x68, 10])\<lparr>stack := replicate 1994 0x78\<rparr>"
  have "received ?c [0x68, 10]" "\<not> terminated ?c"
    by (simp_all add: received_def terminated_def behind_def sample_conn_def)
  then show ?thesis
    using unterminated_message_undefined[of ?c "[0x68, 10]"] by (simp add: IOCTL_def)
qed

text \<open>What \<open>send\<close> did not take is not sent again: the client gets the bytes each call took, and the
  loop goes on with the next piece. A client whose sends fail gets nothing, while its line is
  stored.\<close>

theorem failed_sends_lose_data:
  assumes "kernel_ok K" "copy_from_user K = 0" "copy_to_user K = 0" "dev_inv s" "can_enter K opened s"
    and "received c bytes" "0 \<notin> set bytes" "bytes \<noteq> []" "terminated c"
    and "take 8 (bytes @ drop (length bytes) (stack c)) \<noteq> take 8 IOCTL"
    and "length (pending s) < 2 ^ 62" "length (concat (commands s)) < 2 ^ 61"
    and "\<not> alloc_fails K s bytes" and "send_ret c = (\<lambda>i n. - 1)"
  shows "\<exists>sent s'. threadFunc K t c s = Some (sent, s') \<and> concat sent = []
    \<and> abs_dev s' = spec_write bytes (abs_dev s)"
proof -
  have "concat (delivered (\<lambda>i n. - 1) i ps) = []" for i ps
    by (induction ps arbitrary: i) (simp_all add: taken_def)
  then show ?thesis
    using threadFunc_line[OF assms(1-13), of t] assms(14) by auto
qed

theorem failed_sends_lose_data_witness:
  "\<exists>sent s'. threadFunc sample_kernel 1 ((sample_conn [0x68, 0x69, 10])\<lparr>send_ret := \<lambda>i n. - 1\<rparr>) fresh_state
      = Some (sent, s') \<and> concat sent = [] \<and> commands s' = [[0x68, 0x69, 10]]"
proof -
  let ?c = "(sample_conn [0x68, 0x69, 10])\<lparr>send_ret := \<lambda>i n. - 1\<rparr>"
  have "received ?c [0x68, 0x69, 10]" "terminated ?c"
    using sample_line(3,4) by (simp_all add: received_def terminated_def behind_def)
  then show ?thesis
    using failed_sends_lose_data[of sample_kernel fresh_state ?c "[0x68, 0x69, 10]" 1] sample_line
    by (auto simp: abs_dev_def)
qed

text \<open>Property C26: a client that sends \<open>AESDCHAR_IOCSEEKTO:\<close>, a digit, a comma and a number below
  \<open>2 ^ 31\<close>, followed by something that is not a digit, is sent the device's bytes from that offset
  of that command on (from the start of the command if the offset is beyond it, nothing if there is
  no such command), in pieces of at most 1993 bytes, one \<open>send\<close> for each: it gets what the calls
  took, which is everything if they take everything. Nothing is stored. If the message ends with
  the number, what follows it is the byte of the buffer behind the message; the device must hold
  no zero byte.\<close>

theorem connection_seeks_and_sends:
  assumes "kernel_ok K" "copy_from_user K = 0" "copy_to_user K = 0" "dev_inv s" "can_enter K opened s"
    and "received c (seek_message d ys zs)"
    and "is_digit d" "ys \<noteq> []" "\<forall>y \<in> set ys. is_digit y" "dec_value ys < 2 ^ 31"
      "\<not> is_digit (List.hd (zs @ [behind c]))"
    and "length (concat (commands s)) < 2 ^ 63" "0 \<notin> set (concat (commands s))"
  shows "\<exists>pieces. threadFunc K t c s = Some (delivered (send_ret c) 0 pieces, s)
    \<and> concat pieces = drop (seek_pos (map length (commands s)) (unat d - 48) (nat (dec_value ys)))
                       (concat (commands s))
    \<and> (\<forall>p \<in> set pieces. length p \<le> 1993)
    \<and> (sends_all c \<longrightarrow> delivered (send_ret c) 0 pieces = pieces)"
  using threadFunc_seek[OF assms(1-12), of t] assms(13) delivered_all[of c] by blast

text \<open>The message ends with a line feed and is followed by a byte \<open>x\<close> on the stack.\<close>

theorem connection_seeks_and_sends_witness:
  "\<exists>sent. threadFunc sample_kernel 1 ((sample_conn (seek_message 49 [50] [10]))
      \<lparr>stack := replicate 1994 0x78\<rparr>) busy_state = Some (sent, busy_state)
    \<and> concat sent = [0x6F, 10]"
proof -
  let ?c = "(sample_conn (seek_message 49 [50] [10]))\<lparr>stack := replicate 1994 0x78\<rparr>"
  have "received ?c (seek_message 49 [50] [10])" "sends_all ?c"
    by (simp_all add: received_def sends_all_def sample_conn_def seek_message_def IOCTL_def)
  then show ?thesis
    using connection_seeks_and_sends[of sample_kernel busy_state ?c 49 "[50]" "[10]" 1]
    by (auto simp: dec_value_def seek_pos_def)
qed

text \<open>The command is recognised by its first eight characters only, since \<open>sizeof\<close> is
  applied to a pointer: no message that starts with \<open>AESDCHAR\<close> ever reaches the device as data.\<close>

theorem prefix_is_never_stored:
  assumes "dev_inv s" "can_enter K opened s" "copy_to_user K = 0" "length (concat (commands s)) < 2 ^ 63"
    and "take 8 (recv_bytes c) = take 8 IOCTL"
    and "threadFunc K t c s = Some (sent, s')"
  shows "s' = s"
proof -
  let ?buf = "recv_bytes c @ drop (length (recv_bytes c)) (stack c)"
  have len: "8 \<le> length (recv_bytes c)"
    using arg_cong[OF assms(5), of length] by (simp add: IOCTL_def)
  then have "ioctl_loop ?buf 8 0 False = Some True"
    using ioctl_loop_prefix[of ?buf] assms(5) by simp
  then obtain arg r filp d where run: "aesd_unlocked_ioctl K opened (AESDCHAR_IOCSEEKTO K) arg s = Some (r, filp)"
      "send_loop (send_ret c) 0 driver_read ([], (K, t, filp, s)) = Some (sent, d)" "s' = snd (snd (snd d))"
    using assms(6) by (auto simp: threadFunc_def aesd_open_def opened_def[symmetric] Let_def
        bind_eq_Some_conv split: if_splits)
  have "private_data filp = private_data opened"
    using run(1) by (auto simp: aesd_unlocked_ioctl_def bind_eq_Some_conv split: if_splits)
  then have "can_enter K filp s" using assms(2) by (simp add: can_enter_def)
  from send_driver[OF assms(1) this assms(3,4), of "send_ret c" 0 t] run(2,3) show ?thesis by auto
qed

theorem prefix_is_never_stored_witness:
  "\<exists>sent. threadFunc sample_kernel 1 (sample_conn (seek_message 49 [50] [])) busy_state = Some (sent, busy_state)"
proof -
  have r: "received (sample_conn (seek_message 49 [50] [])) (seek_message 49 [50] [])"
    by (rule sample_received(1)) (simp add: seek_message_def IOCTL_def)
  obtain sent s' where run: "threadFunc sample_kernel 1 (sample_conn (seek_message 49 [50] [])) busy_state
      = Some (sent, s')"
    using threadFunc_seek[OF _ _ _ _ _ r, of sample_kernel busy_state 1] sample_received(2)
    by (auto simp: dec_value_def behind_def sample_conn_def seek_message_def IOCTL_def)
  have "take 8 (recv_bytes (sample_conn (seek_message 49 [50] []))) = take 8 IOCTL"
    by (simp add: sample_conn_def seek_message_def IOCTL_def)
  then show ?thesis
    using prefix_is_never_stored[OF _ _ _ _ _ run] run by simp
qed

text \<open>A connection whose \<open>recv\<close> fails is not dropped: its thread reads an empty heap
  block as a string, which is undefined; and since a failed \<open>accept\<close> still starts a thread (on
  socket \<open>-1\<close>), the failed \<open>accept\<close> of a shutdown has no defined outcome either.\<close>

theorem failed_receive_undefined:
  "(recv_ret c < 0 \<longrightarrow> threadFunc K t c s = None)
   \<and> (accept_ret r < 0 \<longrightarrow> accept_round K r srv = None)"
  using threadFunc_recv_error[of "(conn r)\<lparr>recv_ret := - 1, recv_bytes := []\<rparr>"]
  by (auto simp: threadFunc_recv_error accept_round_def Let_def)

theorem failed_receive_undefined_witness:
  "threadFunc sample_kernel 1 ((sample_conn [])\<lparr>recv_ret := - 1\<rparr>) fresh_state = None"
  using failed_receive_undefined[of "(sample_conn [])\<lparr>recv_ret := - 1\<rparr>"] by simp

text \<open>Every pass of the main loop joins the thread it has just created and empties the
  list again, so at most one connection is served at a time, each is answered once and in order,
  and no round starts after the shutdown flag is set.\<close>

theorem connections_are_serialised:
  assumes "server_main rs srv = Some srv'" "head srv = []" "length (replies srv) = created srv"
  shows "head srv' = [] \<and> length (replies srv') = created srv'
    \<and> created srv' \<le> created srv + length rs
    \<and> (cleanShutdown srv \<longrightarrow> created srv' = created srv \<and> device srv' = device srv)"
  using assms
proof (induction rs srv rule: server_main.induct)
  case (1 srv)
  then show ?case by simp
next
  case (2 K r rs srv)
  show ?case
  proof (cases "cleanShutdown srv")
    case True
    then show ?thesis using 2(2-4) by auto
  next
    case False
    then obtain srv1 where s1: "accept_round K r srv = Some srv1" "server_main rs srv1 = Some srv'"
      using 2(2) by (auto simp: bind_eq_Some_conv)
    note a = accept_round_list[OF s1(1)]
    show ?thesis using 2(1)[OF False s1] a 2(3,4) False by simp
  qed
qed

theorem connections_are_serialised_witness:
  "\<exists>srv'. server_main
      [(sample_kernel, \<lparr>accept_ret = 4, conn = sample_conn [0x68, 0x69, 10], node_ok = True,
                        thread_ok = True, signalled = True\<rparr>),
       (sample_kernel, \<lparr>accept_ret = 4, conn = sample_conn [0x68, 0x69, 10], node_ok = True,
                        thread_ok = True, signalled = False\<rparr>)]
      \<lparr>cleanShutdown = False, listening = True, head = [], created = 0,
       replies = [], device = fresh_state\<rparr> = Some srv'
    \<and> head srv' = [] \<and> length (replies srv') = created srv'"
proof -
  obtain sent s' where run: "threadFunc sample_kernel 0 (sample_conn [0x68, 0x69, 10]) fresh_state = Some (sent, s')"
    using sample_echo by blast
  let ?srv = "\<lparr>cleanShutdown = False, listening = True, head = [], created = 0,
      replies = [], device = fresh_state\<rparr>"
  let ?r = "\<lparr>accept_ret = 4, conn = sample_conn [0x68, 0x69, 10], node_ok = True, thread_ok = True,
      signalled = True\<rparr>"
  let ?rs = "[(sample_kernel, ?r), (sample_kernel, ?r\<lparr>signalled := False\<rparr>)]"
  have "server_main ?rs ?srv \<noteq> None"
    using run by (simp add: accept_round_def signal_handler_def Let_def)
  then show ?thesis
    using connections_are_serialised[of ?rs ?srv] by auto
qed

end
