(* ===== verification/Server_Process.thy ===== *)
theory Server_Process
  imports Aesd_Socket
begin

section \<open>The process of the socket server\<close>

text \<open>
  The rest of \<^verbatim>\<open>src/server/aesdsocket.c\<close>: what \<open>main\<close> does before and after its loop, and the
  thread that formats the time. The calls that \<open>main\<close> makes are listed in order; what \<open>socket\<close>,
  \<open>bind\<close> and \<open>pthread_create\<close> answer is an input, and the answers that \<open>main\<close> ignores are left out.
  \<open>strftime\<close> is modelled for the conversions used, in the C locale.
\<close>

subsection \<open>Start and end\<close>

datatype os_call =
    Daemon
  | Socket
  | Log "byte list"
  | Setsockopt int
  | Bind int nat
  | Signal_handlers
  | Create_timestamp
  | Close int
  | Cancel_timestamp
  | Join_timestamp
  | Remove_output
  | Exit int

record startup =
  socket_ret :: int
  bind_ret :: int
  timestamp_ok :: bool

abbreviation (input) PORT :: nat where "PORT \<equiv> 9000"

definition main_setup :: "byte list list \<Rightarrow> startup \<Rightarrow> os_call list" where
  "main_setup argv st =
     (if length argv = 2 \<and> argv ! 1 = str ''-d'' then [Daemon] else [])
     @ [Socket] @ (if socket_ret st < 0 then [Log (str ''Error creating socket server'')] else [])
     @ [Setsockopt (socket_ret st), Bind (socket_ret st) PORT]
     @ (if bind_ret st < 0 then [Log (str ''Error with bind'')] else [])
     @ [Signal_handlers, Create_timestamp]"

text \<open>Cancelling a thread that could not be created has no value.\<close>

definition main_shutdown :: "startup \<Rightarrow> os_call list option" where
  "main_shutdown st =
     (if timestamp_ok st then Some [Close (socket_ret st), Cancel_timestamp, Join_timestamp, Remove_output, Exit 0]
      else None)"

text \<open>
  The whole of \<open>main\<close>, for the rounds given; it ends only when the flag is set. The result is the
  calls made outside the loop and the state of the server at the exit.
\<close>

definition aesdsocket_main ::
  "byte list list \<Rightarrow> startup \<Rightarrow> (kernel \<times> round) list \<Rightarrow> kstate \<Rightarrow> (os_call list \<times> server) option" where
  "aesdsocket_main argv st rounds dev = do {
     let before = main_setup argv st;
     srv \<leftarrow> server_main rounds \<lparr>cleanShutdown = False, listening = True, head = [], created = 0,
             replies = [], device = dev\<rparr>;
     if cleanShutdown srv then do {
       after \<leftarrow> main_shutdown st;
       Some (before @ after, srv)
     } else None
   }"

subsection \<open>The time stamps\<close>

record tm =
  tm_sec :: nat
  tm_min :: nat
  tm_hour :: nat
  tm_mday :: nat
  tm_mon :: nat
  tm_year :: nat
  tm_wday :: nat
  tm_gmtoff_minutes :: int

definition two_digits :: "nat \<Rightarrow> byte list" where
  "two_digits n = [of_nat (48 + n div 10 mod 10), of_nat (48 + n mod 10)]"

definition abbreviated :: "byte list list \<Rightarrow> nat \<Rightarrow> byte list" where
  "abbreviated names i = (if i < length names then names ! i else str ''?'')"

definition week_days :: "byte list list" where
  "week_days = map str [''Sun'', ''Mon'', ''Tue'', ''Wed'', ''Thu'', ''Fri'', ''Sat'']"

definition months :: "byte list list" where
  "months = map str [''Jan'', ''Feb'', ''Mar'', ''Apr'', ''May'', ''Jun'', ''Jul'', ''Aug'', ''Sep'', ''Oct'', ''Nov'', ''Dec'']"

text \<open>\<open>"timestamp:%a, %d %b %y %T %z\n"\<close>.\<close>

definition timestamp_text :: "tm \<Rightarrow> byte list" where
  "timestamp_text t =
     str ''timestamp:'' @ abbreviated week_days (tm_wday t) @ str '', '' @ two_digits (tm_mday t) @ str '' ''
     @ abbreviated months (tm_mon t) @ str '' '' @ two_digits (tm_year t mod 100) @ str '' ''
     @ two_digits (tm_hour t) @ str '':'' @ two_digits (tm_min t) @ str '':'' @ two_digits (tm_sec t) @ str '' ''
     @ (if tm_gmtoff_minutes t < 0 then str ''-'' else str ''+'')
     @ two_digits (nat \<bar>tm_gmtoff_minutes t\<bar> div 60) @ two_digits (nat \<bar>tm_gmtoff_minutes t\<bar> mod 60) @ [10]"

text \<open>\<open>strftime\<close> stores the text only if it fits with its terminator, and otherwise answers 0.\<close>

definition timestamp_strftime :: "nat \<Rightarrow> tm \<Rightarrow> byte list option" where
  "timestamp_strftime max_size t = (if length (timestamp_text t) < max_size then Some (timestamp_text t @ [0]) else None)"

text \<open>
  A pass of the thread: the value of the flag before it and the local time after the sleep; \<open>NULL\<close>
  from \<open>localtime\<close> has no value. What is formatted is not used. The thread returns when it finds the
  flag set, unless it is cancelled before.
\<close>

fun timestamp :: "(bool \<times> tm option) list \<Rightarrow> byte list option list option" where
  "timestamp [] = Some []"
| "timestamp ((flag, time) # passes) =
     (if flag then Some []
      else case time of
        None \<Rightarrow> None
      | Some t \<Rightarrow> do {
          bufs \<leftarrow> timestamp passes;
          Some (timestamp_strftime 94 t # bufs)
        })"

subsection \<open>Lemmas\<close>

lemma length_abbreviated: "\<forall>s \<in> set names. length s = 3 \<Longrightarrow> length (abbreviated names i) \<le> 3"
  by (auto simp: abbreviated_def str_def)

text \<open>The buffer of 94 bytes is large enough for every time.\<close>

lemma timestamp_fits: "length (timestamp_text t) \<le> 40"
proof -
  have "length (abbreviated week_days i) \<le> 3" "length (abbreviated months i) \<le> 3" for i
    by (rule length_abbreviated, simp add: week_days_def months_def str_def)+
  from this(1)[of "tm_wday t"] this(2)[of "tm_mon t"] show ?thesis
    by (simp add: timestamp_text_def two_digits_def str_def)
qed

lemma timestamp_defined:
  assumes "\<forall>(flag, time) \<in> set passes. time \<noteq> None"
  shows "\<exists>bufs. timestamp passes = Some bufs \<and> None \<notin> set bufs"
  using assms
proof (induction passes rule: timestamp.induct)
  case (2 flag time passes)
  have "length (timestamp_text t) < 94" for t using timestamp_fits[of t] by simp
  then show ?case using 2 by (auto simp: timestamp_strftime_def)
qed simp

text \<open>The loop ends in the pass in which the signal arrives, and no \<open>accept\<close> has failed.\<close>

lemma server_main_rounds:
  assumes "server_main rs srv = Some srv'" "\<not> cleanShutdown srv" "cleanShutdown srv'"
  shows "\<exists>n < length rs. created srv' = created srv + Suc n
    \<and> (\<forall>i \<le> n. (signalled (snd (rs ! i)) \<longleftrightarrow> i = n) \<and> 0 \<le> accept_ret (snd (rs ! i)))"
  using assms
proof (induction rs srv rule: server_main.induct)
  case (2 K r rs srv)
  then obtain srv1 where s: "accept_round K r srv = Some srv1" "server_main rs srv1 = Some srv'"
    by (auto split: bind_splits)
  note a = accept_round_list[OF s(1)]
  have accepted: "0 \<le> accept_ret r" using failed_receive_undefined[where r = r and K = K and srv = srv] s(1) by (cases "accept_ret r < 0") auto
  show ?case
  proof (cases "signalled r")
    case True
    then have "cleanShutdown srv1" using a(4) by simp
    then have "created srv' = created srv1" using s(2) by (cases "(rs, srv1)" rule: server_main.cases) auto
    then show ?thesis using True a(2) accepted by (intro exI[of _ 0]) simp
  next
    case False
    then obtain n where n: "n < length rs" "created srv' = created srv1 + Suc n"
        "\<forall>i \<le> n. (signalled (snd (rs ! i)) \<longleftrightarrow> i = n) \<and> 0 \<le> accept_ret (snd (rs ! i))"
      using 2(1)[OF 2(3) s] a(4) 2(3,4) by auto
    have "(signalled (snd (((K, r) # rs) ! i)) \<longleftrightarrow> i = Suc n) \<and> 0 \<le> accept_ret (snd (((K, r) # rs) ! i))"
      if "i \<le> Suc n" for i
      using n(3) that False accepted by (cases i) auto
    then show ?thesis using n(1,2) a(2) by (intro exI[of _ "Suc n"]) auto
  qed
qed auto

subsection \<open>Properties\<close>

text \<open>Property C14: the process ends only in the pass of its loop in which a signal arrives, with status
  0, after it has answered every connection accepted till then, exactly one per pass; it does not
  end properly if an \<open>accept\<close> failed. Errors of \<open>socket\<close> and \<open>bind\<close> are logged and never stop it.\<close>

theorem server_ends_with_signal:
  assumes "aesdsocket_main argv st rounds dev = Some (calls, srv)"
  shows "\<exists>n < length rounds. created srv = Suc n \<and> length (replies srv) = Suc n \<and> head srv = []
    \<and> (\<forall>i \<le> n. (signalled (snd (rounds ! i)) \<longleftrightarrow> i = n) \<and> 0 \<le> accept_ret (snd (rounds ! i)))
    \<and> calls = main_setup argv st @ [Close (socket_ret st), Cancel_timestamp, Join_timestamp, Remove_output, Exit 0]
    \<and> (\<forall>s b. main_setup argv (st\<lparr>socket_ret := s, bind_ret := b\<rparr>) =
         (if length argv = 2 \<and> argv ! 1 = str ''-d'' then [Daemon] else []) @ [Socket]
         @ (if s < 0 then [Log (str ''Error creating socket server'')] else []) @ [Setsockopt s, Bind s PORT]
         @ (if b < 0 then [Log (str ''Error with bind'')] else []) @ [Signal_handlers, Create_timestamp])"
proof -
  let ?srv = "\<lparr>cleanShutdown = False, listening = True, head = [], created = 0, replies = [], device = dev\<rparr>"
  have run: "server_main rounds ?srv = Some srv" "cleanShutdown srv" "timestamp_ok st"
      "calls = main_setup argv st @ [Close (socket_ret st), Cancel_timestamp, Join_timestamp, Remove_output, Exit 0]"
    using assms by (auto simp: aesdsocket_main_def main_shutdown_def split: bind_splits if_splits)
  have "head srv = []" "length (replies srv) = created srv"
    using connections_are_serialised[OF run(1)] by simp_all
  then show ?thesis using server_main_rounds[OF run(1) _ run(2)] run(4) by (simp add: main_setup_def)
qed

theorem server_ends_with_signal_witness:
  "\<exists>srv. aesdsocket_main [str ''aesdsocket'', str ''-d''] \<lparr>socket_ret = 3, bind_ret = - 1, timestamp_ok = True\<rparr>
      [(sample_kernel, \<lparr>accept_ret = 4, conn = sample_conn [0x68, 0x69, 10], node_ok = True,
                        thread_ok = True, signalled = True\<rparr>)] fresh_state
      = Some ([Daemon, Socket, Setsockopt 3, Bind 3 9000, Log (str ''Error with bind''), Signal_handlers, Create_timestamp,
               Close 3, Cancel_timestamp, Join_timestamp, Remove_output, Exit 0], srv)
    \<and> length (replies srv) = 1"
proof -
  let ?argv = "[str ''aesdsocket'', str ''-d'']" and ?st = "\<lparr>socket_ret = 3, bind_ret = - 1, timestamp_ok = True\<rparr>"
  let ?rs = "[(sample_kernel, \<lparr>accept_ret = 4, conn = sample_conn [0x68, 0x69, 10], node_ok = True,
                        thread_ok = True, signalled = True\<rparr>)]"
  obtain sent s' where "threadFunc sample_kernel 0 (sample_conn [0x68, 0x69, 10]) fresh_state = Some (sent, s')"
    using sample_echo by blast
  then obtain calls srv where run: "aesdsocket_main ?argv ?st ?rs fresh_state = Some (calls, srv)"
    by (simp add: aesdsocket_main_def main_shutdown_def accept_round_def signal_handler_def Let_def)
  have "calls = main_setup ?argv ?st @ [Close 3, Cancel_timestamp, Join_timestamp, Remove_output, Exit 0]"
      "length (replies srv) = 1"
    using server_ends_with_signal[OF run] by auto
  then show ?thesis using run by (simp add: main_setup_def)
qed

end
