(* ===== verification/Server_History.thy ===== *)
theory Server_History
  imports Server_Process
begin

section \<open>The server over its whole life\<close>

text \<open>
  The server, the driver and the circular buffer together: clients that each send one line, from
  the start of the process on a freshly loaded driver to its exit. The theory adds no model of
  code; its lemmas join \<open>Aesd_Socket\<close>, \<open>Server_Process\<close> and \<open>Driver_Properties\<close>.
\<close>

subsection \<open>Clients\<close>

text \<open>A pass of the loop in which a client connects and sends the line \<open>l\<close>: at most 1993 bytes,
  none of them zero, not starting with \<open>AESDCHAR\<close>. Nothing goes wrong but, possibly, an allocation
  in the driver or a \<open>send\<close>; what the stack holds behind the received bytes is left open.\<close>

definition line_client :: "kernel \<times> round \<Rightarrow> byte list \<Rightarrow> bool" where
  "line_client Kr l \<longleftrightarrow>
     kernel_ok (fst Kr) \<and> mutex_lock_interruptible (fst Kr) = 0
     \<and> copy_from_user (fst Kr) = 0 \<and> copy_to_user (fst Kr) = 0
     \<and> 0 \<le> accept_ret (snd Kr) \<and> node_ok (snd Kr) \<and> thread_ok (snd Kr)
     \<and> received (conn (snd Kr)) l \<and> 0 \<notin> set l \<and> newline \<in> set l
     \<and> take 8 l \<noteq> take 8 IOCTL"

text \<open>What the client of a pass gets when the given pieces are sent to it.\<close>

definition reply_of :: "kernel \<times> round \<Rightarrow> byte list list \<Rightarrow> byte list list" where
  "reply_of Kr pieces = delivered (send_ret (conn (snd Kr))) 0 pieces"

text \<open>A line that is shorter than the command's prefix does not match it, whatever follows: it holds a
  line feed.\<close>

lemma line_not_command:
  assumes "newline \<in> set l" "take 8 l \<noteq> take 8 IOCTL"
  shows "take 8 (l @ xs) \<noteq> take 8 IOCTL"
proof (cases "8 \<le> length l")
  case True
  then show ?thesis using assms(2) by simp
next
  case False
  then have "newline \<in> set (take 8 (l @ xs))" using assms(1) by simp
  moreover have "newline \<notin> set (take 8 IOCTL)" by (simp add: IOCTL_def)
  ultimately show ?thesis by metis
qed

text \<open>The state in which \<open>main\<close> enters its loop.\<close>

definition server_start :: "kstate \<Rightarrow> server" where
  "server_start dev = \<lparr>cleanShutdown = False, listening = True, head = [], created = 0,
     replies = [], device = dev\<rparr>"

text \<open>No pass finds the driver without the memory it needs for the line.\<close>

definition memory_suffices :: "(kernel \<times> round) list \<Rightarrow> byte list list \<Rightarrow> server \<Rightarrow> bool" where
  "memory_suffices rounds ls srv \<longleftrightarrow>
     (\<forall>i < length rounds. \<forall>srv'. server_main (take i rounds) srv = Some srv' \<longrightarrow>
        \<not> alloc_fails (fst (rounds ! i)) (device srv') (ls ! i))"

subsection \<open>One client\<close>

lemma length_concat_lines:
  assumes "\<forall>l \<in> set ls. length l \<le> (m::nat)" "length ls \<le> n"
  shows "length (concat ls) \<le> n * m"
proof -
  have "length (concat ls) \<le> length ls * m"
    using assms(1) by (induction ls) auto
  then show ?thesis using mult_le_mono1[OF assms(2), of m] by linarith
qed

definition holds_lines :: "kstate \<Rightarrow> byte list list \<Rightarrow> bool" where
  "holds_lines s cs \<longleftrightarrow> dev_inv s \<and> lock (aesd_device s) = None \<and> abs_dev s = (cs, [])
     \<and> length cs \<le> 10 \<and> (\<forall>l \<in> set cs. length l \<le> 1993 \<and> 0 \<notin> set l)"

lemma threadFunc_client:
  assumes "line_client (K, r) l" "holds_lines s cs" "\<not> alloc_fails K s l" "terminated (conn r)"
  shows "\<exists>pieces s'. threadFunc K t (conn r) s = Some (reply_of (K, r) pieces, s')
    \<and> holds_lines s' (last_n 10 (cs @ [l])) \<and> concat pieces = concat (last_n 10 (cs @ [l]))"
proof -
  have h: "dev_inv s" "lock (aesd_device s) = None" "abs_dev s = (cs, [])" "length cs \<le> 10"
      "\<forall>l \<in> set cs. length l \<le> 1993 \<and> 0 \<notin> set l"
    using assms(2) unfolding holds_lines_def by blast+
  have s: "can_enter K opened s" "commands s = cs" "pending s = []"
    using assms(1) h(2,3) by (simp_all add: line_client_def can_enter_def opened_def abs_dev_def)
  have c: "kernel_ok K" "copy_from_user K = 0" "copy_to_user K = 0" "received (conn r) l" "0 \<notin> set l"
      "newline \<in> set l" "l \<noteq> []" "take 8 (l @ drop (length l) (stack (conn r))) \<noteq> take 8 IOCTL"
    using assms(1) line_not_command[of l "drop (length l) (stack (conn r))"] by (auto simp: line_client_def)
  have "length (concat (commands s)) \<le> 10 * 1993"
    using h(4,5) s(2) length_concat_lines[of cs 1993 10] by simp
  then have fits: "length (pending s) < 2 ^ 62" "length (concat (commands s)) < 2 ^ 61"
    using s(3) by simp_all
  obtain pieces s' where run: "threadFunc K t (conn r) s = Some (reply_of (K, r) pieces, s')" "dev_inv s'"
      "lock (aesd_device s') = None" "abs_dev s' = spec_write l (abs_dev s)"
      "0 \<notin> set (concat (commands s')) \<longrightarrow> concat pieces = concat (commands s')"
    using threadFunc_line[OF c(1,2,3) h(1) s(1) c(4,5,7) assms(4) c(8) fits assms(3), of t]
    by (auto simp: reply_of_def)
  have new: "abs_dev s' = (last_n 10 (cs @ [l]), [])"
    using run(4) h(3) c(6) by (simp add: spec_write_def kept_bytes_def)
  have l: "length l \<le> 1993" using c(4) by (simp add: received_def)
  have short: "\<forall>x \<in> set (last_n 10 (cs @ [l])). length x \<le> 1993 \<and> 0 \<notin> set x"
  proof
    fix x assume "x \<in> set (last_n 10 (cs @ [l]))"
    then have "x \<in> set (cs @ [l])" using set_last_n[of 10 "cs @ [l]"] by blast
    then show "length x \<le> 1993 \<and> 0 \<notin> set x" using h(5) c(5) l by auto
  qed
  then have "0 \<notin> set (concat (commands s'))" using new by (auto simp: abs_dev_def)
  then have "concat pieces = concat (last_n 10 (cs @ [l]))" using run(5) new by (simp add: abs_dev_def)
  moreover have "holds_lines s' (last_n 10 (cs @ [l]))"
    using run(2,3) new short unfolding holds_lines_def by simp
  ultimately show ?thesis using run(1) by (intro exI conjI)
qed

lemma accept_round_client:
  assumes "line_client (K, r) l" "holds_lines (device srv) cs" "\<not> alloc_fails K (device srv) l"
    and "terminated (conn r)"
  shows "\<exists>srv' pieces. accept_round K r srv = Some srv'
    \<and> holds_lines (device srv') (last_n 10 (cs @ [l]))
    \<and> replies srv' = replies srv @ [reply_of (K, r) pieces] \<and> concat pieces = concat (last_n 10 (cs @ [l]))
    \<and> cleanShutdown srv' = (cleanShutdown srv \<or> signalled r)"
proof -
  have ok: "0 \<le> accept_ret r" "node_ok r" "thread_ok r" using assms(1) by (simp_all add: line_client_def)
  from threadFunc_client[OF assms, of "created srv"] obtain pieces s' where
    "threadFunc K (created srv) (conn r) (device srv) = Some (reply_of (K, r) pieces, s')"
    "holds_lines s' (last_n 10 (cs @ [l]))" "concat pieces = concat (last_n 10 (cs @ [l]))" by blast
  then show ?thesis
    using ok by (auto simp: accept_round_def signal_handler_def Let_def)
qed

lemma accept_round_unterminated:
  assumes "line_client (K, r) l" "\<not> terminated (conn r)"
  shows "accept_round K r srv = None"
proof -
  have ok: "0 \<le> accept_ret r" "received (conn r) l" "0 \<notin> set l"
      "take 8 (l @ drop (length l) (stack (conn r))) \<noteq> take 8 IOCTL"
    using assms(1) line_not_command[of l "drop (length l) (stack (conn r))"]
    by (simp_all add: line_client_def)
  then show ?thesis
    using threadFunc_unterminated[OF ok(2,3) assms(2) ok(4)]
    by (simp add: accept_round_def Let_def)
qed

subsection \<open>All of them\<close>

lemma last_n_append_last_n: "last_n n (last_n n xs @ ys) = last_n n (xs @ ys)"
proof (induction ys rule: rev_induct)
  case Nil
  show ?case by (simp add: last_n_def)
next
  case (snoc y ys)
  then show ?case by (metis append.assoc last_n_snoc_last_n)
qed

lemma memory_suffices_Cons:
  assumes "memory_suffices ((K, r) # rs) (l # ls) srv" "\<not> cleanShutdown srv"
  shows "\<not> alloc_fails K (device srv) l"
    and "accept_round K r srv = Some srv1 \<Longrightarrow> memory_suffices rs ls srv1"
proof -
  show "\<not> alloc_fails K (device srv) l"
    using assms(1) by (auto simp: memory_suffices_def dest: spec[of _ 0])
  show "memory_suffices rs ls srv1" if "accept_round K r srv = Some srv1"
    unfolding memory_suffices_def
  proof (intro allI impI)
    fix i srv' assume i: "i < length rs" "server_main (take i rs) srv1 = Some srv'"
    then have "server_main (take (Suc i) ((K, r) # rs)) srv = Some srv'"
      using assms(2) that by simp
    then show "\<not> alloc_fails (fst (rs ! i)) (device srv') (ls ! i)"
      using assms(1) i(1) unfolding memory_suffices_def by (metis Suc_less_eq length_Cons nth_Cons_Suc)
  qed
qed

lemma reply_all:
  "\<forall>Kr \<in> set rounds. sends_all (conn (snd Kr)) \<Longrightarrow> length pieces = length rounds \<Longrightarrow>
     map2 reply_of rounds pieces = pieces"
  by (induction rounds pieces rule: list_induct2') (simp_all add: reply_of_def delivered_all)

lemma server_main_lines:
  assumes "list_all2 line_client rounds ls" "holds_lines (device srv) cs" "memory_suffices rounds ls srv"
    and "\<not> cleanShutdown srv" "\<forall>i < length rounds. signalled (snd (rounds ! i)) \<longleftrightarrow> Suc i = length rounds"
    and "\<forall>Kr \<in> set rounds. terminated (conn (snd Kr))"
  shows "\<exists>srv' pieces. server_main rounds srv = Some srv'
    \<and> holds_lines (device srv') (last_n 10 (cs @ ls)) \<and> replies srv' = replies srv @ map2 reply_of rounds pieces
    \<and> map concat pieces = map (\<lambda>i. concat (last_n 10 (cs @ take (Suc i) ls))) [0..<length ls]
    \<and> cleanShutdown srv' = (rounds \<noteq> [])"
  using assms
proof (induction rounds ls arbitrary: srv cs rule: list_all2_induct)
  case Nil
  then have "length cs \<le> 10" by (simp add: holds_lines_def)
  then show ?case using Nil by simp
next
  case (Cons Kr rs l ls)
  obtain K r where Kr: "Kr = (K, r)" by (cases Kr)
  have zero: "terminated (conn r)" using Cons.prems(5) Kr by simp
  note mem = memory_suffices_Cons[OF Cons.prems(2)[unfolded Kr] Cons.prems(3)]
  from accept_round_client[OF Cons.hyps(1)[unfolded Kr] Cons.prems(1) mem(1) zero]
  obtain srv1 piece where one: "accept_round K r srv = Some srv1"
    "holds_lines (device srv1) (last_n 10 (cs @ [l]))" "replies srv1 = replies srv @ [reply_of Kr piece]"
    "concat piece = concat (last_n 10 (cs @ [l]))" "cleanShutdown srv1 = signalled r"
    using Cons.prems(3) Kr by auto
  have sig: "signalled r \<longleftrightarrow> rs = []" using Cons.prems(4)[rule_format, of 0] Kr by auto
  have upt: "[0..<length (l # ls)] = 0 # map Suc [0..<length ls]"
    by (simp only: length_Cons map_Suc_upt upt_conv_Cons zero_less_Suc)
  have "\<exists>srv' pieces. server_main rs srv1 = Some srv'
    \<and> holds_lines (device srv') (last_n 10 (last_n 10 (cs @ [l]) @ ls))
    \<and> replies srv' = replies srv1 @ map2 reply_of rs pieces
    \<and> map concat pieces = map (\<lambda>i. concat (last_n 10 (last_n 10 (cs @ [l]) @ take (Suc i) ls))) [0..<length ls]
    \<and> cleanShutdown srv'"
  proof (cases "rs = []")
    case True
    then have "ls = []" using Cons.hyps(2) by simp
    then show ?thesis using True one sig by (simp add: last_n_append_last_n[of _ _ "[]", simplified])
  next
    case False
    have "\<forall>i < length rs. signalled (snd (rs ! i)) \<longleftrightarrow> Suc i = length rs"
      using Cons.prems(4) by (metis Suc_less_eq length_Cons nat.inject nth_Cons_Suc)
    then show ?thesis
      using Cons.IH[OF one(2) mem(2)[OF one(1)]] one(5) sig False Cons.prems(5) by auto
  qed
  then obtain srv' pieces where rest: "server_main rs srv1 = Some srv'"
    "holds_lines (device srv') (last_n 10 (cs @ [l] @ ls))"
    "replies srv' = replies srv1 @ map2 reply_of rs pieces"
    "map concat pieces = map (\<lambda>i. concat (last_n 10 (cs @ [l] @ take (Suc i) ls))) [0..<length ls]"
    "cleanShutdown srv'"
    unfolding last_n_append_last_n append_assoc by blast
  show ?case
    using one rest Kr Cons.prems(3) unfolding upt
    by (intro exI[of _ srv'] exI[of _ "piece # pieces"]) (simp add: comp_def)
qed

text \<open>One message without a zero byte behind it, and the run has no defined outcome.\<close>

lemma server_main_unterminated:
  assumes "list_all2 line_client rounds ls" "holds_lines (device srv) cs" "memory_suffices rounds ls srv"
    and "\<not> cleanShutdown srv" "\<forall>i < length rounds. signalled (snd (rounds ! i)) \<longleftrightarrow> Suc i = length rounds"
    and "\<not> (\<forall>Kr \<in> set rounds. terminated (conn (snd Kr)))"
  shows "server_main rounds srv = None"
  using assms
proof (induction rounds ls arbitrary: srv cs rule: list_all2_induct)
  case (Cons Kr rs l ls)
  obtain K r where Kr: "Kr = (K, r)" by (cases Kr)
  note mem = memory_suffices_Cons[OF Cons.prems(2)[unfolded Kr] Cons.prems(3)]
  show ?case
  proof (cases "terminated (conn r)")
    case False
    then show ?thesis
      using accept_round_unterminated[OF Cons.hyps(1)[unfolded Kr]] Kr Cons.prems(3) by simp
  next
    case True
    then have later: "\<not> (\<forall>Kr \<in> set rs. terminated (conn (snd Kr)))" using Cons.prems(5) Kr by simp
    then have ne: "rs \<noteq> []" by auto
    from accept_round_client[OF Cons.hyps(1)[unfolded Kr] Cons.prems(1) mem(1) True]
    obtain srv1 where one: "accept_round K r srv = Some srv1"
      "holds_lines (device srv1) (last_n 10 (cs @ [l]))" "cleanShutdown srv1 = signalled r"
      using Cons.prems(3) by auto
    have "\<not> signalled r" using Cons.prems(4)[rule_format, of 0] Kr ne by auto
    moreover have "\<forall>i < length rs. signalled (snd (rs ! i)) \<longleftrightarrow> Suc i = length rs"
      using Cons.prems(4) by (metis Suc_less_eq length_Cons nat.inject nth_Cons_Suc)
    ultimately have "server_main rs srv1 = None"
      using Cons.IH[OF one(2) mem(2)[OF one(1)]] one(3) later by simp
    then show ?thesis using one(1) Kr Cons.prems(3) by simp
  qed
qed simp

text \<open>A freshly loaded driver holds no lines.\<close>

lemma loaded_holds_nothing:
  assumes "aesd_init_module R s0 = (0, dev)" "mem s0 NULL = None"
  shows "holds_lines dev []"
proof -
  have "0 \<le> alloc_chrdev_region R"
    using assms(1) by (auto simp: aesd_init_module_def Let_def split: if_splits)
  note fresh = zero_dev_inv[of dev] init_module_state[OF assms(1) this]
  then show ?thesis using assms(2) by (simp add: holds_lines_def abs_dev_def zero_dev_def)
qed

subsection \<open>Two clients\<close>

definition sample_client :: "byte list \<Rightarrow> bool \<Rightarrow> kernel \<times> round" where
  "sample_client l sig = (sample_kernel, \<lparr>accept_ret = 4, conn = sample_conn l, node_ok = True,
     thread_ok = True, signalled = sig\<rparr>)"

lemma sample_put:
  "\<exists>f S. put_and_rewind sample_kernel 0 opened [97, 10] fresh_state = Some (f, S)
    \<and> \<not> alloc_fails sample_kernel S [98, 10]"
  by (simp add: put_and_rewind_def aesd_llseek_def opened_def alloc_fails_def store_fails_def pending_def block_def
      aesd_write_def lock_dev_def unlock_dev_def set_dev_def do_kmalloc_def do_krealloc_def
      do_kfree_def heap_write_def heap_read_def scan_newline_def store_bytes_def commit_store_def
      write_end_def sample_kernel_def fresh_state_def zero_dev_def sample_kmalloc_def
      heap_slots_def aesd_circular_buffer_init_def aesd_circular_buffer_add_entry_def Let_def)

lemma sample_client_line:
  assumes "length l \<le> 1993" "0 \<notin> set l" "newline \<in> set l" "take 8 l \<noteq> take 8 IOCTL"
  shows "line_client (sample_client l sig) l"
  using assms sample_received(1)[OF assms(1)]
  by (simp add: line_client_def sample_client_def)

lemma two_sample_lines:
  "list_all2 line_client [sample_client [97, 10] False, sample_client [98, 10] True] [[97, 10], [98, 10]]"
  by (auto intro!: sample_client_line simp: IOCTL_def)

text \<open>The first client leaves the driver in the state its line was stored in, with memory to spare.\<close>

lemma two_sample_memory:
  "memory_suffices [sample_client [97, 10] False, sample_client [98, 10] True] [[97, 10], [98, 10]]
     (server_start fresh_state)"
proof -
  let ?c = "sample_conn [97, 10]"
  obtain f S where put: "put_and_rewind sample_kernel 0 opened [97, 10] fresh_state = Some (f, S)"
      "\<not> alloc_fails sample_kernel S [98, 10]"
    using sample_put by blast
  have first: "\<not> alloc_fails sample_kernel fresh_state [97, 10]"
    by (simp add: alloc_fails_def store_fails_def sample_kernel_def sample_kmalloc_def heap_slots_def
        fresh_state_def pending_def zero_dev_def)
  have lock: "lock (aesd_device fresh_state) = None" by (simp add: fresh_state_def zero_dev_def)
  obtain S' where "put_and_rewind sample_kernel 0 opened [97, 10] fresh_state = Some (opened\<lparr>f_pos := 0\<rparr>, S')"
      "write_done fresh_state [97, 10] S'"
    using put_line[of sample_kernel fresh_state opened "[97, 10]" 0] first lock by auto
  then have S: "dev_inv S" "can_enter sample_kernel f S" "length (concat (commands S)) < 2 ^ 63"
    using put(1) by (auto simp: write_done_def can_enter_def opened_def abs_dev_def spec_write_def kept_bytes_def)
  have state: "s' = S" if "threadFunc sample_kernel 0 ?c fresh_state = Some (sent, s')" for sent s'
  proof -
    have "ioctl_loop (recv_bytes ?c @ drop (length (recv_bytes ?c)) (stack ?c)) 8 0 False = Some False"
      by (subst ioctl_loop_prefix) (simp_all add: sample_conn_def IOCTL_def)
    moreover have "c_string ([97, 10] @ [0]) = Some [97, 10]" by (rule c_string_snoc) simp
    ultimately show ?thesis
      using that send_driver[OF S(1,2) _ S(3), of "\<lambda>i n. int n" 0 0] put(1)
        received_buf(1)[OF sample_received(1), of "[97, 10]"]
      by (auto simp: threadFunc_def aesd_open_def opened_def[symmetric] Let_def sample_conn_def behind_def
            split: bind_splits if_splits)
  qed
  show ?thesis
    unfolding memory_suffices_def
  proof (intro allI impI)
    fix i srv' assume "i < length [sample_client [97, 10] False, sample_client [98, 10] True]"
      and run: "server_main (take i [sample_client [97, 10] False, sample_client [98, 10] True])
        (server_start fresh_state) = Some srv'"
    then consider "i = 0" | "i = 1" by fastforce
    then show "\<not> alloc_fails (fst ([sample_client [97, 10] False, sample_client [98, 10] True] ! i))
        (device srv') ([[97, 10], [98, 10]] ! i)"
    proof cases
      case 1
      then show ?thesis using run first by (auto simp: server_start_def sample_client_def)
    next
      case 2
      then have "device srv' = S"
        using run state by (auto simp: server_start_def sample_client_def accept_round_def Let_def split: bind_splits)
      then show ?thesis using 2 put(2) by (simp add: sample_client_def)
    qed
  qed
qed

subsection \<open>Property\<close>

text \<open>Property C2: started on a freshly loaded driver, with clients that each send one line (at most 1993
  bytes, no zero byte among them, not starting with \<open>AESDCHAR\<close>), the server answers each with the
  last ten lines received up to and including its own, in order and nothing else, exits with status
  0 in the pass in which the signal arrives, and leaves the last ten lines in the device; a client
  gets of its answer what the calls of \<open>send\<close> took, which is all of it if they take all they are
  given. This needs a zero byte behind each message on the thread's stack, where the server writes
  none: if one is missing, the run has no defined outcome. The memory for each line must be there
  when it arrives.\<close>

theorem server_echoes_last_ten_lines:
  assumes "aesd_init_module R s0 = (0, dev)" "mem s0 NULL = None"
    and "rounds \<noteq> []" "list_all2 line_client rounds ls" "memory_suffices rounds ls (server_start dev)"
    and "\<forall>i < length rounds. signalled (snd (rounds ! i)) \<longleftrightarrow> Suc i = length rounds"
    and "timestamp_ok st"
  shows "if \<forall>Kr \<in> set rounds. terminated (conn (snd Kr))
    then \<exists>calls srv pieces. aesdsocket_main argv st rounds dev = Some (calls @ [Exit 0], srv)
      \<and> replies srv = map2 reply_of rounds pieces
      \<and> map concat pieces = map (\<lambda>i. concat (last_n 10 (take (Suc i) ls))) [0..<length ls]
      \<and> ((\<forall>Kr \<in> set rounds. sends_all (conn (snd Kr))) \<longrightarrow> replies srv = pieces)
      \<and> commands (device srv) = last_n 10 ls \<and> pending (device srv) = []
    else aesdsocket_main argv st rounds dev = None"
proof -
  have start: "holds_lines (device (server_start dev)) []" "\<not> cleanShutdown (server_start dev)"
      "replies (server_start dev) = []"
    using loaded_holds_nothing[OF assms(1,2)] by (simp_all add: server_start_def)
  show ?thesis
  proof (cases "\<forall>Kr \<in> set rounds. terminated (conn (snd Kr))")
    case False
    then have "server_main rounds (server_start dev) = None"
      using server_main_unterminated[OF assms(4) start(1) assms(5) start(2) assms(6)] by simp
    then show ?thesis using False by (auto simp: aesdsocket_main_def server_start_def)
  next
    case True
    from server_main_lines[OF assms(4) start(1) assms(5) start(2) assms(6) True] obtain srv pieces where
      run: "server_main rounds (server_start dev) = Some srv" "holds_lines (device srv) (last_n 10 ls)"
        "replies srv = map2 reply_of rounds pieces" "cleanShutdown srv"
        "map concat pieces = map (\<lambda>i. concat (last_n 10 (take (Suc i) ls))) [0..<length ls]"
      using start(3) assms(3) by auto
    have "aesdsocket_main argv st rounds dev = Some ((main_setup argv st
        @ [Close (socket_ret st), Cancel_timestamp, Join_timestamp, Remove_output]) @ [Exit 0], srv)"
      using run(1,4) assms(7) by (simp add: aesdsocket_main_def main_shutdown_def server_start_def)
    moreover have "commands (device srv) = last_n 10 ls" "pending (device srv) = []"
      using run(2) by (simp_all add: holds_lines_def abs_dev_def)
    moreover have "length pieces = length rounds"
      using arg_cong[OF run(5), of length] list_all2_lengthD[OF assms(4)] by simp
    then have "replies srv = pieces" if "\<forall>Kr \<in> set rounds. sends_all (conn (snd Kr))"
      using reply_all[OF that] run(3) by simp
    ultimately show ?thesis using True run(3,5) by auto
  qed
qed

theorem server_echoes_last_ten_lines_witness:
  "\<exists>calls srv. aesdsocket_main [str ''aesdsocket''] \<lparr>socket_ret = 3, bind_ret = 0, timestamp_ok = True\<rparr>
      [sample_client [97, 10] False, sample_client [98, 10] True] fresh_state = Some (calls @ [Exit 0], srv)
    \<and> map concat (replies srv) = [[97, 10], [97, 10, 98, 10]]"
proof -
  let ?R = "\<lparr>alloc_chrdev_region = 0, new_major = 250, cdev_add = 0\<rparr>"
    and ?s0 = "fresh_state\<lparr>cdev_live := False, region := False\<rparr>"
  have load: "aesd_init_module ?R ?s0 = (0, fresh_state)" "mem ?s0 NULL = None"
    by (simp_all add: aesd_init_module_def aesd_setup_cdev_def fresh_state_def)
  have sig: "\<forall>i < length [sample_client [97, 10] False, sample_client [98, 10] True].
      signalled (snd ([sample_client [97, 10] False, sample_client [98, 10] True] ! i))
      \<longleftrightarrow> Suc i = length [sample_client [97, 10] False, sample_client [98, 10] True]"
    by (simp add: sample_client_def less_Suc_eq numeral_2_eq_2)
  have "\<forall>Kr \<in> set [sample_client [97, 10] False, sample_client [98, 10] True].
      terminated (conn (snd Kr)) \<and> sends_all (conn (snd Kr))"
    using sample_received(2,3) by (simp add: sample_client_def)
  then show ?thesis
    using server_echoes_last_ten_lines[OF load _ two_sample_lines two_sample_memory sig,
        of "\<lparr>socket_ret = 3, bind_ret = 0, timestamp_ok = True\<rparr>" "[str ''aesdsocket'']"]
    by (auto simp: upt_rec)
qed

end
