(* ===== verification/Driver_Concurrency.thy ===== *)
theory Driver_Concurrency
  imports Driver_Properties
begin

section \<open>The device under concurrent calls\<close>

text \<open>
  The handlers that take the mutex, \<open>aesd_read\<close>, \<open>aesd_write\<close> and \<open>aesd_llseek\<close> of
  \<^verbatim>\<open>src/aesd-char-driver/main.c\<close>, cut into the steps between which other tasks can run: the lock,
  the accesses to the shared device, the unlock and, for a write, the release of its own block, which
  is behind the unlock. Any number of tasks make their steps in any order. A task that waits for the
  mutex has no step. The \<open>ioctl\<close> handler is left out: it reads the buffer without the mutex, and what
  it finds there during a write is not defined.
\<close>

subsection \<open>The steps of the handlers\<close>

text \<open>The points of a call, with what its local variables hold there.\<close>

datatype phase =
    Outside
  | Read_lock u64 u64
  | Read_copy u64 u64
  | Read_unlock int "byte list" u64
  | Read_done int "byte list" u64
  | Write_lock "byte list" u64
  | Write_copy "byte list" u64
  | Write_store "byte list" addr u64
  | Write_commit addr u64
  | Write_unlock addr int
  | Write_free addr int
  | Write_done int
  | Seek_lock open_file u64 int
  | Seek_set open_file u64 int
  | Seek_unlock int open_file
  | Seek_done int open_file

fun handler_step :: "kernel \<Rightarrow> task \<Rightarrow> phase \<Rightarrow> kstate \<Rightarrow> (phase \<times> kstate) option" where
  "handler_step K t (Read_lock count pos) s = do { (_, s) \<leftarrow> lock_dev K t s; Some (Read_copy count pos, s) }"
| "handler_step K t (Read_copy count pos) s = do {
     r \<leftarrow> aesd_circular_buffer_find_entry_offset_for_fpos (circular_buffer (aesd_device s)) pos;
     case r of
       None \<Rightarrow> Some (Read_unlock 0 [] pos, s)
     | Some (i, offset) \<Rightarrow> do {
         offset_in \<leftarrow> array_get (entry (circular_buffer (aesd_device s))) i;
         let read_bytes = size_e offset_in - offset;
         let read_bytes = (if count < read_bytes then count else read_bytes);
         bytes \<leftarrow> heap_read (mem s) (buffptr offset_in) (unat offset) (unat read_bytes);
         if copy_to_user K \<noteq> 0
         then Some (Read_unlock (- EFAULT) (take (length bytes - copy_to_user K) bytes) pos, s)
         else Some (Read_unlock (sint read_bytes) bytes (pos + read_bytes), s)
       }
   }"
| "handler_step K t (Read_unlock r bytes pos) s = do { s \<leftarrow> unlock_dev t s; Some (Read_done r bytes pos, s) }"
| "handler_step K t (Write_lock ubuf count) s = do { (_, s) \<leftarrow> lock_dev K t s; Some (Write_copy ubuf count, s) }"
| "handler_step K t (Write_copy ubuf count) s = do {
     let (buffer, h) = do_kmalloc K (mem s) (unat count);
     let s = s\<lparr>mem := h\<rparr>;
     if buffer = NULL then Some (Write_unlock buffer (- ENOMEM), s)
     else do {
       let left = copy_from_user K;
       h \<leftarrow> heap_write (mem s) buffer 0 (take (unat count - left) ubuf @ replicate left 0);
       let s = s\<lparr>mem := h\<rparr>;
       if left \<noteq> 0 then Some (Write_unlock buffer (- EFAULT), s) else Some (Write_store ubuf buffer count, s)
     }
   }"
| "handler_step K t (Write_store ubuf buffer count) s = do {
     bytes \<leftarrow> heap_read (mem s) buffer 0 (unat count);
     (buffer_new_line, temp) \<leftarrow> scan_newline bytes;
     (ok, s) \<leftarrow> store_bytes K buffer count buffer_new_line temp s;
     if \<not> ok then Some (Write_unlock buffer (- ENOMEM), s)
     else if temp then Some (Write_commit buffer count, s)
     else Some (Write_unlock buffer (sint count), s)
   }"
| "handler_step K t (Write_commit buffer count) s = do {
     s \<leftarrow> commit_store s;
     Some (Write_unlock buffer (sint count), s)
   }"
| "handler_step K t (Write_unlock buffer r) s = do { s \<leftarrow> unlock_dev t s; Some (Write_free buffer r, s) }"
| "handler_step K t (Write_free buffer r) s = do {
     h \<leftarrow> do_kfree (mem s) buffer;
     Some (Write_done r, s\<lparr>mem := h\<rparr>)
   }"
| "handler_step K t (Seek_lock filp off whence) s = do {
     (r, s) \<leftarrow> lock_dev K t s;
     Some (if r \<noteq> 0 then Seek_done (- ERESTARTSYS) filp else Seek_set filp off whence, s)
   }"
| "handler_step K t (Seek_set filp off whence) s =
     Some (if whence = 0 \<or> whence = 1 then
             (let newpos = (if whence = 0 then off else f_pos filp + off) in
              if sint newpos < 0 then Seek_unlock (- EINVAL) filp
              else Seek_unlock (sint newpos) (filp\<lparr>f_pos := newpos\<rparr>))
           else Seek_done (- EINVAL) filp, s)"
| "handler_step K t (Seek_unlock r filp) s = do { s \<leftarrow> unlock_dev t s; Some (Seek_done r filp, s) }"
| "handler_step K t _ s = None"

text \<open>A task that runs alone: its next \<open>n\<close> steps, up to the end of the call.\<close>

fun finished :: "phase \<Rightarrow> bool" where
  "finished Outside = True"
| "finished (Read_done r bytes pos) = True"
| "finished (Write_done r) = True"
| "finished (Seek_done r filp) = True"
| "finished _ = False"

fun run_alone :: "nat \<Rightarrow> kernel \<Rightarrow> task \<Rightarrow> phase \<Rightarrow> kstate \<Rightarrow> (phase \<times> kstate) option" where
  "run_alone 0 K t ph s = Some (ph, s)"
| "run_alone (Suc n) K t ph s =
     (if finished ph then Some (ph, s)
      else do { (ph, s) \<leftarrow> handler_step K t ph s; run_alone n K t ph s })"

text \<open>Then the steps are the handlers.\<close>

lemma read_alone:
  assumes "private_data filp \<noteq> None"
  shows "run_alone 3 K t (Read_lock count pos) s =
    map_option (\<lambda>(r, bytes, pos, s). (Read_done r bytes pos, s)) (aesd_read K t filp count pos s)"
  using assms
  by (auto simp: aesd_read_def eval_nat_numeral Let_def map_option_case
      split: option.splits bind_splits if_splits)

lemma seek_alone:
  assumes "private_data filp \<noteq> None"
  shows "run_alone 3 K t (Seek_lock filp off whence) s =
    map_option (\<lambda>(r, filp, s). (Seek_done r filp, s)) (aesd_llseek K t filp off whence s)"
  using assms
  by (auto simp: aesd_llseek_def eval_nat_numeral Let_def map_option_case
      split: option.splits bind_splits if_splits)

lemma map_option_bind_out: "map_option f (Option.bind m g) = Option.bind m (\<lambda>x. map_option f (g x))"
  by (cases m) simp_all

lemma run_alone_finished [simp]: "finished ph \<Longrightarrow> run_alone n K t ph s = Some (ph, s)"
  by (cases n) simp_all

lemma run_alone_step:
  "\<not> finished ph \<Longrightarrow> run_alone (Suc n) K t ph s = do { (ph, s) \<leftarrow> handler_step K t ph s; run_alone n K t ph s }"
  by simp

declare run_alone.simps(2) [simp del]

abbreviation write_result :: "(int \<times> kstate) option \<Rightarrow> (phase \<times> kstate) option" where
  "write_result \<equiv> map_option (\<lambda>(r, s). (Write_done r, s))"

lemma write_end_alone: "run_alone (Suc (Suc n)) K t (Write_unlock buffer r) s = write_result (write_end t buffer r s)"
  by (simp add: write_end_def map_option_bind_out run_alone_step cong: Option.bind_cong)

lemma write_commit_alone:
  "run_alone (Suc (Suc (Suc n))) K t (Write_commit buffer count) s =
     write_result (do { s \<leftarrow> commit_store s; write_end t buffer (sint count) s })"
  by (simp add: map_option_bind_out run_alone_step[of "Write_commit buffer count"] write_end_alone cong: Option.bind_cong)

lemma write_store_alone:
  "run_alone (Suc (Suc (Suc (Suc n)))) K t (Write_store ubuf buffer count) s = write_result (write_stored K t buffer count s)"
  by (auto simp: map_option_bind_out run_alone_step[of "Write_store ubuf buffer count"] write_stored_def
      write_end_alone write_commit_alone intro!: Option.bind_cong split: prod.splits)

lemma write_alone:
  assumes "private_data filp \<noteq> None"
  shows "run_alone 6 K t (Write_lock ubuf count) s = write_result (aesd_write K t filp ubuf count s)"
proof -
  have "run_alone (Suc (Suc (Suc (Suc (Suc n))))) K t (Write_copy ubuf count) s =
      write_result (do {
        let (buffer, h) = do_kmalloc K (mem s) (unat count);
        let s = s\<lparr>mem := h\<rparr>;
        if buffer = NULL then write_end t buffer (- ENOMEM) s
        else do {
          let left = copy_from_user K;
          h \<leftarrow> heap_write (mem s) buffer 0 (take (unat count - left) ubuf @ replicate left 0);
          let s = s\<lparr>mem := h\<rparr>;
          if left \<noteq> 0 then write_end t buffer (- EFAULT) s else write_stored K t buffer count s
        }
      })" for n s
    by (auto simp: map_option_bind_out run_alone_step[of "Write_copy ubuf count"] Let_def
        write_end_alone write_store_alone intro!: Option.bind_cong split: prod.splits)
  note copy = this[unfolded write_stored_def]
  show ?thesis
    using assms
    by (auto simp: copy aesd_write_def map_option_bind_out run_alone_step[of "Write_lock ubuf count"]
        eval_nat_numeral intro!: Option.bind_cong split: prod.splits option.splits)
qed

subsection \<open>Interleavings\<close>

text \<open>The calls of all tasks, the kernel state, and a record of what took effect: the reads and the
  writes that succeed, in the order in which they reach the shared device, and the seeks that end
  without releasing the mutex.\<close>

datatype dev_event =
    Read_event task u64 u64 "byte list"
  | Write_event task "byte list"
  | Kept_event task

record shared =
  calls :: "task \<Rightarrow> phase"
  kern :: kstate
  happened :: "dev_event list"

fun event_of :: "task \<Rightarrow> phase \<Rightarrow> kstate \<Rightarrow> phase \<Rightarrow> dev_event list" where
  "event_of t (Read_copy count pos) s ph =
     (case ph of Read_unlock r bytes pos' \<Rightarrow> if 0 \<le> r then [Read_event t count pos bytes] else [] | _ \<Rightarrow> [])"
| "event_of t (Write_store ubuf buffer count) s ph = [Write_event t (take (unat count) ubuf)]"
| "event_of t (Seek_set filp off whence) s ph = (if whence = 0 \<or> whence = 1 then [] else [Kept_event t])"
| "event_of t _ s ph = []"

text \<open>A call as a task may make it: a read of any count at any position, a write of 1 to \<open>INT_MAX\<close>
  bytes, a seek of any mode.\<close>

fun may_call :: "phase \<Rightarrow> bool" where
  "may_call (Read_lock count pos) = True"
| "may_call (Write_lock ubuf count) = (unat count \<le> length ubuf \<and> 0 < unat count \<and> unat count < 2 ^ 31)"
| "may_call (Seek_lock filp off whence) = True"
| "may_call _ = False"

text \<open>The kernel's answers to a step: no signal interrupts the wait for the mutex, and the block that
  keeps the bytes is granted; the writer's own block may be refused, and copies may fail. The lengths
  fit their types.\<close>

fun answers_ok :: "kernel \<Rightarrow> phase \<Rightarrow> kstate \<Rightarrow> bool" where
  "answers_ok K (Read_copy count pos) s = (length (concat (commands s)) < 2 ^ 63)"
| "answers_ok K (Write_copy ubuf count) s = (copy_from_user K \<le> unat count)"
| "answers_ok K (Write_store ubuf buffer count) s =
     (\<not> store_fails K s (take (unat count) ubuf) \<and> unat (buffer_length (aesd_device s)) + unat count < 2 ^ 64)"
| "answers_ok K ph s = True"

inductive conc_step :: "shared \<Rightarrow> shared \<Rightarrow> bool" where
  call: "finished (calls w t) \<Longrightarrow> may_call ph \<Longrightarrow> conc_step w (w\<lparr>calls := (calls w)(t := ph)\<rparr>)"
| run: "handler_step K t (calls w t) (kern w) = Some (ph, s) \<Longrightarrow>
     kernel_ok K \<Longrightarrow> mutex_lock_interruptible K = 0 \<Longrightarrow> answers_ok K (calls w t) (kern w) \<Longrightarrow>
     conc_step w (w\<lparr>calls := (calls w)(t := ph), kern := s,
                    happened := happened w @ event_of t (calls w t) (kern w) ph\<rparr>)"

inductive conc_reachable :: "shared \<Rightarrow> bool" where
  idle: "aesd_init_module R s0 = (0, s) \<Longrightarrow> mem s0 NULL = None \<Longrightarrow>
     conc_reachable \<lparr>calls = (\<lambda>t. Outside), kern = s, happened = []\<rparr>"
| moves: "conc_reachable w \<Longrightarrow> conc_step w w' \<Longrightarrow> conc_reachable w'"

subsection \<open>The invariant\<close>

text \<open>The steps between the lock and the unlock, and the block that a call owns besides those of the
  device.\<close>

fun inside :: "phase \<Rightarrow> bool" where
  "inside (Read_copy count pos) = True"
| "inside (Read_unlock r bytes pos) = True"
| "inside (Write_copy ubuf count) = True"
| "inside (Write_store ubuf buffer count) = True"
| "inside (Write_commit buffer count) = True"
| "inside (Write_unlock buffer r) = True"
| "inside (Seek_set filp off whence) = True"
| "inside (Seek_unlock r filp) = True"
| "inside _ = False"

fun own_block :: "phase \<Rightarrow> addr" where
  "own_block (Write_store ubuf buffer count) = buffer"
| "own_block (Write_commit buffer count) = buffer"
| "own_block (Write_unlock buffer r) = buffer"
| "own_block (Write_free buffer r) = buffer"
| "own_block _ = NULL"

fun phase_ok :: "phase \<Rightarrow> kstate \<Rightarrow> bool" where
  "phase_ok (Write_lock ubuf count) s = (unat count \<le> length ubuf \<and> 0 < unat count \<and> unat count < 2 ^ 31)"
| "phase_ok (Write_copy ubuf count) s = (unat count \<le> length ubuf \<and> 0 < unat count \<and> unat count < 2 ^ 31)"
| "phase_ok (Write_store ubuf buffer count) s =
     (buffer \<noteq> NULL \<and> block (mem s) buffer = take (unat count) ubuf \<and> unat count \<le> length ubuf
      \<and> 0 < unat count \<and> unat count < 2 ^ 31)"
| "phase_ok (Write_commit buffer count) s = (pending s \<noteq> [])"
| "phase_ok _ s = True"

text \<open>A block that is in use, but not by the device.\<close>

definition apart :: "kstate \<Rightarrow> addr \<Rightarrow> bool" where
  "apart s p \<longleftrightarrow> p = NULL \<or> p \<notin> owned s \<and> mem s p \<noteq> None"

definition conc_inv :: "shared \<Rightarrow> bool" where
  "conc_inv w \<longleftrightarrow> dev_inv (kern w)
     \<and> (\<forall>t. inside (calls w t) \<longrightarrow> lock (aesd_device (kern w)) = Some t)
     \<and> (\<forall>t. phase_ok (calls w t) (kern w))
     \<and> (\<forall>t. apart (kern w) (own_block (calls w t)))
     \<and> (\<forall>t u. own_block (calls w t) = own_block (calls w u) \<longrightarrow> t = u \<or> own_block (calls w t) = NULL)"

text \<open>The commands and the fragment, with a stored fragment that is not yet committed taken as
  committed.\<close>

fun committing :: "phase \<Rightarrow> bool" where
  "committing (Write_commit buffer count) = True"
| "committing _ = False"

definition view :: "shared \<Rightarrow> byte list list \<times> byte list" where
  "view w = committed (\<exists>t. committing (calls w t)) (abs_dev (kern w))"

lemma committed_False [simp]: "committed False a = a"
  by (simp add: committed_def)

lemma committing_inside: "committing ph \<Longrightarrow> inside ph"
  by (cases ph) simp_all

lemma conc_invD:
  assumes "conc_inv w"
  shows "dev_inv (kern w)" "inside (calls w t) \<Longrightarrow> lock (aesd_device (kern w)) = Some t"
    "phase_ok (calls w t) (kern w)" "apart (kern w) (own_block (calls w t))"
    "own_block (calls w t) = own_block (calls w u) \<Longrightarrow> t = u \<or> own_block (calls w t) = NULL"
  using assms by (simp_all add: conc_inv_def)

text \<open>What a step outside depends on, and the blocks of other calls.\<close>

lemma phase_ok_outside: "\<not> inside ph \<Longrightarrow> phase_ok ph s = phase_ok ph s'"
  by (cases ph) simp_all

lemma finished_simps: "finished ph \<Longrightarrow> \<not> inside ph \<and> own_block ph = NULL \<and> \<not> committing ph"
  by (cases ph) simp_all

lemma may_call_simps: "may_call ph \<Longrightarrow> \<not> inside ph \<and> own_block ph = NULL \<and> \<not> committing ph \<and> phase_ok ph s"
  by (cases ph) simp_all

lemma keeps_blocks_apart: "keeps_blocks s s' \<Longrightarrow> apart s p \<Longrightarrow> apart s' p"
  by (auto simp: keeps_blocks_def apart_def)

lemma keeps_lock [simp]: "keeps_blocks s (set_dev (\<lambda>d. d\<lparr>lock := l\<rparr>) s)"
  by (simp add: keeps_blocks_def)

text \<open>A step of the task that holds the mutex.\<close>

lemma inv_inside:
  assumes inv: "conc_inv w" and "inside (calls w t)"
    and s: "dev_inv s" "phase_ok ph s" "keeps_blocks (kern w) s" "apart s (own_block ph)"
    and own: "own_block ph = NULL \<or> own_block ph = own_block (calls w t) \<or> mem (kern w) (own_block ph) = None"
    and lock: "inside ph \<Longrightarrow> lock (aesd_device s) = Some t"
  shows "conc_inv (w\<lparr>calls := (calls w)(t := ph), kern := s, happened := es\<rparr>)"
proof -
  note I = conc_invD[OF inv]
  have held: "lock (aesd_device (kern w)) = Some t" using I(2) assms(2) by simp
  have others: "\<not> inside (calls w u)" if "u \<noteq> t" for u using I(2)[of u] held that by auto
  have "own_block (calls w u) \<noteq> own_block ph" if "u \<noteq> t" "own_block ph \<noteq> NULL" for u
    using own that I(4)[of u] I(5)[of u t] by (auto simp: apart_def)
  then show ?thesis
    using s lock others I(3) phase_ok_outside I(5) keeps_blocks_apart[OF s(3) I(4)]
    by (auto simp: conc_inv_def) metis+
qed

lemma view_inside:
  assumes inv: "conc_inv w" and "inside (calls w t)"
  shows "view w = committed (committing (calls w t)) (abs_dev (kern w))"
    and "view (w\<lparr>calls := (calls w)(t := ph), kern := s, happened := es\<rparr>) = committed (committing ph) (abs_dev s)"
proof -
  have "committing (calls w u) \<Longrightarrow> u = t" for u
    using conc_invD(2)[OF inv] assms(2) committing_inside by (metis option.inject)
  then have "(\<exists>u. committing (calls w u)) = committing (calls w t)"
      "(\<exists>u. committing (((calls w)(t := ph)) u)) = committing ph" by (metis, metis fun_upd_apply)
  then show "view w = committed (committing (calls w t)) (abs_dev (kern w))"
    "view (w\<lparr>calls := (calls w)(t := ph), kern := s, happened := es\<rparr>) = committed (committing ph) (abs_dev s)"
    by (simp_all add: view_def)
qed

text \<open>A step that takes the mutex.\<close>

lemma inv_lock:
  assumes inv: "conc_inv w" and free: "lock (aesd_device (kern w)) = None"
    and ph: "inside ph" "own_block ph = NULL" "\<not> committing ph" "phase_ok ph (kern w)"
      "phase_ok ph (set_dev (\<lambda>d. d\<lparr>lock := Some t\<rparr>) (kern w))"
  shows "conc_inv (w\<lparr>calls := (calls w)(t := ph), kern := set_dev (\<lambda>d. d\<lparr>lock := Some t\<rparr>) (kern w), happened := es\<rparr>)"
    and "view (w\<lparr>calls := (calls w)(t := ph), kern := set_dev (\<lambda>d. d\<lparr>lock := Some t\<rparr>) (kern w), happened := es\<rparr>) = view w"
proof -
  note I = conc_invD[OF inv]
  have out: "\<not> inside (calls w u)" for u using I(2)[of u] free by auto
  then have "\<not> committing (calls w u)" for u using committing_inside by blast
  then show "view (w\<lparr>calls := (calls w)(t := ph), kern := set_dev (\<lambda>d. d\<lparr>lock := Some t\<rparr>) (kern w), happened := es\<rparr>) = view w"
    using ph(3) by (simp add: view_def abs_dev_def)
  have "apart (set_dev (\<lambda>d. d\<lparr>lock := l\<rparr>) (kern w)) p = apart (kern w) p" for l p by (simp add: apart_def)
  then show "conc_inv (w\<lparr>calls := (calls w)(t := ph), kern := set_dev (\<lambda>d. d\<lparr>lock := Some t\<rparr>) (kern w), happened := es\<rparr>)"
    using I ph out phase_ok_outside[OF out] by (auto simp: conc_inv_def apart_def) metis+
qed

text \<open>A step of a task that does not hold it: a new call, or the release of the call's own block.\<close>

lemma inv_call:
  assumes inv: "conc_inv w" and "finished (calls w t)" "may_call ph"
  shows "conc_inv (w\<lparr>calls := (calls w)(t := ph)\<rparr>)" "view (w\<lparr>calls := (calls w)(t := ph)\<rparr>) = view w"
proof -
  note I = conc_invD[OF inv] and f = finished_simps[OF assms(2)] and m = may_call_simps[OF assms(3)]
  have "(\<exists>u. committing (((calls w)(t := ph)) u)) = (\<exists>u. committing (calls w u))"
    using f m by (metis fun_upd_apply)
  then show "view (w\<lparr>calls := (calls w)(t := ph)\<rparr>) = view w" by (simp add: view_def)
  show "conc_inv (w\<lparr>calls := (calls w)(t := ph)\<rparr>)"
    using I f m by (auto simp: conc_inv_def apart_def)
qed

lemma inv_free:
  assumes inv: "conc_inv w" and ph: "calls w t = Write_free buffer r"
    and run: "handler_step K t (calls w t) (kern w) = Some (ph', s)"
  shows "conc_inv (w\<lparr>calls := (calls w)(t := ph'), kern := s, happened := es\<rparr>)"
    and "view (w\<lparr>calls := (calls w)(t := ph'), kern := s, happened := es\<rparr>) = view w"
proof -
  note I = conc_invD[OF inv]
  have own: "apart (kern w) buffer" using I(4)[of t] ph by simp
  have s: "ph' = Write_done r" "s = (kern w)\<lparr>mem := (if buffer = NULL then mem (kern w) else (mem (kern w))(buffer := None))\<rparr>"
    using run ph by (auto simp: do_kfree_def bind_eq_Some_conv split: if_splits option.splits)
  have keep: "dev_inv s" "commands s = commands (kern w)" "pending s = pending (kern w)" "owned s = owned (kern w)"
    using spare_upd[OF I(1), of buffer None] own I(1) by (auto simp: s(2) apart_def)
  have dev: "aesd_device s = aesd_device (kern w)" by (simp add: s(2))
  have eq: "(\<exists>u. committing (((calls w)(t := ph')) u)) = (\<exists>u. committing (calls w u))"
    using ph s(1) by (metis committing.simps fun_upd_apply)
  then show "view (w\<lparr>calls := (calls w)(t := ph'), kern := s, happened := es\<rparr>) = view w"
    by (simp add: view_def abs_dev_def keep)
  have others: "own_block (calls w u) \<noteq> buffer \<or> buffer = NULL" if "u \<noteq> t" for u
    using I(5)[of u t] ph that by auto
  have "phase_ok (calls w u) s" if "u \<noteq> t" for u
    using I(3)[of u] others[OF that] keep by (cases "calls w u") (auto simp: s(2) block_def)
  moreover have "apart s (own_block (calls w u))" if "u \<noteq> t" for u
    using I(4)[of u] others[OF that] keep(4) by (auto simp: apart_def s(2))
  moreover have "\<not> inside ph'" "own_block ph' = NULL" "phase_ok ph' s" by (simp_all add: s(1))
  ultimately show "conc_inv (w\<lparr>calls := (calls w)(t := ph'), kern := s, happened := es\<rparr>)"
    using I(2,5) keep(1) dev ph by (auto simp: conc_inv_def apart_def)
qed

subsection \<open>The steps inside\<close>

definition spec_read :: "byte list list \<Rightarrow> nat \<Rightarrow> nat \<Rightarrow> byte list" where
  "spec_read cs pos n =
     (case locate (map length cs) pos of None \<Rightarrow> [] | Some (k, r) \<Rightarrow> take n (drop r (cs ! k)))"

lemma set_lock_twice [simp]: "lock (aesd_device s) = Some t \<Longrightarrow>
    set_dev (\<lambda>d. d\<lparr>lock := Some t\<rparr>) (set_dev (\<lambda>d. d\<lparr>lock := None\<rparr>) s) = s"
  by (cases s, cases "aesd_device s") (simp add: set_dev_def)

text \<open>A read inside is the handler on the state before the lock.\<close>

lemma read_copy_result:
  assumes inv: "dev_inv s" and lock: "lock (aesd_device s) = Some t"
    and K: "mutex_lock_interruptible K = 0" and fits: "length (concat (commands s)) < 2 ^ 63"
    and run: "handler_step K t (Read_copy count pos) s = Some (ph, s')"
  shows "s' = s \<and> (\<exists>r bytes pos'. ph = Read_unlock r bytes pos'
    \<and> (0 \<le> r \<longrightarrow> bytes = spec_read (commands s) (unat pos) (unat count)))"
proof -
  let ?s0 = "set_dev (\<lambda>d. d\<lparr>lock := None\<rparr>) s" and ?filp = "\<lparr>f_pos = pos, private_data = Some Aesd_device\<rparr>"
  have enter: "can_enter K ?filp ?s0" using K by (simp add: can_enter_def)
  have s': "s' = s" using run by (auto simp: bind_eq_Some_conv Let_def split: option.splits if_splits)
  obtain r bytes pos' where ph: "ph = Read_unlock r bytes pos'"
    using run by (auto simp: bind_eq_Some_conv Let_def split: option.splits if_splits)
  have "aesd_read K t ?filp count pos ?s0 = do {
      (ph, s) \<leftarrow> handler_step K t (Read_copy count pos) s;
      case ph of Read_unlock r bytes pos \<Rightarrow> Some (r, bytes, pos, ?s0) | _ \<Rightarrow> None }"
    using lock can_enter_lock[OF enter, of t]
    by (auto simp: aesd_read_def unlock_dev_def Let_def set_dev_def split: option.splits bind_splits)
  then have rd: "aesd_read K t ?filp count pos ?s0 = Some (r, bytes, pos', ?s0)"
    unfolding run ph by simp
  have inv0: "dev_inv ?s0" "commands ?s0 = commands s" using inv by simp_all
  have "bytes = spec_read (commands s) (unat pos) (unat count)" if "0 \<le> r"
  proof (cases "locate (map length (commands s)) (unat pos)")
    case None
    then have "length (concat (commands s)) \<le> unat pos" by (simp add: locate_None_iff length_concat)
    then show ?thesis
      using read_past_end[OF inv0(1) enter, of pos t count] rd fits None by (simp add: spec_read_def)
  next
    case (Some kr)
    obtain k q where kr: "kr = (k, q)" by (cases kr)
    have k: "k < length (commands s)" "q < length (commands s ! k)"
        "unat pos = length (concat (take k (commands s))) + q"
      using Some kr by (auto simp: locate_Some_iff length_concat_take take_map)
    have "sum_list (map (\<lambda>e. unat (size_e e)) (entries (circular_buffer (aesd_device s)))) < 2 ^ 64"
      using fits by (simp add: sum_sizes_commands[OF inv] flip: sizes_def)
    from cb.find_locate[OF dev_invD(1)[OF inv] this, of pos] Some
    have "aesd_circular_buffer_find_entry_offset_for_fpos (circular_buffer (aesd_device s)) pos \<noteq> Some None"
      by (simp add: map_length_commands[OF inv] flip: sizes_def)
    then have "copy_to_user K = 0"
      using run that ph by (auto simp: bind_eq_Some_conv Let_def split: option.splits if_splits)
    then show ?thesis
      using read_in_command[OF inv0(1) enter, of k q pos t count] rd fits k Some kr
      by (simp add: spec_read_def Let_def)
  qed
  then show ?thesis using s' ph by blast
qed

lemma read_copy_enabled:
  assumes inv: "dev_inv s" and lock: "lock (aesd_device s) = Some t"
    and K: "mutex_lock_interruptible K = 0" and fits: "length (concat (commands s)) < 2 ^ 63"
  shows "handler_step K t (Read_copy count pos) s \<noteq> None"
proof -
  let ?s0 = "set_dev (\<lambda>d. d\<lparr>lock := None\<rparr>) s" and ?filp = "\<lparr>f_pos = pos, private_data = Some Aesd_device\<rparr>"
  have enter: "can_enter K ?filp ?s0" using K by (simp add: can_enter_def)
  have "dev_safe ?s0" using inv by (simp add: dev_safe_def)
  then have "run_alone 3 K t (Read_lock count pos) ?s0 \<noteq> None"
    using aesd_read_total[OF _ enter, where t = t and count = count and pos = pos] fits
    by (auto simp: read_alone[of ?filp])
  moreover have "set_dev (\<lambda>d. d\<lparr>lock := Some t\<rparr>) ?s0 = s" using lock by (simp add: set_dev_def)
  ultimately show ?thesis
    using can_enter_lock[OF enter, of t]
    by (auto simp: eval_nat_numeral run_alone_step[of "Read_lock count pos"] run_alone_step[of "Read_copy count pos"]
        bind_eq_Some_conv simp del: handler_step.simps(2))
qed

lemma write_copy_result:
  assumes K: "kernel_ok K" and inv: "dev_inv s" and n: "0 < unat count"
    and user: "unat count \<le> length ubuf" "copy_from_user K \<le> unat count"
  shows "\<exists>ph s'. handler_step K t (Write_copy ubuf count) s = Some (ph, s') \<and> dev_inv s' \<and> abs_dev s' = abs_dev s
    \<and> lock (aesd_device s') = lock (aesd_device s) \<and> keeps_blocks s s' \<and> apart s' (own_block ph)
    \<and> (own_block ph = NULL \<or> mem s (own_block ph) = None)
    \<and> ((\<exists>b r. ph = Write_unlock b r) \<or>
        (\<exists>b. ph = Write_store ubuf b count \<and> b \<noteq> NULL \<and> block (mem s') b = take (unat count) ubuf))"
  using K n
proof (cases rule: do_kmalloc_cases[of K "unat count" "mem s"])
  case fail
  moreover have "s\<lparr>mem := mem s\<rparr> = s" by simp
  ultimately show ?thesis using inv by (intro exI[of _ "Write_unlock NULL (- ENOMEM)"] exI[of _ s]) (simp add: apart_def)
next
  case (ok p junk)
  let ?bs = "take (unat count - copy_from_user K) ubuf @ replicate (copy_from_user K) 0"
  let ?s = "s\<lparr>mem := (mem s)(p \<mapsto> ?bs)\<rparr>"
  let ?ph = "if copy_from_user K \<noteq> 0 then Write_unlock p (- EFAULT) else Write_store ubuf p count"
  have len: "length ?bs = unat count" using user by simp
  note upd = spare_upd[OF inv ok(2) fresh_not_owned[OF inv ok(3)], of "Some ?bs"]
  have "handler_step K t (Write_copy ubuf count) s = Some (?ph, ?s)"
    using ok len by (simp add: heap_write_all Let_def)
  moreover have "keeps_blocks s ?s" using upd(4) by (simp add: keeps_blocks_def)
  moreover have "apart ?s p" using upd(4) fresh_not_owned[OF inv ok(3)] by (simp add: apart_def)
  ultimately show ?thesis
    using upd ok(2,3) len by (intro exI[of _ ?ph] exI[of _ ?s]) (auto simp: abs_dev_def block_def)
qed

lemma write_store_result:
  assumes K: "kernel_ok K" "\<not> store_fails K s (block (mem s) buffer)" and inv: "dev_inv s" and own: "apart s buffer" "buffer \<noteq> NULL"
    and len: "length (block (mem s) buffer) = unat count" "0 < unat count" "unat count < 2 ^ 31"
    and fits: "unat (buffer_length (aesd_device s)) + unat count < 2 ^ 64"
  shows "\<exists>ph s'. handler_step K t (Write_store ubuf buffer count) s = Some (ph, s') \<and> dev_inv s'
    \<and> lock (aesd_device s') = lock (aesd_device s) \<and> keeps_blocks s s' \<and> apart s' buffer
    \<and> committed (committing ph) (abs_dev s') = spec_write (block (mem s) buffer) (abs_dev s)
    \<and> (ph = Write_commit buffer count \<and> pending s' \<noteq> [] \<or> ph = Write_unlock buffer (sint count))"
proof -
  let ?bs = "block (mem s) buffer"
  have spare: "spare s buffer ?bs" using own by (auto simp: spare_def apart_def block_def)
  have bs: "?bs \<noteq> []" "length ?bs < 2 ^ 31" using len by auto
  have rd: "heap_read (mem s) buffer 0 (unat count) = Some ?bs"
    using spareD(3)[OF spare] len(1) by (simp add: heap_read_all)
  obtain s1 where s1: "store_bytes K buffer count (of_nat (length (upto_last_newline ?bs)))
      (newline \<in> set ?bs) s = Some (True, s1)" "store_grown s buffer ?bs s1"
    using store_first[OF K(1) inv spare len(1) bs(1)] store_later[OF K(1) inv spare len(1) bs(2)] fits len(1) K(2)
    by (cases "buffer_length (aesd_device s) = 0") force+
  let ?ph = "if newline \<in> set ?bs then Write_commit buffer count else Write_unlock buffer (sint count)"
  have run: "handler_step K t (Write_store ubuf buffer count) s = Some (?ph, s1)"
    using rd s1(1) by (simp add: scan_newline_upto[OF bs(2)])
  have g: "dev_inv s1" "lock (aesd_device s1) = lock (aesd_device s)" "keeps_blocks s s1" "spare s1 buffer ?bs"
      "commands s1 = commands s" "pending s1 = pending s @ kept_bytes (pending s) ?bs"
    using s1(2) by (simp_all add: store_grown_def)
  have c: "committing ?ph = (newline \<in> set ?bs)" by simp
  have "committed (committing ?ph) (abs_dev s1) = spec_write ?bs (abs_dev s)"
    unfolding c by (simp add: committed_def spec_write_def abs_dev_def g(5,6) Let_def)
  moreover have "newline \<in> set ?bs \<Longrightarrow> pending s1 \<noteq> []"
    using kept_bytes_nonempty[of ?bs "pending s"] g(6) by simp
  moreover have "apart s1 buffer" using g(4) by (auto simp: apart_def spare_def)
  ultimately show ?thesis using run g(1-3) by (intro exI[of _ ?ph] exI[of _ s1]) auto
qed

lemma write_commit_result:
  assumes inv: "dev_inv s" and pend: "pending s \<noteq> []" and own: "apart s buffer"
  shows "\<exists>s'. handler_step K t (Write_commit buffer count) s = Some (Write_unlock buffer (sint count), s') \<and> dev_inv s'
    \<and> lock (aesd_device s') = lock (aesd_device s) \<and> keeps_blocks s s' \<and> apart s' buffer
    \<and> abs_dev s' = committed True (abs_dev s)"
proof -
  obtain s' where "commit_store s = Some s'" "dev_inv s'" "mem s' = mem s" "owned s' \<subseteq> owned s"
    "lock (aesd_device s') = lock (aesd_device s)"
    "commands s' = last_n AESDCHAR_MAX_WRITE_OPERATIONS_SUPPORTED (commands s @ [pending s])" "pending s' = []"
    using commit_store_outcome[OF inv pend] by blast
  then show ?thesis using own by (auto simp: keeps_blocks_def apart_def committed_def abs_dev_def)
qed

subsection \<open>Every step keeps the invariant and acts like the specification\<close>

fun spec_event :: "byte list list \<times> byte list \<Rightarrow> dev_event \<Rightarrow> (byte list list \<times> byte list) option" where
  "spec_event a (Write_event t bs) = Some (spec_write bs a)"
| "spec_event a (Read_event t count pos bytes) =
     (if bytes = spec_read (fst a) (unat pos) (unat count) then Some a else None)"
| "spec_event a (Kept_event t) = Some a"

definition acts :: "shared \<Rightarrow> shared \<Rightarrow> bool" where
  "acts w w' \<longleftrightarrow> happened w' = happened w \<and> view w' = view w
     \<or> (\<exists>e. happened w' = happened w @ [e] \<and> spec_event (view w) e = Some (view w'))"

lemma unlock_step:
  assumes inv: "conc_inv w" and ph: "inside (calls w t)" "\<not> committing (calls w t)"
    and ph': "\<not> inside ph" "own_block ph = own_block (calls w t) \<or> own_block ph = NULL"
      "\<And>s. phase_ok ph s" "\<not> committing ph"
    and s: "s = set_dev (\<lambda>d. d\<lparr>lock := None\<rparr>) (kern w)"
  shows "conc_inv (w\<lparr>calls := (calls w)(t := ph), kern := s, happened := es\<rparr>)"
    and "view (w\<lparr>calls := (calls w)(t := ph), kern := s, happened := es\<rparr>) = view w"
proof -
  note I = conc_invD[OF inv]
  have "apart s (own_block ph)" using I(4)[of t] ph'(2) by (auto simp: apart_def s)
  then show "conc_inv (w\<lparr>calls := (calls w)(t := ph), kern := s, happened := es\<rparr>)"
    using I(1) ph' by (intro inv_inside[OF inv ph(1)]) (auto simp: s)
  show "view (w\<lparr>calls := (calls w)(t := ph), kern := s, happened := es\<rparr>) = view w"
    using view_inside[OF inv ph(1)] ph(2) ph'(4) by (simp add: s abs_dev_def)
qed

lemma run_step:
  assumes inv: "conc_inv w" and run: "handler_step K t (calls w t) (kern w) = Some (ph, s)"
    and K: "kernel_ok K" "mutex_lock_interruptible K = 0" "answers_ok K (calls w t) (kern w)"
    and w': "w' = w\<lparr>calls := (calls w)(t := ph), kern := s,
               happened := happened w @ event_of t (calls w t) (kern w) ph\<rparr>"
  shows "conc_inv w' \<and> acts w w'"
proof -
  note I = conc_invD[OF inv]
  have lock: "r = 0 \<and> lock (aesd_device (kern w)) = None \<and> s' = set_dev (\<lambda>d. d\<lparr>lock := Some t\<rparr>) (kern w)"
    if "lock_dev K t (kern w) = Some (r, s')" for r s'
    using that K(2) by (auto simp: lock_dev_def split: if_splits)
  have unlock: "s' = set_dev (\<lambda>d. d\<lparr>lock := None\<rparr>) (kern w)" if "unlock_dev t (kern w) = Some s'" for s'
    using that by (auto simp: unlock_dev_def split: if_splits)
  have held: "lock (aesd_device (kern w)) = Some t" if "inside (calls w t)" using I(2) that by simp
  show ?thesis
  proof (cases "calls w t")
    case (Read_lock count pos)
    then have "ph = Read_copy count pos" "lock (aesd_device (kern w)) = None"
        "s = set_dev (\<lambda>d. d\<lparr>lock := Some t\<rparr>) (kern w)"
      using run lock by (auto simp: bind_eq_Some_conv)
    then show ?thesis using inv_lock[OF inv, of ph t "happened w"] Read_lock by (simp add: w' acts_def)
  next
    case (Write_lock ubuf count)
    then have "ph = Write_copy ubuf count" "lock (aesd_device (kern w)) = None"
        "s = set_dev (\<lambda>d. d\<lparr>lock := Some t\<rparr>) (kern w)"
      using run lock by (auto simp: bind_eq_Some_conv)
    then show ?thesis using inv_lock[OF inv, of ph t "happened w"] Write_lock I(3)[of t] by (simp add: w' acts_def)
  next
    case (Seek_lock filp off whence)
    then have "ph = Seek_set filp off whence" "lock (aesd_device (kern w)) = None"
        "s = set_dev (\<lambda>d. d\<lparr>lock := Some t\<rparr>) (kern w)"
      using run lock by (auto simp: bind_eq_Some_conv)
    then show ?thesis using inv_lock[OF inv, of ph t "happened w"] Seek_lock I(3)[of t] by (simp add: w' acts_def)
  next
    case (Read_copy count pos)
    then have ins: "inside (calls w t)" by simp
    obtain r bytes pos' where r: "s = kern w" "ph = Read_unlock r bytes pos'"
        "0 \<le> r \<longrightarrow> bytes = spec_read (commands (kern w)) (unat pos) (unat count)"
      using read_copy_result[OF I(1) held[OF ins] K(2), of count pos ph s] run K(3) Read_copy by (auto simp del: handler_step.simps)
    have "conc_inv w'"
      unfolding w' using r I(1) held[OF ins] by (intro inv_inside[OF inv ins]) (simp_all add: apart_def)
    then show ?thesis
      using view_inside(1)[OF inv ins] view_inside(2)[OF inv ins, where ph = ph and s = s and es = "happened w"] view_inside(2)[OF inv ins, where ph = ph and s = s] Read_copy r by (auto simp: w' acts_def abs_dev_def)
  next
    case (Write_copy ubuf count)
    then have ins: "inside (calls w t)" by simp
    have "0 < unat count" "unat count \<le> length ubuf" "copy_from_user K \<le> unat count" "unat count < 2 ^ 31"
      using I(3)[of t] K(3) Write_copy by simp_all
    note r = write_copy_result[OF K(1) I(1) this(1-3), of t]
    have st: "dev_inv s" "abs_dev s = abs_dev (kern w)" "lock (aesd_device s) = Some t" "keeps_blocks (kern w) s"
        "apart s (own_block ph)" "own_block ph = NULL \<or> mem (kern w) (own_block ph) = None"
      using r run Write_copy held[OF ins] by (auto simp del: handler_step.simps)
    have "(\<exists>b r. ph = Write_unlock b r) \<or>
        (\<exists>b. ph = Write_store ubuf b count \<and> b \<noteq> NULL \<and> block (mem s) b = take (unat count) ubuf)"
      using r run Write_copy by (auto simp del: handler_step.simps)
    then have "inside ph" "\<not> committing ph" "phase_ok ph s"
      using \<open>0 < unat count\<close> \<open>unat count < 2 ^ 31\<close> \<open>unat count \<le> length ubuf\<close> by auto
    then have "conc_inv w'" unfolding w' using st by (intro inv_inside[OF inv ins]) auto
    then show ?thesis
      using view_inside(1)[OF inv ins] view_inside(2)[OF inv ins, where ph = ph and s = s and es = "happened w"] Write_copy \<open>\<not> committing ph\<close> st(2) by (simp add: w' acts_def)
  next
    case (Write_store ubuf buffer count)
    then have ins: "inside (calls w t)" by simp
    have "apart (kern w) buffer" "buffer \<noteq> NULL" "length (block (mem (kern w)) buffer) = unat count" "0 < unat count"
        "unat count < 2 ^ 31" "unat (buffer_length (aesd_device (kern w))) + unat count < 2 ^ 64"
        "\<not> store_fails K (kern w) (block (mem (kern w)) buffer)"
      using I(3,4)[of t] K(3) Write_store by simp_all
    note r = write_store_result[OF K(1) this(7) I(1) this(1-6), of t ubuf]
    have st: "dev_inv s" "lock (aesd_device s) = Some t" "keeps_blocks (kern w) s" "apart s buffer"
        "committed (committing ph) (abs_dev s) = spec_write (take (unat count) ubuf) (abs_dev (kern w))"
      and ph: "ph = Write_commit buffer count \<and> pending s \<noteq> [] \<or> ph = Write_unlock buffer (sint count)"
      using r run Write_store held[OF ins] I(3)[of t] by (auto simp del: handler_step.simps)
    have "conc_inv w'" unfolding w' using st ph Write_store by (intro inv_inside[OF inv ins]) auto
    then show ?thesis
      using view_inside[OF inv ins] Write_store st(5) by (simp add: w' acts_def)
  next
    case (Write_commit buffer count)
    then have ins: "inside (calls w t)" by simp
    have "pending (kern w) \<noteq> []" "apart (kern w) buffer" using I(3,4)[of t] Write_commit by simp_all
    note r = write_commit_result[OF I(1) this, of K t count]
    have st: "dev_inv s" "lock (aesd_device s) = Some t" "keeps_blocks (kern w) s" "apart s buffer"
        "abs_dev s = committed True (abs_dev (kern w))" "ph = Write_unlock buffer (sint count)"
      using r run Write_commit held[OF ins] by (auto simp del: handler_step.simps)
    have "conc_inv w'" unfolding w' using st Write_commit by (intro inv_inside[OF inv ins]) auto
    then show ?thesis
      using view_inside(1)[OF inv ins] view_inside(2)[OF inv ins, where ph = ph and s = s and es = "happened w"] Write_commit st(5,6) by (simp add: w' acts_def)
  next
    case (Seek_set filp off whence)
    then have ins: "inside (calls w t)" by simp
    have st: "s = kern w"
        "(\<exists>r filp'. ph = Seek_unlock r filp') \<and> (whence = 0 \<or> whence = 1)
          \<or> (\<exists>r filp'. ph = Seek_done r filp') \<and> \<not> (whence = 0 \<or> whence = 1)"
      using run Seek_set by (auto simp: Let_def split: if_splits)
    then have "conc_inv w'"
      unfolding w' using I(1) held[OF ins] by (intro inv_inside[OF inv ins]) (auto simp: apart_def)
    then show ?thesis using view_inside(1)[OF inv ins] view_inside(2)[OF inv ins, where ph = ph and s = s] Seek_set st by (auto simp: w' acts_def)
  next
    case (Read_unlock r bytes pos)
    then show ?thesis
      using unlock_step[OF inv, of t ph s "happened w"] run unlock by (auto simp: w' acts_def bind_eq_Some_conv)
  next
    case (Write_unlock buffer r)
    then show ?thesis
      using unlock_step[OF inv, of t ph s "happened w"] run unlock by (auto simp: w' acts_def bind_eq_Some_conv)
  next
    case (Seek_unlock r filp)
    then show ?thesis
      using unlock_step[OF inv, of t ph s "happened w"] run unlock by (auto simp: w' acts_def bind_eq_Some_conv)
  next
    case (Write_free buffer r)
    then show ?thesis using inv_free[OF inv Write_free run, of "happened w"] by (simp add: w' acts_def)
  qed (use run in simp_all)
qed

lemma conc_step_inv:
  assumes "conc_inv w" "conc_step w w'"
  shows "conc_inv w' \<and> acts w w'"
  using assms(2)
proof cases
  case (call t ph)
  then show ?thesis using inv_call[OF assms(1) call(2,3)] by (simp add: acts_def)
next
  case (run K t ph s)
  then show ?thesis using run_step[OF assms(1)] by blast
qed

fun replay :: "byte list list \<times> byte list \<Rightarrow> dev_event list \<Rightarrow> (byte list list \<times> byte list) option" where
  "replay a [] = Some a"
| "replay a (e # es) = do { a \<leftarrow> spec_event a e; replay a es }"

lemma replay_snoc: "replay a (es @ [e]) = do { a \<leftarrow> replay a es; spec_event a e }"
  by (induction es arbitrary: a) (simp_all add: Option.bind_assoc)

lemma conc_reachable_inv: "conc_reachable w \<Longrightarrow> conc_inv w \<and> replay ([], []) (happened w) = Some (view w)"
proof (induction rule: conc_reachable.induct)
  case (idle R s0 s)
  have "0 \<le> alloc_chrdev_region R"
    using idle(1) by (auto simp: aesd_init_module_def Let_def split: if_splits)
  note s = init_module_state[OF idle(1) this]
  then have "dev_inv s" "commands s = []" "pending s = []" using zero_dev_inv[of s] idle(2) by simp_all
  then show ?case using s(1) by (simp add: conc_inv_def apart_def view_def abs_dev_def zero_dev_def)
next
  case (moves w w')
  then show ?case using conc_step_inv[of w w'] by (auto simp: acts_def replay_snoc)
qed

text \<open>Who holds the mutex: a task between its lock and its unlock, or the task whose seek kept it;
  once a seek has kept it no task is inside any more.\<close>

definition kept_inv :: "shared \<Rightarrow> bool" where
  "kept_inv w \<longleftrightarrow>
     (\<forall>u. lock (aesd_device (kern w)) = Some u \<longrightarrow> inside (calls w u) \<or> Kept_event u \<in> set (happened w))
   \<and> (\<forall>u. Kept_event u \<in> set (happened w) \<longrightarrow>
        lock (aesd_device (kern w)) = Some u \<and> (\<forall>v. \<not> inside (calls w v)))"

lemma lock_at_step:
  assumes run: "handler_step K t ph s = Some (ph', s')" and K: "mutex_lock_interruptible K = 0"
    and wf: "cb_wf (circular_buffer (aesd_device s))" and held: "inside ph \<longrightarrow> lock (aesd_device s) = Some t"
  shows "if inside ph
    then lock (aesd_device s') = (if inside ph' \<or> event_of t ph s ph' = [Kept_event t] then Some t else None)
       \<and> (\<forall>u. Kept_event u \<in> set (event_of t ph s ph') \<longleftrightarrow> u = t \<and> event_of t ph s ph' = [Kept_event t])
       \<and> (event_of t ph s ph' = [Kept_event t] \<longrightarrow> \<not> inside ph')
    else event_of t ph s ph' = []
       \<and> (inside ph' \<and> lock (aesd_device s) = None \<and> lock (aesd_device s') = Some t
          \<or> \<not> inside ph' \<and> lock (aesd_device s') = lock (aesd_device s))"
proof (cases ph)
  case (Write_copy ubuf count)
  then show ?thesis using run held by (auto simp: Let_def bind_eq_Some_conv split: prod.splits if_splits)
next
  case (Write_store ubuf buffer count)
  then show ?thesis
    using run held by (auto simp: bind_eq_Some_conv split: if_splits dest!: store_bytes_frame(1))
next
  case (Write_commit buffer count)
  then show ?thesis
    using run held by (auto simp: bind_eq_Some_conv dest!: commit_store_frame(1)[OF _ wf])
qed (use run held K in \<open>auto simp: bind_eq_Some_conv lock_dev_def unlock_dev_def Let_def
      split: if_splits option.splits\<close>)

lemma conc_step_kept:
  assumes inv: "conc_inv w" and "conc_step w w'" and kept: "kept_inv w"
  shows "kept_inv w'"
  using assms(2)
proof cases
  case (call t ph)
  then show ?thesis
    using kept finished_simps[OF call(2)] may_call_simps[OF call(3)] by (auto simp: kept_inv_def)
next
  case (run K t ph s)
  have wf: "cb_wf (circular_buffer (aesd_device (kern w)))" using conc_invD(1)[OF inv] dev_invD(1) by blast
  note L = lock_at_step[OF run(2,4) wf]
  show ?thesis
  proof (cases "inside (calls w t)")
    case True
    have held: "lock (aesd_device (kern w)) = Some t" using conc_invD(2)[OF inv True] .
    have out: "\<not> inside (calls w u)" if "u \<noteq> t" for u using conc_invD(2)[OF inv, of u] held that by auto
    have "Kept_event u \<notin> set (happened w)" for u using kept True by (auto simp: kept_inv_def)
    then show ?thesis
      using L True held out by (auto simp: kept_inv_def run(1) split: if_splits)
  next
    case False
    have kept': "inside (calls w u) \<or> Kept_event u \<in> set (happened w)"
      if "lock (aesd_device (kern w)) = Some u" for u
      using kept that by (simp add: kept_inv_def)
    have "event_of t (calls w t) (kern w) ph = []" using L False by simp
    moreover have "(inside ph \<and> lock (aesd_device (kern w)) = None \<and> lock (aesd_device s) = Some t)
        \<or> \<not> inside ph \<and> lock (aesd_device s) = lock (aesd_device (kern w))"
      using L False by simp
    ultimately show ?thesis
      using kept kept' False by (elim disjE) (auto simp: kept_inv_def run(1))
  qed
qed

lemma conc_reachable_kept: "conc_reachable w \<Longrightarrow> kept_inv w"
proof (induction rule: conc_reachable.induct)
  case (idle R s0 s)
  have "0 \<le> alloc_chrdev_region R"
    using idle(1) by (auto simp: aesd_init_module_def Let_def split: if_splits)
  then show ?case using init_module_state(1)[OF idle(1)] by (simp add: kept_inv_def zero_dev_def)
next
  case (moves w w')
  then show ?case using conc_step_kept conc_reachable_inv by blast
qed

lemma view_free:
  assumes "conc_inv w" "lock (aesd_device (kern w)) = None"
  shows "view w = abs_dev (kern w)"
proof -
  have "\<not> committing (calls w t)" for t
    using conc_invD(2)[OF assms(1), of t] assms(2) committing_inside by auto
  then show ?thesis by (simp add: view_def)
qed

text \<open>The bytes of the writes in a record.\<close>

fun written :: "dev_event list \<Rightarrow> byte list list" where
  "written [] = []"
| "written (Write_event t bs # es) = bs # written es"
| "written (Read_event t count pos bytes # es) = written es"
| "written (Kept_event t # es) = written es"

lemma replay_written: "replay a es = Some b \<Longrightarrow> b = foldl (\<lambda>a bs. spec_write bs a) a (written es)"
  by (induction es arbitrary: a rule: written.induct) (auto split: if_splits)

text \<open>The steps that a call still has to make.\<close>

fun stage :: "phase \<Rightarrow> nat" where
  "stage (Read_lock count pos) = 3"
| "stage (Read_copy count pos) = 2"
| "stage (Read_unlock r bytes pos) = 1"
| "stage (Write_lock ubuf count) = 6"
| "stage (Write_copy ubuf count) = 5"
| "stage (Write_store ubuf buffer count) = 4"
| "stage (Write_commit buffer count) = 3"
| "stage (Write_unlock buffer r) = 2"
| "stage (Write_free buffer r) = 1"
| "stage (Seek_lock filp off whence) = 3"
| "stage (Seek_set filp off whence) = 2"
| "stage (Seek_unlock r filp) = 1"
| "stage _ = 0"

lemma stage_decreases: "handler_step K t ph s = Some (ph', s') \<Longrightarrow> stage ph' < stage ph"
  by (cases ph) (auto simp: bind_eq_Some_conv Let_def split: option.splits if_splits prod.splits)

fun at_lock :: "phase \<Rightarrow> bool" where
  "at_lock (Read_lock count pos) = True"
| "at_lock (Write_lock ubuf count) = True"
| "at_lock (Seek_lock filp off whence) = True"
| "at_lock _ = False"

lemma waits_at_lock:
  "at_lock ph \<Longrightarrow> mutex_lock_interruptible K = 0 \<Longrightarrow> lock (aesd_device s) = Some u \<Longrightarrow> handler_step K t ph s = None"
  by (cases ph) (simp_all add: lock_dev_def)

lemma step_enabled:
  assumes inv: "conc_inv w" and K: "kernel_ok K" "mutex_lock_interruptible K = 0" "answers_ok K (calls w t) (kern w)"
    and "\<not> finished (calls w t)" and lock: "at_lock (calls w t) \<Longrightarrow> lock (aesd_device (kern w)) = None"
  shows "handler_step K t (calls w t) (kern w) \<noteq> None"
proof -
  note I = conc_invD[OF inv]
  have unlock: "unlock_dev t (kern w) \<noteq> None" if "inside (calls w t)" using I(2)[of t] that by (simp add: unlock_dev_def)
  show ?thesis
  proof (cases "calls w t")
    case (Read_copy count pos)
    then have held: "lock (aesd_device (kern w)) = Some t" using I(2)[of t] by simp
    then show ?thesis using read_copy_enabled[OF I(1) held K(2)] K(3) Read_copy by simp
  next
    case (Write_copy ubuf count)
    then show ?thesis using write_copy_result[OF K(1) I(1), of count ubuf t] I(3)[of t] K(3) by (auto simp del: handler_step.simps)
  next
    case (Write_store ubuf buffer count)
    then show ?thesis
      using write_store_result[OF K(1) _ I(1), of buffer count t ubuf] I(3,4)[of t] K(3) by (auto simp del: handler_step.simps)
  next
    case (Write_commit buffer count)
    then show ?thesis
      using write_commit_result[OF I(1), of buffer K t count] I(3,4)[of t] by (auto simp del: handler_step.simps)
  next
    case (Write_free buffer r)
    then show ?thesis using I(4)[of t] by (auto simp: do_kfree_def apart_def split: option.splits)
  qed (use assms unlock in \<open>auto simp: lock_dev_def\<close>)
qed

subsection \<open>Schedules\<close>

text \<open>The run in which the tasks of a list make their steps in its order.\<close>

fun run_tasks :: "kernel \<Rightarrow> task list \<Rightarrow> shared \<Rightarrow> shared option" where
  "run_tasks K [] w = Some w"
| "run_tasks K (t # ts) w =
     (if answers_ok K (calls w t) (kern w)
      then do {
        (ph, s) \<leftarrow> handler_step K t (calls w t) (kern w);
        run_tasks K ts (w\<lparr>calls := (calls w)(t := ph), kern := s,
                          happened := happened w @ event_of t (calls w t) (kern w) ph\<rparr>)
      }
      else None)"

lemma run_tasks_reachable:
  "conc_reachable w \<Longrightarrow> kernel_ok K \<Longrightarrow> mutex_lock_interruptible K = 0 \<Longrightarrow> run_tasks K ts w = Some w' \<Longrightarrow>
     conc_reachable w'"
proof (induction ts arbitrary: w)
  case (Cons t ts)
  obtain ph s where step: "handler_step K t (calls w t) (kern w) = Some (ph, s)" "answers_ok K (calls w t) (kern w)"
    and rest: "run_tasks K ts (w\<lparr>calls := (calls w)(t := ph), kern := s,
                          happened := happened w @ event_of t (calls w t) (kern w) ph\<rparr>) = Some w'"
    using Cons.prems(4) by (auto simp: bind_eq_Some_conv split: if_splits simp del: handler_step.simps)
  show ?case
    using Cons.IH[OF moves[OF Cons.prems(1) run[OF step(1) Cons.prems(2,3) step(2)]] Cons.prems(2,3) rest] .
qed simp

text \<open>A freshly loaded module on which task 1 writes a line while task 2 makes the call \<open>ph\<close>.\<close>

definition two_tasks :: "phase \<Rightarrow> shared" where
  "two_tasks ph = \<lparr>calls = ((\<lambda>t. Outside)(1 := Write_lock [0x41, 10] 2))(2 := ph), kern = fresh_state, happened = []\<rparr>"

lemma two_tasks_reachable:
  assumes "may_call ph"
  shows "conc_reachable (two_tasks ph)"
proof -
  let ?w = "\<lparr>calls = (\<lambda>t. Outside), kern = fresh_state, happened = []\<rparr>"
  have "conc_reachable ?w"
    by (rule idle[of "\<lparr>alloc_chrdev_region = 0, new_major = 250, cdev_add = 0\<rparr>"
          "fresh_state\<lparr>cdev_live := False, region := False\<rparr>"])
      (simp_all add: aesd_init_module_def aesd_setup_cdev_def fresh_state_def)
  moreover have "conc_step ?w (?w\<lparr>calls := (calls ?w)(1 := Write_lock [0x41, 10] 2)\<rparr>)"
    by (rule call) simp_all
  ultimately have "conc_reachable (?w\<lparr>calls := (calls ?w)(1 := Write_lock [0x41, 10] 2)\<rparr>)" by (rule moves)
  from moves[OF this call[of _ 2, OF _ assms]] show ?thesis by (simp add: two_tasks_def)
qed

lemmas run_simps = sample_kernel_def sample_kmalloc_def heap_slots_def fresh_state_def zero_dev_def two_tasks_def
  lock_dev_def unlock_dev_def set_dev_def do_kmalloc_def do_kfree_def heap_read_def heap_write_def
  store_bytes_def commit_store_def store_fails_def pending_def block_def Let_def scan_newline_def
  aesd_circular_buffer_init_def aesd_circular_buffer_add_entry_def array_set_def

text \<open>Task 2 begins between the unlock of task 1 and the release of its block.\<close>

lemma two_writers:
  "\<exists>w. run_tasks sample_kernel [1, 1, 1, 1, 1, 2, 2, 1, 2, 2, 2, 2] (two_tasks (Write_lock [0x42, 10] 2)) = Some w
    \<and> happened w = [Write_event 1 [0x41, 10], Write_event 2 [0x42, 10]] \<and> lock (aesd_device (kern w)) = None"
  by (simp add: run_simps)

lemma writer_and_reader:
  "\<exists>w. run_tasks sample_kernel [1, 1, 1, 1, 1, 2, 2, 1] (two_tasks (Read_lock 9 1)) = Some w
    \<and> happened w = [Write_event 1 [0x41, 10], Read_event 2 9 1 [10]] \<and> lock (aesd_device (kern w)) = Some 2"
  by (simp add: run_simps commands_def stored_def entries_def buf_count_def
      aesd_circular_buffer_find_entry_offset_for_fpos_def
      find_entry_loop.simps[of "\<lparr>entry = es, in_offs = 1, out_offs = 0, full = False\<rparr>" for es])

lemma writer_inside:
  "run_tasks sample_kernel [1] (two_tasks (Write_lock [0x42, 10] 2)) = Some w \<Longrightarrow>
     calls w = ((\<lambda>t. Outside)(1 := Write_copy [0x41, 10] 2))(2 := Write_lock [0x42, 10] 2) \<and>
     lock (aesd_device (kern w)) = Some 1 \<and> happened w = []"
  by (auto simp: run_simps)

text \<open>Task 2 seeks from the end.\<close>

lemma seek_keeps:
  "\<exists>w. run_tasks sample_kernel [2, 2] (two_tasks (Seek_lock sample_file 0 2)) = Some w
    \<and> calls w 1 = Write_lock [0x41, 10] 2 \<and> happened w = [Kept_event 2] \<and> (\<forall>u. answers_ok sample_kernel (calls w u) (kern w))"
  by (simp add: run_simps)

subsection \<open>Properties\<close>

text \<open>Property C5: concurrent reads, writes and seeks of any number of tasks, interleaved at every
  access to the shared device, take effect one after the other, as long as no wait for the mutex is
  interrupted and the block that keeps the bytes is granted (the writers' own blocks may be refused and
  their copies fail). The record of what took effect, in the order of the accesses, replays on the list of
  commands and the fragment: every read in it delivered what the commands at its place say, every
  write did what it does alone, and whenever the mutex is free the device holds the result. No two
  tasks are between their lock and unlock, and the device owns its blocks.\<close>

theorem concurrent_calls_linearise:
  assumes "conc_reachable w"
  shows "\<exists>a. replay ([], []) (happened w) = Some a
    \<and> (lock (aesd_device (kern w)) = None \<longrightarrow> abs_dev (kern w) = a)
    \<and> dev_inv (kern w)
    \<and> (\<forall>t u. inside (calls w t) \<and> inside (calls w u) \<longrightarrow> t = u)"
proof -
  have I: "conc_inv w" "replay ([], []) (happened w) = Some (view w)"
    using conc_reachable_inv[OF assms] by simp_all
  have "t = u" if "inside (calls w t)" "inside (calls w u)" for t u
    using conc_invD(2)[OF I(1)] that by (metis option.inject)
  then show ?thesis using I view_free conc_invD(1)[OF I(1)] by auto
qed

theorem concurrent_calls_linearise_witness:
  "\<exists>w a. conc_reachable w \<and> happened w = [Write_event 1 [0x41, 10], Read_event 2 9 1 [10]]
    \<and> replay ([], []) (happened w) = Some a \<and> dev_inv (kern w)"
proof -
  obtain w where run: "run_tasks sample_kernel [1, 1, 1, 1, 1, 2, 2, 1] (two_tasks (Read_lock 9 1)) = Some w"
    and w: "happened w = [Write_event 1 [0x41, 10], Read_event 2 9 1 [10]]"
    using writer_and_reader by blast
  have "conc_reachable w" using run_tasks_reachable[OF two_tasks_reachable _ _ run] by simp
  then show ?thesis using concurrent_calls_linearise w by blast
qed

text \<open>Property C6: under the same conditions lines of concurrent writers are never torn or mixed: if
  every write so far held a line feed, the free device holds the bytes of the last ten of them, whole and
  in the order in which they took effect.\<close>

theorem concurrent_lines_stay_whole:
  assumes "conc_reachable w" "lock (aesd_device (kern w)) = None"
    and "\<forall>l \<in> set (written (happened w)). newline \<in> set l"
  shows "commands (kern w) = last_n 10 (written (happened w)) \<and> pending (kern w) = []"
proof -
  have I: "conc_inv w" "replay ([], []) (happened w) = Some (view w)"
    using conc_reachable_inv[OF assms(1)] by simp_all
  have "abs_dev (kern w) = (last_n 10 (written (happened w)), [])"
    using replay_written[OF I(2)] view_free[OF I(1) assms(2)] spec_write_lines[of "written (happened w)" "[]"] assms(3)
    by simp
  then show ?thesis by (simp add: abs_dev_def)
qed

theorem concurrent_lines_stay_whole_witness:
  "\<exists>w. conc_reachable w \<and> commands (kern w) = [[0x41, 10], [0x42, 10]] \<and> pending (kern w) = []"
proof -
  obtain w where run: "run_tasks sample_kernel [1, 1, 1, 1, 1, 2, 2, 1, 2, 2, 2, 2] (two_tasks (Write_lock [0x42, 10] 2)) = Some w"
    and w: "happened w = [Write_event 1 [0x41, 10], Write_event 2 [0x42, 10]]" "lock (aesd_device (kern w)) = None"
    using two_writers by blast
  have "conc_reachable w" using run_tasks_reachable[OF two_tasks_reachable _ _ run] by simp
  then show ?thesis using concurrent_lines_stay_whole[of w] w by (auto simp: last_n_def)
qed

text \<open>Property C10: under the same conditions concurrent calls do not block each other for ever, unless a
  seek from the end has kept the mutex: a call that is not at its end either has a next step that is
  defined and brings it nearer to its end, or it waits for the mutex, and then the task that holds it
  has such a step. Once a seek with a mode other than \<open>SEEK_SET\<close> and \<open>SEEK_CUR\<close> has ended, every call
  that waits for the mutex is stuck, in this and in every later state; the others (which can only
  release their own blocks) still have their step.\<close>

theorem concurrent_calls_progress:
  assumes "conc_reachable w" "\<not> finished (calls w t)"
    and "kernel_ok K" "mutex_lock_interruptible K = 0" "\<forall>u. answers_ok K (calls w u) (kern w)"
  shows "if at_lock (calls w t) \<and> (\<exists>u. Kept_event u \<in> set (happened w))
    then handler_step K t (calls w t) (kern w) = None
    else \<exists>u ph s. handler_step K u (calls w u) (kern w) = Some (ph, s) \<and> stage ph < stage (calls w u)
      \<and> (u = t \<or> at_lock (calls w t) \<and> lock (aesd_device (kern w)) = Some u)"
proof -
  have inv: "conc_inv w" and kept: "kept_inv w"
    using conc_reachable_inv conc_reachable_kept assms(1) by blast+
  have step: "\<exists>ph s. handler_step K u (calls w u) (kern w) = Some (ph, s) \<and> stage ph < stage (calls w u)"
    if "\<not> finished (calls w u)" "at_lock (calls w u) \<longrightarrow> lock (aesd_device (kern w)) = None" for u
    using step_enabled[OF inv assms(3,4)] assms(5) that stage_decreases by fastforce
  show ?thesis
  proof (cases "at_lock (calls w t) \<longrightarrow> lock (aesd_device (kern w)) = None")
    case True
    have "\<nexists>u. Kept_event u \<in> set (happened w)" if "at_lock (calls w t)"
      using kept True that by (auto simp: kept_inv_def)
    then show ?thesis using True step[OF assms(2)] by auto
  next
    case False
    then obtain u where u: "lock (aesd_device (kern w)) = Some u" "at_lock (calls w t)" by auto
    show ?thesis
    proof (cases "\<exists>u. Kept_event u \<in> set (happened w)")
      case True
      then show ?thesis using u waits_at_lock assms(4) by simp
    next
      case False
      then have "inside (calls w u)" using kept u(1) by (auto simp: kept_inv_def)
      then have "\<not> finished (calls w u)" "\<not> at_lock (calls w u)" by (cases "calls w u"; simp)+
      then show ?thesis using step[of u] u False by auto
    qed
  qed
qed

text \<open>Task 2 waits for task 1, which can go on; and task 1 waits for ever after a seek of task 2.\<close>

theorem concurrent_calls_progress_witness:
  "(\<exists>w. conc_reachable w \<and> calls w 2 = Write_lock [0x42, 10] 2 \<and> lock (aesd_device (kern w)) = Some 1
    \<and> (\<exists>u ph s. handler_step sample_kernel u (calls w u) (kern w) = Some (ph, s) \<and> stage ph < stage (calls w u)))
   \<and> (\<exists>w. conc_reachable w \<and> calls w 1 = Write_lock [0x41, 10] 2
    \<and> handler_step sample_kernel 1 (calls w 1) (kern w) = None)"
proof
  have "run_tasks sample_kernel [1] (two_tasks (Write_lock [0x42, 10] 2)) \<noteq> None" by (simp add: run_simps)
  then obtain w where run: "run_tasks sample_kernel [1] (two_tasks (Write_lock [0x42, 10] 2)) = Some w" by blast
  note w = writer_inside[OF run]
  have r: "conc_reachable w" using run_tasks_reachable[OF two_tasks_reachable _ _ run] by simp
  have "\<forall>u. answers_ok sample_kernel (calls w u) (kern w)" "\<not> finished (calls w 2)" using w by simp_all
  with concurrent_calls_progress[OF r] have
    "\<exists>u ph s. handler_step sample_kernel u (calls w u) (kern w) = Some (ph, s) \<and> stage ph < stage (calls w u)"
    using w by (metis empty_iff list.set(1) sample_kernel_ok sample_kernel_sel(1))
  moreover have "calls w 2 = Write_lock [0x42, 10] 2" "lock (aesd_device (kern w)) = Some 1" using w by simp_all
  ultimately show "\<exists>w. conc_reachable w \<and> calls w 2 = Write_lock [0x42, 10] 2 \<and> lock (aesd_device (kern w)) = Some 1
    \<and> (\<exists>u ph s. handler_step sample_kernel u (calls w u) (kern w) = Some (ph, s) \<and> stage ph < stage (calls w u))"
    using r by blast
next
  obtain w where run: "run_tasks sample_kernel [2, 2] (two_tasks (Seek_lock sample_file 0 2)) = Some w"
    and w: "calls w 1 = Write_lock [0x41, 10] 2" "happened w = [Kept_event 2]"
      "\<forall>u. answers_ok sample_kernel (calls w u) (kern w)"
    using seek_keeps by blast
  have r: "conc_reachable w" using run_tasks_reachable[OF two_tasks_reachable _ _ run] by simp
  then have "handler_step sample_kernel 1 (calls w 1) (kern w) = None"
    using concurrent_calls_progress[OF r, of 1 sample_kernel] w by (simp del: handler_step.simps)
  then show "\<exists>w. conc_reachable w \<and> calls w 1 = Write_lock [0x41, 10] 2
      \<and> handler_step sample_kernel 1 (calls w 1) (kern w) = None"
    using r w(1) by blast
qed

end
