(* ===== verification/Systemcalls.thy ===== *)
theory Systemcalls
  imports Prelude
begin

section \<open>Running commands in child processes\<close>

text \<open>
  \<^verbatim>\<open>src/examples/systemcalls/systemcalls.c\<close>. What the operating system answers is a parameter:
  the results of \<open>system\<close>, \<open>fork\<close>, \<open>open\<close> and \<open>waitpid\<close>, and the programs that \<open>execv\<close> finds at
  a path. The world records which programs were run, with which arguments and where their standard
  output went, and the file descriptors the caller holds.
\<close>

subsection \<open>The operating system\<close>

abbreviation (input) EBADF :: int where "EBADF \<equiv> 9"
abbreviation (input) EFAULT_exec :: int where "EFAULT_exec \<equiv> 14"

text \<open>\<open>program p\<close> is the program at path \<open>p\<close>: the wait status of its run on an argument vector.
  \<open>exec_errno p\<close> is the error of an \<open>execv\<close> that finds none.\<close>

record os =
  system_ret :: "string \<Rightarrow> int"
  fork_ret :: int
  program :: "string \<Rightarrow> (string list \<Rightarrow> int) option"
  exec_errno :: "string \<Rightarrow> int"
  open_ret :: "string \<Rightarrow> int"
  waitpid_ret :: int

datatype stdout = Inherited | To_file string

record world =
  runs :: "(string \<times> string list \<times> stdout) list"
  fds :: "int list"

text \<open>The wait status of a process that calls \<open>exit(code)\<close>.\<close>

definition exit_status :: "int \<Rightarrow> int" where
  "exit_status code = (code mod 256) * 256"

subsection \<open>The functions\<close>

definition do_system :: "os \<Rightarrow> string \<Rightarrow> bool" where
  "do_system M cmd = (system_ret M cmd = 0)"

text \<open>
  Collecting the variable arguments: \<open>count\<close> of them, ended by \<open>NULL\<close>. A negative length of the
  array or more \<open>va_arg\<close> than there are arguments has no value.
\<close>

definition va_command :: "int \<Rightarrow> string list \<Rightarrow> string list option" where
  "va_command count args =
     (if 0 \<le> count \<and> nat count \<le> length args then Some (take (nat count) args) else None)"

text \<open>\<open>execv(command[0], command)\<close> in the child: it returns only on an error, whose number then is
  the exit code. An empty vector passes \<open>NULL\<close> as the path.\<close>

definition child_exec :: "os \<Rightarrow> string list \<Rightarrow> stdout \<Rightarrow> world \<Rightarrow> int \<times> world" where
  "child_exec M command out w =
     (case command of
        [] \<Rightarrow> (exit_status EFAULT_exec, w)
      | path # _ \<Rightarrow>
          (case program M path of
             None \<Rightarrow> (exit_status (exec_errno M path), w)
           | Some run \<Rightarrow> (run command, w\<lparr>runs := runs w @ [(path, command, out)]\<rparr>)))"

definition do_exec :: "os \<Rightarrow> int \<Rightarrow> string list \<Rightarrow> world \<Rightarrow> (bool \<times> world) option" where
  "do_exec M count args w = do {
     command \<leftarrow> va_command count args;
     let pid = fork_ret M;
     if pid = - 1 then Some (False, w)
     else do {
       let (status, w) = child_exec M command Inherited w;
       if waitpid_ret M = - 1 then Some (False, w) else Some (status = 0, w)
     }
   }"

text \<open>
  The descriptor that \<open>open\<close> returns is not checked; \<open>dup2\<close> fails in the child if it is \<open>-1\<close>. The
  parent closes its descriptor after the fork, but not when the fork fails.
\<close>

definition do_exec_redirect ::
  "os \<Rightarrow> string \<Rightarrow> int \<Rightarrow> string list \<Rightarrow> world \<Rightarrow> (bool \<times> world) option" where
  "do_exec_redirect M outputfile count args w = do {
     command \<leftarrow> va_command count args;
     let fd = open_ret M outputfile;
     let w = (if fd = - 1 then w else w\<lparr>fds := fd # fds w\<rparr>);
     let pid = fork_ret M;
     if pid = - 1 then Some (False, w)
     else do {
       let (status, w) = (if fd = - 1 then (exit_status EBADF, w)
                          else child_exec M command (To_file outputfile) w);
       let w = w\<lparr>fds := remove1 fd (fds w)\<rparr>;
       if waitpid_ret M = - 1 then Some (False, w) else Some (status = 0, w)
     }
   }"

subsection \<open>Properties\<close>

lemma va_command_Some [simp]: "va_command (int (length args)) args = Some args"
  by (simp add: va_command_def)

text \<open>\<open>execv\<close> errors are positive and smaller than 256, so they are never the status of success.\<close>

definition os_ok :: "os \<Rightarrow> bool" where
  "os_ok M \<longleftrightarrow> (\<forall>p. program M p = None \<longrightarrow> 0 < exec_errno M p \<and> exec_errno M p < 256)"

lemma exit_status_errno: "0 < e \<Longrightarrow> e < 256 \<Longrightarrow> exit_status e \<noteq> 0"
  by (simp add: exit_status_def)

text \<open>A system with \<open>/bin/echo\<close> only.\<close>

definition sample_os :: os where
  "sample_os = \<lparr>system_ret = (\<lambda>_. 0), fork_ret = 100,
     program = (\<lambda>p. if p = ''/bin/echo'' then Some (\<lambda>argv. 0) else None),
     exec_errno = (\<lambda>_. 2), open_ret = (\<lambda>p. if p = ''out'' then 3 else - 1), waitpid_ret = 100\<rparr>"

lemma sample_os_ok [simp]: "os_ok sample_os"
  by (simp add: os_ok_def sample_os_def)

lemma sample_os_sel [simp]:
  "fork_ret sample_os = 100" "waitpid_ret sample_os = 100" "open_ret sample_os ''out'' = 3"
  "program sample_os ''/bin/echo'' = Some (\<lambda>argv. 0)" "program sample_os ''echo'' = None"
  by (simp_all add: sample_os_def)

text \<open>Property C29: \<open>do_exec\<close> returns true exactly if the child could be created and awaited, a program
  is at the path given as first argument (no search), and it was run on exactly the given
  arguments and reported success; a program is run at most once.\<close>

theorem do_exec_true_iff:
  assumes "os_ok M" "path # args = argv"
  shows "\<exists>ok w'. do_exec M (int (length argv)) argv w = Some (ok, w')
    \<and> (ok \<longleftrightarrow> fork_ret M \<noteq> - 1 \<and> waitpid_ret M \<noteq> - 1 \<and> (\<exists>run. program M path = Some run \<and> run argv = 0))
    \<and> fds w' = fds w
    \<and> runs w' = runs w @ (if fork_ret M \<noteq> - 1 \<and> program M path \<noteq> None
                          then [(path, argv, Inherited)] else [])"
  using assms exit_status_errno[of "exec_errno M path"]
  by (cases "program M path") (auto simp: do_exec_def child_exec_def os_ok_def Let_def)

theorem do_exec_true_iff_witness:
  "(\<exists>w'. do_exec sample_os 2 [''/bin/echo'', ''hi''] \<lparr>runs = [], fds = []\<rparr> = Some (True, w')
      \<and> runs w' = [(''/bin/echo'', [''/bin/echo'', ''hi''], Inherited)]) \<and>
   (\<exists>w'. do_exec sample_os 2 [''echo'', ''hi''] \<lparr>runs = [], fds = []\<rparr> = Some (False, w') \<and> runs w' = [])"
  using do_exec_true_iff[of sample_os "''/bin/echo''" "[''hi'']" "[''/bin/echo'', ''hi'']" "\<lparr>runs = [], fds = []\<rparr>"]
    do_exec_true_iff[of sample_os "''echo''" "[''hi'']" "[''echo'', ''hi'']" "\<lparr>runs = [], fds = []\<rparr>"]
  by auto

text \<open>\<open>do_exec_redirect\<close> runs the program with its standard output in the given file and
  returns true exactly on success; if the file cannot be opened nothing is run and it returns
  false. The caller's descriptors are as before, unless the fork fails: then the opened file stays
  open.\<close>

theorem do_exec_redirect_runs:
  assumes "os_ok M" "path # args = argv" "open_ret M file \<notin> set (fds w)" "open_ret M file \<ge> - 1"
  shows "\<exists>ok w'. do_exec_redirect M file (int (length argv)) argv w = Some (ok, w')
    \<and> (ok \<longleftrightarrow> fork_ret M \<noteq> - 1 \<and> waitpid_ret M \<noteq> - 1 \<and> open_ret M file \<noteq> - 1
          \<and> (\<exists>run. program M path = Some run \<and> run argv = 0))
    \<and> fds w' = (if fork_ret M = - 1 \<and> open_ret M file \<noteq> - 1 then [open_ret M file] else []) @ fds w
    \<and> runs w' = runs w @ (if fork_ret M \<noteq> - 1 \<and> open_ret M file \<noteq> - 1 \<and> program M path \<noteq> None
                          then [(path, argv, To_file file)] else [])"
  using assms exit_status_errno[of "exec_errno M path"] exit_status_errno[of EBADF]
  by (cases "program M path")
    (auto simp: do_exec_redirect_def child_exec_def os_ok_def remove1_idem Let_def)

theorem do_exec_redirect_runs_witness:
  "(\<exists>w'. do_exec_redirect sample_os ''out'' 1 [''/bin/echo''] \<lparr>runs = [], fds = [0, 1, 2]\<rparr> = Some (True, w')
      \<and> runs w' = [(''/bin/echo'', [''/bin/echo''], To_file ''out'')])
   \<and> (\<exists>w'. do_exec_redirect (sample_os\<lparr>fork_ret := - 1\<rparr>) ''out'' 1 [''/bin/echo'']
        \<lparr>runs = [], fds = [0, 1, 2]\<rparr> = Some (False, w') \<and> fds w' = [3, 0, 1, 2])"
proof -
  have "os_ok (sample_os\<lparr>fork_ret := - 1\<rparr>)" using sample_os_ok by (simp add: os_ok_def)
  then show ?thesis
    using do_exec_redirect_runs[of sample_os "''/bin/echo''" "[]" "[''/bin/echo'']" "''out''" "\<lparr>runs = [], fds = [0, 1, 2]\<rparr>"]
      do_exec_redirect_runs[of "sample_os\<lparr>fork_ret := - 1\<rparr>" "''/bin/echo''" "[]" "[''/bin/echo'']" "''out''" "\<lparr>runs = [], fds = [0, 1, 2]\<rparr>"]
    by auto
qed

end
