(* ===== verification/Threading.thy ===== *)
theory Threading
  imports Prelude
begin

section \<open>Threads that wait, lock, hold and release\<close>

text \<open>
  \<^verbatim>\<open>src/examples/threading/threading.c\<close> and its header. \<open>threadfunc\<close> is a step function on its
  program counter; the threads, the mutexes and a clock in microseconds (what \<open>usleep\<close> counts in)
  form the system. A schedule is a list of events: time passes, a thread makes its next step, or
  other code locks or releases a mutex. An event that cannot happen (a sleeping or blocked thread)
  has no successor.
\<close>

subsection \<open>State\<close>

record thread_data =
  thread_complete_success :: bool
  obtain_mutex :: u32
  release_mutex :: u32
  mutex :: nat

text \<open>The points at which \<open>threadfunc\<close> can be interrupted; the sleeps carry their deadline.\<close>

datatype pc = Start | Sleep_before nat | Lock | Sleep_holding nat | Unlock | Exited

text \<open>A mutex that was never initialised makes the lock functions return an error.\<close>

datatype mutex_state = Invalid | Free | Held nat | Held_outside

record system =
  now :: nat
  mutexes :: "nat \<Rightarrow> mutex_state"
  threads :: "(thread_data \<times> pc) list"
  leaked :: nat

subsection \<open>The thread function\<close>

text \<open>
  \<open>usleep\<close> takes an unsigned number of microseconds, so the \<open>int\<close> in the structure is read as one.
  A failed \<open>pthread_mutex_lock\<close> is printed and the function goes on; \<open>None\<close> is waiting.
\<close>

definition mutex_lock :: "nat \<Rightarrow> mutex_state \<Rightarrow> mutex_state option" where
  "mutex_lock tid m = (case m of Free \<Rightarrow> Some (Held tid) | Invalid \<Rightarrow> Some Invalid | _ \<Rightarrow> None)"

definition mutex_unlock :: "nat \<Rightarrow> mutex_state \<Rightarrow> mutex_state" where
  "mutex_unlock tid m = (if m = Held tid then Free else m)"

definition threadfunc :: "nat \<Rightarrow> system \<Rightarrow> system option" where
  "threadfunc tid s = (case array_get (threads s) tid of None \<Rightarrow> None | Some (d, p) \<Rightarrow>
     (let goto = (\<lambda>d p s. s\<lparr>threads := (threads s)[tid := (d, p)]\<rparr>) in
      case p of
        Start \<Rightarrow> Some (goto d (Sleep_before (now s + unat (obtain_mutex d))) s)
      | Sleep_before t \<Rightarrow> if now s < t then None else Some (goto d Lock s)
      | Lock \<Rightarrow>
          (case mutex_lock tid (mutexes s (mutex d)) of
             None \<Rightarrow> None
           | Some m \<Rightarrow> Some (goto d (Sleep_holding (now s + unat (release_mutex d)))
                        (s\<lparr>mutexes := (mutexes s)(mutex d := m)\<rparr>)))
      | Sleep_holding t \<Rightarrow> if now s < t then None else Some (goto d Unlock s)
      | Unlock \<Rightarrow>
          Some (goto (d\<lparr>thread_complete_success := True\<rparr>) Exited
            (s\<lparr>mutexes := (mutexes s)(mutex d := mutex_unlock tid (mutexes s (mutex d)))\<rparr>))
      | Exited \<Rightarrow> None))"

subsection \<open>Starting a thread\<close>

text \<open>
  The times are passed to the thread as they are, although they are given in milliseconds. The
  success flag of the new structure is indeterminate (the argument \<open>junk\<close>). When the thread cannot
  be created the structure is not freed.
\<close>

definition start_thread_obtaining_mutex ::
  "bool \<Rightarrow> bool \<Rightarrow> bool \<Rightarrow> nat \<Rightarrow> u32 \<Rightarrow> u32 \<Rightarrow> system \<Rightarrow> bool \<times> system" where
  "start_thread_obtaining_mutex malloc_ok create_ok junk m wait_to_obtain_ms wait_to_release_ms s =
     (if \<not> malloc_ok then (False, s)
      else let data = \<lparr>thread_complete_success = junk, obtain_mutex = wait_to_obtain_ms,
                       release_mutex = wait_to_release_ms, mutex = m\<rparr> in
           if \<not> create_ok then (False, s\<lparr>leaked := leaked s + 1\<rparr>)
           else (True, s\<lparr>threads := threads s @ [(data, Start)]\<rparr>))"

subsection \<open>Schedules\<close>

datatype event = Tick nat | Run nat | Spawn bool nat u32 u32 | Lock_outside nat | Unlock_outside nat

inductive thr_step :: "event \<Rightarrow> system \<Rightarrow> system \<Rightarrow> bool" where
  tick: "thr_step (Tick d) s (s\<lparr>now := now s + d\<rparr>)"
| run: "threadfunc tid s = Some s' \<Longrightarrow> thr_step (Run tid) s s'"
| spawn: "start_thread_obtaining_mutex True True junk m a b s = (True, s') \<Longrightarrow>
     thr_step (Spawn junk m a b) s s'"
| lock_outside: "mutexes s m = Free \<Longrightarrow>
     thr_step (Lock_outside m) s (s\<lparr>mutexes := (mutexes s)(m := Held_outside)\<rparr>)"
| unlock_outside: "mutexes s m = Held_outside \<Longrightarrow>
     thr_step (Unlock_outside m) s (s\<lparr>mutexes := (mutexes s)(m := Free)\<rparr>)"

code_pred (modes: i \<Rightarrow> i \<Rightarrow> o \<Rightarrow> bool) thr_step .

inductive_simps thr_step_simps:
  "thr_step (Tick d) s s'" "thr_step (Run tid) s s'" "thr_step (Spawn junk m a b) s s'"
  "thr_step (Lock_outside m) s s'" "thr_step (Unlock_outside m) s s'"

inductive thr_steps :: "event list \<Rightarrow> system \<Rightarrow> system \<Rightarrow> bool" where
  finished: "thr_steps [] s s"
| more: "thr_step e s s' \<Longrightarrow> thr_steps es s' s'' \<Longrightarrow> thr_steps (e # es) s s''"

inductive_simps thr_steps_simps: "thr_steps [] s s'" "thr_steps (e # es) s s'"

lemma thr_steps_append: "thr_steps es s s' \<Longrightarrow> thr_steps es' s' s'' \<Longrightarrow> thr_steps (es @ es') s s''"
  by (induction rule: thr_steps.induct) (auto intro: more)

subsection \<open>Mutual exclusion\<close>

text \<open>The points at which a thread has the mutex.\<close>

fun holding :: "pc \<Rightarrow> bool" where
  "holding (Sleep_holding t) = True"
| "holding Unlock = True"
| "holding p = False"

definition in_section :: "thread_data \<times> pc \<Rightarrow> nat \<Rightarrow> bool" where
  "in_section t m \<longleftrightarrow> mutex (fst t) = m \<and> holding (snd t)"

text \<open>A valid mutex is held by a thread exactly while the thread is between its lock and its
  unlock.\<close>

definition thr_inv :: "system \<Rightarrow> bool" where
  "thr_inv s \<longleftrightarrow>
     (\<forall>i < length (threads s). holding (snd (threads s ! i)) \<longrightarrow>
        mutexes s (mutex (fst (threads s ! i))) \<in> {Invalid, Held i})
   \<and> (\<forall>m i. mutexes s m = Held i \<longrightarrow>
        i < length (threads s) \<and> holding (snd (threads s ! i)) \<and> mutex (fst (threads s ! i)) = m)"

lemma thr_invD:
  assumes "thr_inv s"
  shows "i < length (threads s) \<Longrightarrow> threads s ! i = (d, p) \<Longrightarrow> holding p \<Longrightarrow>
      mutexes s (mutex d) \<in> {Invalid, Held i}"
    and "mutexes s m = Held i \<Longrightarrow> i < length (threads s) \<and> holding (snd (threads s ! i))
      \<and> mutex (fst (threads s ! i)) = m"
  using assms by (fastforce simp: thr_inv_def)+

text \<open>A thread that moves on without touching its mutex, and one that changes it.\<close>

lemma thr_inv_move:
  assumes "thr_inv s" "tid < length (threads s)" "threads s ! tid = (d, p)"
    and "holding p' = holding p" "mutex d' = mutex d"
  shows "thr_inv (s\<lparr>threads := (threads s)[tid := (d', p')]\<rparr>)"
  using assms unfolding thr_inv_def by (auto simp: nth_list_update) (metis fst_conv snd_conv)+

lemma thr_inv_change:
  assumes inv: "thr_inv s" and tid: "tid < length (threads s)" "threads s ! tid = (d, p)"
    and old: "mutexes s (mutex d) = Invalid \<or> mutexes s (mutex d) = Free \<or> mutexes s (mutex d) = Held tid"
    and m: "mutexes s (mutex d) = Invalid \<Longrightarrow> m = Invalid"
    and new: "holding p' \<Longrightarrow> m = Invalid \<or> m = Held tid" "\<And>i. m = Held i \<Longrightarrow> i = tid \<and> holding p'"
    and off: "\<not> holding p' \<Longrightarrow> m \<noteq> Held tid" and d': "mutex d' = mutex d"
    and only: "\<And>k. mutexes s k = Held tid \<Longrightarrow> k = mutex d"
  shows "thr_inv (s\<lparr>mutexes := (mutexes s)(mutex d := m), threads := (threads s)[tid := (d', p')]\<rparr>)"
proof -
  note I = thr_invD[OF inv]
  have 1: "((mutexes s)(mutex d := m)) (mutex (fst ((threads s)[tid := (d', p')] ! i))) \<in> {Invalid, Held i}"
    if "i < length (threads s)" "holding (snd ((threads s)[tid := (d', p')] ! i))" for i
  proof (cases "i = tid")
    case True
    then show ?thesis using that tid(1) new(1) d' by auto
  next
    case False
    obtain e q where e: "threads s ! i = (e, q)" by (cases "threads s ! i")
    have "mutexes s (mutex e) \<in> {Invalid, Held i}"
      using I(1)[OF that(1) e] that(2) False e by simp
    then show ?thesis using False e old m by auto
  qed
  have 2: "i < length (threads s) \<and> holding (snd ((threads s)[tid := (d', p')] ! i))
      \<and> mutex (fst ((threads s)[tid := (d', p')] ! i)) = k"
    if "((mutexes s)(mutex d := m)) k = Held i" for k i
  proof (cases "k = mutex d")
    case True
    then show ?thesis using that new(2)[of i] tid d' by auto
  next
    case False
    then have k: "mutexes s k = Held i" using that by simp
    then have "i \<noteq> tid" using only[of k] False by auto
    then show ?thesis using I(2)[OF k] by simp
  qed
  show ?thesis using 1 2 by (simp add: thr_inv_def)
qed

lemma threadfunc_inv:
  assumes inv: "thr_inv s" and step: "threadfunc tid s = Some s'"
  shows "thr_inv s'"
proof -
  obtain d p where tid: "tid < length (threads s)" "threads s ! tid = (d, p)"
    using step by (cases "tid < length (threads s)") (auto simp: threadfunc_def split: prod.splits)
  have only: "k = mutex d" if "mutexes s k = Held tid" for k
    using thr_invD(2)[OF inv that] tid by simp
  have none: "mutexes s k \<noteq> Held tid" if "\<not> holding p" for k
    using thr_invD(2)[OF inv, of k tid] tid that by auto
  show ?thesis
  proof (cases p)
    case Lock
    then obtain m where m: "mutex_lock tid (mutexes s (mutex d)) = Some m"
        "s' = s\<lparr>mutexes := (mutexes s)(mutex d := m),
               threads := (threads s)[tid := (d, Sleep_holding (now s + unat (release_mutex d)))]\<rparr>"
      using step tid by (auto simp: threadfunc_def Let_def split: option.splits)
    show ?thesis
      unfolding m(2)
    proof (rule thr_inv_change[OF inv tid])
      show "mutexes s (mutex d) = Invalid \<or> mutexes s (mutex d) = Free \<or> mutexes s (mutex d) = Held tid"
        "mutexes s (mutex d) = Invalid \<Longrightarrow> m = Invalid" "m = Invalid \<or> m = Held tid"
        "\<And>i. m = Held i \<Longrightarrow> i = tid \<and> holding (Sleep_holding (now s + unat (release_mutex d)))"
        using m(1) by (auto simp: mutex_lock_def split: mutex_state.splits)
    qed (use only in simp_all)
  next
    case Unlock
    then have s': "s' = s\<lparr>mutexes := (mutexes s)(mutex d := mutex_unlock tid (mutexes s (mutex d))),
        threads := (threads s)[tid := (d\<lparr>thread_complete_success := True\<rparr>, Exited)]\<rparr>"
      using step tid by (simp add: threadfunc_def Let_def)
    have "mutexes s (mutex d) \<in> {Invalid, Held tid}"
      using thr_invD(1)[OF inv tid] Unlock by simp
    then have m: "mutexes s (mutex d) = Invalid \<or> mutexes s (mutex d) = Held tid" by simp
    then have m': "mutex_unlock tid (mutexes s (mutex d)) = Invalid \<and> mutexes s (mutex d) = Invalid
        \<or> mutex_unlock tid (mutexes s (mutex d)) = Free \<and> mutexes s (mutex d) = Held tid"
      by (auto simp: mutex_unlock_def)
    show ?thesis
      unfolding s'
    proof (rule thr_inv_change[OF inv tid])
      show "mutexes s (mutex d) = Invalid \<or> mutexes s (mutex d) = Free \<or> mutexes s (mutex d) = Held tid"
        using m by blast
      show "mutexes s (mutex d) = Invalid \<Longrightarrow> mutex_unlock tid (mutexes s (mutex d)) = Invalid"
        "\<And>i. mutex_unlock tid (mutexes s (mutex d)) = Held i \<Longrightarrow> i = tid \<and> holding Exited"
        "mutex_unlock tid (mutexes s (mutex d)) \<noteq> Held tid"
        using m' by auto
    qed (use only in simp_all)
  next
    case Start
    then have "s' = s\<lparr>threads := (threads s)[tid := (d, Sleep_before (now s + unat (obtain_mutex d)))]\<rparr>"
      using step tid by (simp add: threadfunc_def Let_def)
    then show ?thesis using thr_inv_move[OF inv tid] Start by simp
  next
    case (Sleep_before t)
    then have "s' = s\<lparr>threads := (threads s)[tid := (d, Lock)]\<rparr>"
      using step tid by (simp add: threadfunc_def Let_def split: if_splits)
    then show ?thesis using thr_inv_move[OF inv tid] Sleep_before by simp
  next
    case (Sleep_holding t)
    then have "s' = s\<lparr>threads := (threads s)[tid := (d, Unlock)]\<rparr>"
      using step tid by (simp add: threadfunc_def Let_def split: if_splits)
    then show ?thesis using thr_inv_move[OF inv tid] Sleep_holding by simp
  next
    case Exited
    then show ?thesis using step tid by (simp add: threadfunc_def Let_def)
  qed
qed

lemma thr_inv_outside:
  assumes inv: "thr_inv s" and "mutexes s m = Free \<or> mutexes s m = Held_outside"
    and "v = Free \<or> v = Held_outside"
  shows "thr_inv (s\<lparr>mutexes := (mutexes s)(m := v)\<rparr>)"
proof -
  have "mutex (fst (threads s ! i)) \<noteq> m" if "i < length (threads s)" "holding (snd (threads s ! i))" for i
    using thr_invD(1)[OF inv that(1), of "fst (threads s ! i)" "snd (threads s ! i)"] that(2) assms(2)
    by auto
  then show ?thesis using inv assms(3) by (auto simp: thr_inv_def)
qed

lemma thr_step_inv:
  assumes "thr_inv s" "thr_step e s s'"
  shows "thr_inv s'"
  using assms(2,1)
proof (cases rule: thr_step.cases)
  case (run tid)
  then show ?thesis using threadfunc_inv[OF assms(1)] by simp
next
  case (spawn junk m a b)
  then show ?thesis
    using assms(1)
    by (auto simp: start_thread_obtaining_mutex_def thr_inv_def Let_def nth_append)
      (blast, metis less_SucI)
next
  case (lock_outside m)
  then show ?thesis using thr_inv_outside[OF assms(1), of m Held_outside] by simp
next
  case (unlock_outside m)
  then show ?thesis using thr_inv_outside[OF assms(1), of m Free] by simp
qed (simp_all add: thr_inv_def)

lemma thr_steps_inv: "thr_steps es s s' \<Longrightarrow> thr_inv s \<Longrightarrow> thr_inv s'"
  by (induction rule: thr_steps.induct) (auto dest: thr_step_inv)

text \<open>A system before any thread: no thread holds a mutex.\<close>

definition initial :: "system \<Rightarrow> bool" where
  "initial s \<longleftrightarrow> threads s = [] \<and> (\<forall>m i. mutexes s m \<noteq> Held i)"

lemma initial_inv: "initial s \<Longrightarrow> thr_inv s"
  by (simp add: thr_inv_def initial_def)

definition sample_system :: system where
  "sample_system = \<lparr>now = 0, mutexes = (\<lambda>m. Free), threads = [], leaked = 0\<rparr>"

text \<open>Property C27: in every schedule, whatever else locks the mutexes in between, a valid mutex is
  marked as held by a thread exactly if that thread was started on it and is between its lock and
  its unlock; so two different threads started on it are never both there.\<close>

theorem mutual_exclusion:
  assumes "thr_steps es s s'" "initial s" "mutexes s' m \<noteq> Invalid"
  shows "(\<forall>i. mutexes s' m = Held i \<longleftrightarrow> i < length (threads s') \<and> in_section (threads s' ! i) m)
    \<and> (\<forall>i j. i < length (threads s') \<and> j < length (threads s')
        \<and> in_section (threads s' ! i) m \<and> in_section (threads s' ! j) m \<longrightarrow> i = j)"
proof -
  have inv: "thr_inv s'" using thr_steps_inv[OF assms(1)] initial_inv[OF assms(2)] .
  have held: "mutexes s' m = Held i \<longleftrightarrow> i < length (threads s') \<and> in_section (threads s' ! i) m" for i
  proof
    show "mutexes s' m = Held i \<Longrightarrow> i < length (threads s') \<and> in_section (threads s' ! i) m"
      using thr_invD(2)[OF inv, of m i] by (simp add: in_section_def)
    show "i < length (threads s') \<and> in_section (threads s' ! i) m \<Longrightarrow> mutexes s' m = Held i"
      using thr_invD(1)[OF inv, of i "fst (threads s' ! i)" "snd (threads s' ! i)"] assms(3)
      by (auto simp: in_section_def)
  qed
  have "i = j" if "i < length (threads s')" "j < length (threads s')"
      "in_section (threads s' ! i) m" "in_section (threads s' ! j) m" for i j
    using that held[of i] held[of j] by simp
  then show ?thesis using held by blast
qed

theorem mutual_exclusion_witness:
  "\<exists>s'. thr_steps [Spawn False 0 5 7, Spawn False 0 5 7, Run 0, Run 1, Tick 5, Run 0, Run 0, Run 1]
      sample_system s' \<and> mutexes s' 0 = Held 0 \<and> in_section (threads s' ! 0) 0
    \<and> \<not> in_section (threads s' ! 1) 0"
proof -
  let ?d = "\<lparr>thread_complete_success = False, obtain_mutex = 5, release_mutex = 7, mutex = 0\<rparr>"
  obtain s' where run: "thr_steps [Spawn False 0 5 7, Spawn False 0 5 7, Run 0, Run 1, Tick 5, Run 0, Run 0, Run 1]
      sample_system s'" and s': "threads s' = [(?d, Sleep_holding 12), (?d, Lock)]" "mutexes s' 0 = Held 0"
    by (simp add: thr_steps_simps thr_step_simps start_thread_obtaining_mutex_def sample_system_def
        threadfunc_def Let_def mutex_lock_def)
  have init: "initial sample_system" by (simp add: initial_def sample_system_def)
  have held: "\<forall>i. mutexes s' 0 = Held i \<longleftrightarrow> i < length (threads s') \<and> in_section (threads s' ! i) 0"
    using mutual_exclusion[OF run init, of 0] s'(2) by simp
  have "\<not> in_section (threads s' ! 1) 0" "in_section (threads s' ! 0) 0"
    using held[rule_format, of 0] held[rule_format, of 1] s' by simp_all
  then show ?thesis using run s' by auto
qed

subsection \<open>Every thread finishes\<close>

fun stage :: "pc \<Rightarrow> nat" where
  "stage Start = 5" | "stage (Sleep_before t) = 4" | "stage Lock = 3"
| "stage (Sleep_holding t) = 2" | "stage Unlock = 1" | "stage Exited = 0"

fun deadline :: "pc \<Rightarrow> nat" where
  "deadline (Sleep_before t) = t" | "deadline (Sleep_holding t) = t" | "deadline p = 0"

definition remaining :: "system \<Rightarrow> nat" where
  "remaining s = sum_list (map (\<lambda>(d, p). stage p) (threads s))"

definition no_outside :: "system \<Rightarrow> bool" where
  "no_outside s \<longleftrightarrow> (\<forall>m. mutexes s m \<noteq> Held_outside)"

text \<open>Every finished thread reports success, and the mutexes of the threads are valid.\<close>

definition flagged :: "system \<Rightarrow> bool" where
  "flagged s \<longleftrightarrow> (\<forall>(d, p) \<in> set (threads s). p = Exited \<longrightarrow> thread_complete_success d)"

definition valid_mutexes :: "system \<Rightarrow> bool" where
  "valid_mutexes s \<longleftrightarrow> (\<forall>(d, p) \<in> set (threads s). mutexes s (mutex d) \<noteq> Invalid)"

lemma remaining_update:
  assumes "tid < length (threads s)" "threads s ! tid = (d, p)" "stage p' < stage p"
    and "threads s' = (threads s)[tid := (d', p')]"
  shows "remaining s' < remaining s"
proof -
  let ?xs = "map (\<lambda>(d, p). stage p) (threads s)"
  have "remaining s' = sum_list (?xs[tid := stage p'])"
    by (simp add: remaining_def assms(4) map_update)
  also have "\<dots> = sum_list ?xs + stage p' - stage p"
    using assms(1,2) by (simp add: sum_list_update)
  finally have "remaining s' = remaining s + stage p' - stage p"
    by (simp add: remaining_def)
  moreover have "stage p \<le> remaining s"
    using elem_le_sum_list[of tid ?xs] assms(1,2) by (simp add: remaining_def)
  ultimately show ?thesis using assms(3) by simp
qed

text \<open>What a step does to the thread's own data.\<close>

fun next_thread :: "nat \<Rightarrow> thread_data \<Rightarrow> pc \<Rightarrow> thread_data \<times> pc" where
  "next_thread t d Start = (d, Sleep_before (t + unat (obtain_mutex d)))"
| "next_thread t d (Sleep_before _) = (d, Lock)"
| "next_thread t d Lock = (d, Sleep_holding (t + unat (release_mutex d)))"
| "next_thread t d (Sleep_holding _) = (d, Unlock)"
| "next_thread t d Unlock = (d\<lparr>thread_complete_success := True\<rparr>, Exited)"
| "next_thread t d Exited = (d, Exited)"

lemma threadfunc_threads:
  "threadfunc tid s = Some s' \<Longrightarrow> tid < length (threads s) \<Longrightarrow> threads s ! tid = (d, p) \<Longrightarrow>
     threads s' = (threads s)[tid := next_thread (now s) d p] \<and> p \<noteq> Exited"
  by (cases p) (auto simp: threadfunc_def Let_def split: if_splits option.splits)

lemma next_thread_stage: "p \<noteq> Exited \<Longrightarrow> stage (snd (next_thread t d p)) < stage p"
  by (cases p) auto

lemma next_thread_flag:
  "p \<noteq> Exited \<Longrightarrow> snd (next_thread t d p) = Exited \<Longrightarrow> thread_complete_success (fst (next_thread t d p))"
  by (cases p) auto

text \<open>A thread that is not blocked makes its next step once its deadline has passed.\<close>

lemma threadfunc_enabled:
  assumes "tid < length (threads s)" "threads s ! tid = (d, p)" "p \<noteq> Exited" "deadline p \<le> now s"
    and "p = Lock \<Longrightarrow> mutexes s (mutex d) = Free \<or> mutexes s (mutex d) = Invalid"
    and "no_outside s"
  shows "\<exists>s'. threadfunc tid s = Some s' \<and> no_outside s'"
  using assms
  by (cases p) (auto simp: threadfunc_def Let_def mutex_lock_def mutex_unlock_def no_outside_def)

lemma flagged_update:
  assumes "flagged s" "tid < length (threads s)" "p \<noteq> Exited"
    and "threads s' = (threads s)[tid := next_thread t d p]"
  shows "flagged s'"
proof -
  obtain d' p' where n: "next_thread t d p = (d', p')" by (cases "next_thread t d p")
  then have "p' = Exited \<longrightarrow> thread_complete_success d'"
    using next_thread_flag[OF assms(3), of t d] by simp
  then show ?thesis
    using assms(1,4) n set_update_subset_insert[of "threads s" tid "(d', p')"]
    unfolding flagged_def by auto
qed

lemma next_thread_mutex: "mutex (fst (next_thread t d p)) = mutex d"
  by (cases p) auto

lemma threadfunc_validity:
  "threadfunc tid s = Some s' \<Longrightarrow> mutexes s' m = Invalid \<longleftrightarrow> mutexes s m = Invalid"
proof -
  have lock: "mutex_lock tid k = Some k' \<Longrightarrow> k' = Invalid \<longleftrightarrow> k = Invalid" for k k'
    by (cases k) (auto simp: mutex_lock_def)
  have unlock: "mutex_unlock tid k = Invalid \<longleftrightarrow> k = Invalid" for k
    by (simp add: mutex_unlock_def)
  show "threadfunc tid s = Some s' \<Longrightarrow> ?thesis"
  proof (cases "array_get (threads s) tid")
    case (Some t)
    then show "threadfunc tid s = Some s' \<Longrightarrow> ?thesis"
      by (cases t; cases "snd t")
        (auto simp: threadfunc_def Let_def unlock dest: lock split: option.splits if_splits)
  qed (simp add: threadfunc_def)
qed

lemma threadfunc_valid:
  assumes "threadfunc tid s = Some s'" "valid_mutexes s"
  shows "valid_mutexes s'"
proof -
  obtain d p where tid: "tid < length (threads s)" "threads s ! tid = (d, p)"
    using assms(1) by (cases "tid < length (threads s)") (auto simp: threadfunc_def split: prod.splits)
  have "mutexes s (mutex d) \<noteq> Invalid" using assms(2) nth_mem[OF tid(1)] tid(2) by (auto simp: valid_mutexes_def)
  moreover have "set (threads s') \<subseteq> insert (next_thread (now s) d p) (set (threads s))"
    using threadfunc_threads[OF assms(1) tid] by (simp add: set_update_subset_insert)
  ultimately have "mutexes s (mutex (fst t)) \<noteq> Invalid" if "t \<in> set (threads s')" for t
    using that assms(2) next_thread_mutex[of "now s" d p] unfolding valid_mutexes_def case_prod_beta by auto
  then show ?thesis
    using threadfunc_validity[OF assms(1)] by (auto simp: valid_mutexes_def)
qed

lemma some_thread_moves:
  assumes "thr_inv s" "no_outside s" "flagged s" "valid_mutexes s" "\<exists>x \<in> set (threads s). snd x \<noteq> Exited"
  shows "\<exists>es s'. thr_steps es s s' \<and> remaining s' < remaining s \<and> thr_inv s' \<and> no_outside s'
    \<and> flagged s' \<and> valid_mutexes s' \<and> length (threads s') = length (threads s)"
proof -
  obtain tid d p where tid: "tid < length (threads s)" "threads s ! tid = (d, p)" "p \<noteq> Exited"
    and ready: "p = Lock \<Longrightarrow> mutexes s (mutex d) = Free \<or> mutexes s (mutex d) = Invalid"
  proof (cases "\<exists>x \<in> set (threads s). holding (snd x)")
    case True
    then obtain i d p where "i < length (threads s)" "threads s ! i = (d, p)" "holding p"
      by (metis in_set_conv_nth prod.collapse)
    then show ?thesis by (intro that[of i d p]) auto
  next
    case False
    obtain i d p where i: "i < length (threads s)" "threads s ! i = (d, p)" "p \<noteq> Exited"
      using assms(5) by (metis in_set_conv_nth prod.collapse)
    have "mutexes s (mutex d) \<noteq> Held j" for j
      using thr_invD(2)[OF assms(1), of "mutex d" j] False by (metis nth_mem)
    then have "mutexes s (mutex d) = Free \<or> mutexes s (mutex d) = Invalid"
      using assms(2) by (cases "mutexes s (mutex d)") (auto simp: no_outside_def)
    then show ?thesis using i by (intro that[of i d p])
  qed
  let ?s = "s\<lparr>now := now s + deadline p\<rparr>"
  have "no_outside ?s" using assms(2) by (simp add: no_outside_def)
  with tid ready obtain s' where run: "threadfunc tid ?s = Some s'" "no_outside s'"
    using threadfunc_enabled[of tid ?s d p] by auto
  obtain d' p' where n: "next_thread (now ?s) d p = (d', p')" by (cases "next_thread (now ?s) d p")
  have s': "threads s' = (threads s)[tid := (d', p')]"
    using threadfunc_threads[OF run(1), of d p] tid n by simp
  have "thr_steps [Tick (deadline p), Run tid] s s'"
    using run(1) by (simp add: thr_steps_simps thr_step_simps)
  moreover from this have "thr_inv s'" using thr_steps_inv assms(1) by blast
  moreover have "flagged s'"
    using flagged_update[OF assms(3) tid(1,3), of s' "now ?s" d] s' n by simp
  moreover have "remaining s' < remaining s"
    using remaining_update[OF tid(1,2) _ s'] next_thread_stage[OF tid(3), of "now ?s" d] n by simp
  moreover have "valid_mutexes s'"
    using threadfunc_valid[OF run(1)] assms(4) by (simp add: valid_mutexes_def)
  ultimately show ?thesis using s' run(2) by (metis length_list_update)
qed

lemma all_exit:
  assumes "thr_inv s" "no_outside s" "flagged s" "valid_mutexes s"
  shows "\<exists>es s'. thr_steps es s s' \<and> length (threads s') = length (threads s) \<and> flagged s'
    \<and> thr_inv s' \<and> no_outside s' \<and> valid_mutexes s' \<and> (\<forall>x \<in> set (threads s'). snd x = Exited)"
  using assms
proof (induction "remaining s" arbitrary: s rule: less_induct)
  case less
  show ?case
  proof (cases "\<exists>x \<in> set (threads s). snd x \<noteq> Exited")
    case True
    from some_thread_moves[OF less.prems True] obtain es s1 where s1: "thr_steps es s s1"
      "remaining s1 < remaining s" "thr_inv s1" "no_outside s1" "flagged s1"
      "valid_mutexes s1" "length (threads s1) = length (threads s)"
      by blast
    from less.hyps[OF s1(2-6)] obtain es' s' where "thr_steps es' s1 s'"
      "length (threads s') = length (threads s1)" "flagged s'" "thr_inv s'" "no_outside s'"
      "valid_mutexes s'" "\<forall>x \<in> set (threads s'). snd x = Exited"
      by blast
    then show ?thesis using thr_steps_append[OF s1(1)] s1(7) by metis
  next
    case False
    then show ?thesis using less.prems finished by blast
  qed
qed

lemma threadfunc_flagged:
  assumes "threadfunc tid s = Some s'" "flagged s"
  shows "flagged s'"
proof -
  obtain d p where tid: "tid < length (threads s)" "threads s ! tid = (d, p)"
    using assms(1) by (cases "tid < length (threads s)") (auto simp: threadfunc_def split: prod.splits)
  then show ?thesis
    using threadfunc_threads[OF assms(1) tid] flagged_update[OF assms(2) tid(1)] by blast
qed

lemma thr_steps_flagged: "thr_steps es s s' \<Longrightarrow> flagged s \<Longrightarrow> flagged s'"
proof (induction rule: thr_steps.induct)
  case (more e s s' es s'')
  from more.hyps(1) more.prems have "flagged s'"
  proof (cases rule: thr_step.cases)
    case (run tid)
    then show ?thesis using threadfunc_flagged more.prems by blast
  qed (auto simp: flagged_def start_thread_obtaining_mutex_def Let_def)
  then show ?case using more.IH by simp
qed simp

text \<open>Property C28: there is no deadlock: from every state that a schedule reaches in which the threads
  were started on valid mutexes and no other code holds a mutex, some continuation lets every
  started thread finish with success, and then every mutex that they used is free.\<close>

theorem threads_can_finish:
  assumes "thr_steps es s s1" "initial s" "\<forall>m. mutexes s1 m \<noteq> Held_outside"
    and "\<forall>(d, p) \<in> set (threads s1). mutexes s1 (mutex d) \<noteq> Invalid"
  shows "\<exists>es' s2. thr_steps (es @ es') s s2 \<and> length (threads s2) = length (threads s1)
    \<and> (\<forall>(d, p) \<in> set (threads s2). p = Exited \<and> thread_complete_success d \<and> mutexes s2 (mutex d) = Free)"
proof -
  have "flagged s" using assms(2) by (simp add: flagged_def initial_def)
  then have "flagged s1" using thr_steps_flagged[OF assms(1)] by simp
  moreover have "thr_inv s1" using thr_steps_inv[OF assms(1)] initial_inv[OF assms(2)] .
  ultimately obtain es' s2 where s2: "thr_steps es' s1 s2" "length (threads s2) = length (threads s1)"
      "flagged s2" "thr_inv s2" "no_outside s2" "valid_mutexes s2" "\<forall>x \<in> set (threads s2). snd x = Exited"
    using all_exit[of s1] assms(3,4) by (auto simp: no_outside_def valid_mutexes_def)
  have "mutexes s2 m \<noteq> Held i" for m i
    using thr_invD(2)[OF s2(4), of m i] s2(7) nth_mem[of i "threads s2"] by force
  then have free: "mutexes s2 m = Free \<or> mutexes s2 m = Invalid" for m
    using s2(5) by (cases "mutexes s2 m") (auto simp: no_outside_def)
  have "p = Exited \<and> thread_complete_success d \<and> mutexes s2 (mutex d) = Free" if "(d, p) \<in> set (threads s2)" for d p
    using that s2(3,6,7) free by (fastforce simp: flagged_def valid_mutexes_def)
  then show ?thesis
    using thr_steps_append[OF assms(1) s2(1)] s2(2) by blast
qed

theorem threads_can_finish_witness:
  "\<exists>es' s2. thr_steps ([Spawn False 0 5 7, Spawn False 0 5 7, Run 0] @ es') sample_system s2
    \<and> length (threads s2) = 2
    \<and> (\<forall>(d, p) \<in> set (threads s2). p = Exited \<and> thread_complete_success d \<and> mutexes s2 (mutex d) = Free)"
proof -
  let ?d = "\<lparr>thread_complete_success = False, obtain_mutex = 5, release_mutex = 7, mutex = 0\<rparr>"
  obtain s1 where s1: "thr_steps [Spawn False 0 5 7, Spawn False 0 5 7, Run 0] sample_system s1"
      "threads s1 = [(?d, Sleep_before 5), (?d, Start)]" "\<forall>m. mutexes s1 m = Free"
    by (simp add: thr_steps_simps thr_step_simps start_thread_obtaining_mutex_def sample_system_def
        threadfunc_def Let_def)
  have init: "initial sample_system" by (simp add: initial_def sample_system_def)
  show ?thesis
    using threads_can_finish[OF s1(1) init] s1(2,3) by (simp add: numeral_2_eq_2)
qed

text \<open>The times are microseconds, although the interface gives them in milliseconds: a
  thread started with waits \<open>a\<close> and \<open>b\<close> on a free mutex can have released it \<open>a + b\<close> microseconds
  after its start.\<close>

theorem waits_are_microseconds:
  assumes "mutexes s m = Free"
  shows "\<exists>s'. thr_steps [Spawn junk m a b, Run (length (threads s)), Tick (unat a), Run (length (threads s)),
        Run (length (threads s)), Tick (unat b), Run (length (threads s)), Run (length (threads s))] s s'
    \<and> now s' = now s + unat a + unat b \<and> mutexes s' m = Free
    \<and> thread_complete_success (fst (threads s' ! length (threads s)))"
  using assms
  by (simp add: thr_steps_simps thr_step_simps start_thread_obtaining_mutex_def threadfunc_def Let_def
      mutex_lock_def mutex_unlock_def nth_append)

theorem waits_are_microseconds_witness:
  "\<exists>s'. thr_steps [Spawn False 0 250 250, Run 0, Tick 250, Run 0, Run 0, Tick 250, Run 0, Run 0]
      sample_system s' \<and> now s' = 500"
  using waits_are_microseconds[of sample_system 0 False 250 250] by (auto simp: sample_system_def)

text \<open>A failed lock does not make the thread fail: on a mutex that is not initialised it
  still reports success, having held nothing.\<close>

theorem failed_lock_reports_success:
  assumes "mutexes s m = Invalid"
  shows "\<exists>s'. thr_steps [Spawn False m 0 0, Run (length (threads s)), Run (length (threads s)),
        Run (length (threads s)), Run (length (threads s)), Run (length (threads s))] s s'
    \<and> mutexes s' = mutexes s \<and> thread_complete_success (fst (threads s' ! length (threads s)))"
  using assms
  by (simp add: thr_steps_simps thr_step_simps start_thread_obtaining_mutex_def threadfunc_def Let_def
      mutex_lock_def mutex_unlock_def nth_append fun_upd_idem)

theorem failed_lock_reports_success_witness:
  "\<exists>s'. thr_steps [Spawn False 0 0 0, Run 0, Run 0, Run 0, Run 0, Run 0]
      (sample_system\<lparr>mutexes := \<lambda>m. Invalid\<rparr>) s' \<and> thread_complete_success (fst (threads s' ! 0))"
  using failed_lock_reports_success[of "sample_system\<lparr>mutexes := \<lambda>m. Invalid\<rparr>" 0]
  by (auto simp: sample_system_def)

end
