(* ===== verification/Writer.thy ===== *)
theory Writer
  imports Prelude
begin

section \<open>The writer utility\<close>

text \<open>
  \<^verbatim>\<open>src/finder-app/writer.c\<close>: writes a string to a file. The file system is a parameter of the
  state: the contents of the files, which of them can be opened for writing, and how many bytes
  the medium still takes. Messages are left out.
\<close>

record file_system =
  files :: "string \<Rightarrow> string option"
  writable :: "string \<Rightarrow> bool"
  space :: nat

text \<open>\<open>fopen(p, "w")\<close> creates or truncates the file.\<close>

definition fopen_w :: "string \<Rightarrow> file_system \<Rightarrow> file_system option" where
  "fopen_w p fs = (if writable fs p then Some (fs\<lparr>files := (files fs)(p \<mapsto> [])\<rparr>) else None)"

text \<open>\<open>fwrite\<close> and the flush of \<open>fclose\<close> store what fits; their results are not checked.\<close>

definition fwrite_close :: "string \<Rightarrow> string \<Rightarrow> file_system \<Rightarrow> file_system" where
  "fwrite_close p writestr fs =
     fs\<lparr>files := (files fs)(p \<mapsto> take (space fs) writestr), space := space fs - length writestr\<rparr>"

definition writer_main :: "string list \<Rightarrow> file_system \<Rightarrow> int \<times> file_system" where
  "writer_main argv fs =
     (let status = (if length argv \<noteq> 3 then 1 else 0) in
      if status = 0
      then let writefile = argv ! 1; writestr = argv ! 2 in
           case fopen_w writefile fs of
             None \<Rightarrow> (1, fs)
           | Some fs \<Rightarrow> (0, fwrite_close writefile writestr fs)
      else (status, fs))"

text \<open>Called with a file and a string, the utility exits with 0 exactly if the file can
  be opened; then the file holds the string (cut off, still with status 0, if the medium is full)
  and no other file has changed. In every other case it exits with 1 and changes nothing.\<close>

theorem writer_writes_string:
  "\<exists>status fs'. writer_main argv fs = (status, fs')
    \<and> (status = 0 \<or> status = 1)
    \<and> (if length argv = 3 \<and> writable fs (argv ! 1)
       then status = 0 \<and> files fs' (argv ! 1) = Some (take (space fs) (argv ! 2))
          \<and> (\<forall>p. p \<noteq> argv ! 1 \<longrightarrow> files fs' p = files fs p)
       else status = 1 \<and> fs' = fs)"
  by (auto simp: writer_main_def fopen_w_def fwrite_close_def Let_def)

theorem writer_writes_string_witness:
  "\<exists>fs'. writer_main [''writer'', ''f'', ''hello''] \<lparr>files = (\<lambda>_. None), writable = (\<lambda>_. True), space = 100\<rparr> = (0, fs')
    \<and> files fs' ''f'' = Some ''hello''"
  using writer_writes_string[of "[''writer'', ''f'', ''hello'']"
      "\<lparr>files = (\<lambda>_. None), writable = (\<lambda>_. True), space = 100\<rparr>"]
  by auto

end
