(* ===== verification/Username.thy ===== *)
theory Username
  imports Prelude
begin

section \<open>The configured user name\<close>

text \<open>
  \<^verbatim>\<open>src/examples/autotest-validate/autotest-validate.c\<close> and the helper of the assignment's tests
  that reads the user name from \<^verbatim>\<open>conf/username.txt\<close>
  (\<^verbatim>\<open>src/assignment-autotest/test/assignment1/username-from-conf-file.h\<close>): it takes the first
  line of the file and trims it at both ends with two loops over the buffer.
\<close>

subsection \<open>The functions of the example\<close>

definition this_function_returns_true :: bool where
  "this_function_returns_true = True"

definition this_function_returns_false :: bool where
  "this_function_returns_false = False"


subsection \<open>Reading and trimming a line\<close>

definition isgraph :: "byte \<Rightarrow> bool" where
  "isgraph b \<longleftrightarrow> 33 \<le> b \<and> b \<le> 126"





subsection \<open>The loops\<close>



lemma isgraph_nonzero: "isgraph b \<Longrightarrow> b \<noteq> 0"
  by (auto simp: isgraph_def)






end
