(* ===== verification/Unity_Print.thy ===== *)
theory Unity_Print
  imports Prelude
begin

section \<open>Unity: printing\<close>

text \<open>
  The printers of \<^verbatim>\<open>assignment-autotest/Unity/src/unity.c\<close> for an LP64 machine: \<open>UNITY_INT\<close>
  and \<open>UNITY_UINT\<close> have 64 bits, \<open>int\<close> has 32, \<open>char\<close> is signed. A printer is the list of the
  bytes that it hands to \<open>UNITY_OUTPUT_CHAR\<close>, in their order.

  A C string is the list of its characters, with the terminating zero behind the list; a pointer
  to one is an option with \<open>None\<close> for \<open>NULL\<close>. An array that need not be terminated is the list of
  its elements, and reading past them has no value.
\<close>

unbundle bit_operations_syntax

type_synonym cstring = "byte list option"

subsection \<open>Numbers\<close>

text \<open>The largest power of ten that the first loop reaches.\<close>

function find_divisor :: "u64 \<Rightarrow> u64 \<Rightarrow> u64" where
  "find_divisor number divisor =
     (if number div divisor > 9 then find_divisor number (divisor * 10) else divisor)"
  by pat_completeness auto

text \<open>A quotient above 9 leaves room for another factor ten, so the divisor never wraps around.\<close>

lemma ten_times_divisor:
  assumes "number div divisor > (9 :: u64)"
  shows "unat (divisor * 10) = unat divisor * 10" "unat divisor * 10 \<le> unat number" "0 < unat divisor"
proof -
  have "9 < unat number div unat divisor"
    using assms by (simp add: word_less_nat_alt unat_div)
  then show pos: "0 < unat divisor" by (cases "unat divisor") auto
  from \<open>9 < unat number div unat divisor\<close> have "10 \<le> unat number div unat divisor" by simp
  then show le: "unat divisor * 10 \<le> unat number"
    using pos by (simp add: less_eq_div_iff_mult_less_eq mult.commute)
  then have "unat divisor * unat (10 :: u64) < 2 ^ 64" using unat_lt_64[of number] by simp
  then show "unat (divisor * 10) = unat divisor * 10"
    by (subst unat_mult_lem[THEN iffD1]) simp_all
qed

termination find_divisor
proof (relation "measure (\<lambda>(number, divisor). unat number - unat divisor)")
  fix number divisor :: u64
  assume "9 < number div divisor"
  from ten_times_divisor[OF this]
  show "((number, divisor * 10), number, divisor) \<in> measure (\<lambda>(number, divisor). unat number - unat divisor)"
    by simp
qed simp

declare find_divisor.simps [simp del]

function print_digits :: "u64 \<Rightarrow> u64 \<Rightarrow> byte list" where
  "print_digits number divisor =
     (48 + ucast (number div divisor mod 10)) #
     (if divisor div 10 > 0 then print_digits number (divisor div 10) else [])"
  by pat_completeness auto

termination print_digits
proof (relation "measure (\<lambda>(number, divisor). unat divisor)")
  fix number divisor :: u64
  assume "0 < divisor div 10"
  then have "0 < unat divisor div 10" by (simp add: word_less_nat_alt unat_div)
  then have "unat divisor div 10 < unat divisor" by simp
  then show "((number, divisor div 10), number, divisor) \<in> measure (\<lambda>(number, divisor). unat divisor)"
    by (simp add: unat_div)
qed simp

declare print_digits.simps [simp del]

definition UnityPrintNumberUnsigned :: "u64 \<Rightarrow> byte list" where
  "UnityPrintNumberUnsigned number = print_digits number (find_divisor number 1)"

definition UnityPrintNumber :: "u64 \<Rightarrow> byte list" where
  "UnityPrintNumber number_to_print =
     (if sint number_to_print < 0
      then str ''-'' @ UnityPrintNumberUnsigned (NOT number_to_print + 1)
      else UnityPrintNumberUnsigned number_to_print)"

fun hex_digits :: "u64 \<Rightarrow> nat \<Rightarrow> byte list" where
  "hex_digits number 0 = []"
| "hex_digits number (Suc nibbles) =
     (let nibble = (ucast (drop_bit (nibbles * 4) number) :: u32) AND 0xF in
      (if nibble \<le> 9 then 48 + ucast nibble else 65 - 10 + ucast nibble) # hex_digits number nibbles)"

text \<open>The \<open>char\<close> is compared after its conversion to \<open>unsigned\<close>, so a negative one is large.\<close>

definition UnityPrintNumberHex :: "u64 \<Rightarrow> byte \<Rightarrow> byte list" where
  "UnityPrintNumberHex number nibbles_to_print =
     hex_digits number (if (scast nibbles_to_print :: u32) > 16 then 16 else unat nibbles_to_print)"

text \<open>\<open>UNITY_INT_WIDTH\<close> is the width of an \<open>int\<close>, 32, although the mask has 64 bits.\<close>

abbreviation (input) UNITY_INT_WIDTH :: nat where "UNITY_INT_WIDTH \<equiv> 32"

fun mask_loop :: "nat \<Rightarrow> u64 \<Rightarrow> u64 \<Rightarrow> u64 \<Rightarrow> byte list" where
  "mask_loop 0 current_bit msk number = []"
| "mask_loop (Suc i) current_bit msk number =
     (if current_bit AND msk \<noteq> 0 then
        (if current_bit AND number \<noteq> 0 then 49 else 48)
      else 88) # mask_loop i (drop_bit 1 current_bit) msk number"

definition UnityPrintMask :: "u64 \<Rightarrow> u64 \<Rightarrow> byte list" where
  "UnityPrintMask msk number =
     mask_loop UNITY_INT_WIDTH (push_bit (UNITY_INT_WIDTH - 1) 1) msk number"

subsection \<open>Strings\<close>

text \<open>Characters are signed; the unprintable ones are widened to \<open>UNITY_UINT\<close> with their sign. 92 is
  the backslash.\<close>

definition UnityPrintChar :: "byte \<Rightarrow> byte list" where
  "UnityPrintChar ch =
     (if sint ch \<le> 126 \<and> sint ch \<ge> 32 then [ch]
      else if ch = 13 then 92 # str ''r''
      else if ch = 10 then 92 # str ''n''
      else 92 # str ''x'' @ UnityPrintNumberHex (scast ch) 2)"

fun print_loop :: "byte list \<Rightarrow> byte list" where
  "print_loop [] = []"
| "print_loop (ch # chs) = (if ch = 0 then [] else UnityPrintChar ch @ print_loop chs)"

definition UnityPrint :: "cstring \<Rightarrow> byte list" where
  "UnityPrint string = (case string of None \<Rightarrow> [] | Some pch \<Rightarrow> print_loop pch)"

text \<open>
  The loop reads the character before it compares the position with the length, so an array of
  exactly \<open>length\<close> characters is read past its end. The body is that of \<open>UnityPrintChar\<close>.
\<close>

fun print_len_loop :: "byte list \<Rightarrow> nat \<Rightarrow> u32 \<Rightarrow> byte list option" where
  "print_len_loop [] i len = None"
| "print_len_loop (ch # chs) i len =
     (if ch \<noteq> 0 \<and> of_nat i < len
      then map_option (\<lambda>out. UnityPrintChar ch @ out) (print_len_loop chs (i + 1) len)
      else Some [])"

definition UnityPrintLen :: "cstring \<Rightarrow> u32 \<Rightarrow> byte list option" where
  "UnityPrintLen string len =
     (case string of None \<Rightarrow> Some [] | Some pch \<Rightarrow> print_len_loop pch 0 len)"

subsection \<open>Numbers in a display style\<close>

abbreviation (input) UNITY_DISPLAY_RANGE_INT :: u32 where "UNITY_DISPLAY_RANGE_INT \<equiv> 0x10"
abbreviation (input) UNITY_DISPLAY_RANGE_UINT :: u32 where "UNITY_DISPLAY_RANGE_UINT \<equiv> 0x20"
abbreviation (input) UNITY_DISPLAY_RANGE_HEX :: u32 where "UNITY_DISPLAY_RANGE_HEX \<equiv> 0x40"
abbreviation (input) UNITY_DISPLAY_RANGE_CHAR :: u32 where "UNITY_DISPLAY_RANGE_CHAR \<equiv> 0x80"

datatype UNITY_DISPLAY_STYLE_T =
    UNITY_DISPLAY_STYLE_INT | UNITY_DISPLAY_STYLE_INT8 | UNITY_DISPLAY_STYLE_INT16
  | UNITY_DISPLAY_STYLE_INT32 | UNITY_DISPLAY_STYLE_INT64
  | UNITY_DISPLAY_STYLE_UINT | UNITY_DISPLAY_STYLE_UINT8 | UNITY_DISPLAY_STYLE_UINT16
  | UNITY_DISPLAY_STYLE_UINT32 | UNITY_DISPLAY_STYLE_UINT64
  | UNITY_DISPLAY_STYLE_HEX8 | UNITY_DISPLAY_STYLE_HEX16 | UNITY_DISPLAY_STYLE_HEX32
  | UNITY_DISPLAY_STYLE_HEX64
  | UNITY_DISPLAY_STYLE_CHAR

text \<open>The numbers of the enumeration.\<close>

fun style_code :: "UNITY_DISPLAY_STYLE_T \<Rightarrow> u32" where
  "style_code UNITY_DISPLAY_STYLE_INT = 4 + UNITY_DISPLAY_RANGE_INT"
| "style_code UNITY_DISPLAY_STYLE_INT8 = 1 + UNITY_DISPLAY_RANGE_INT"
| "style_code UNITY_DISPLAY_STYLE_INT16 = 2 + UNITY_DISPLAY_RANGE_INT"
| "style_code UNITY_DISPLAY_STYLE_INT32 = 4 + UNITY_DISPLAY_RANGE_INT"
| "style_code UNITY_DISPLAY_STYLE_INT64 = 8 + UNITY_DISPLAY_RANGE_INT"
| "style_code UNITY_DISPLAY_STYLE_UINT = 4 + UNITY_DISPLAY_RANGE_UINT"
| "style_code UNITY_DISPLAY_STYLE_UINT8 = 1 + UNITY_DISPLAY_RANGE_UINT"
| "style_code UNITY_DISPLAY_STYLE_UINT16 = 2 + UNITY_DISPLAY_RANGE_UINT"
| "style_code UNITY_DISPLAY_STYLE_UINT32 = 4 + UNITY_DISPLAY_RANGE_UINT"
| "style_code UNITY_DISPLAY_STYLE_UINT64 = 8 + UNITY_DISPLAY_RANGE_UINT"
| "style_code UNITY_DISPLAY_STYLE_HEX8 = 1 + UNITY_DISPLAY_RANGE_HEX"
| "style_code UNITY_DISPLAY_STYLE_HEX16 = 2 + UNITY_DISPLAY_RANGE_HEX"
| "style_code UNITY_DISPLAY_STYLE_HEX32 = 4 + UNITY_DISPLAY_RANGE_HEX"
| "style_code UNITY_DISPLAY_STYLE_HEX64 = 8 + UNITY_DISPLAY_RANGE_HEX"
| "style_code UNITY_DISPLAY_STYLE_CHAR = 1 + UNITY_DISPLAY_RANGE_CHAR + UNITY_DISPLAY_RANGE_INT"

text \<open>The tests of the style's bits that the code makes.\<close>

definition int_range :: "UNITY_DISPLAY_STYLE_T \<Rightarrow> bool" where
  "int_range style \<longleftrightarrow> style_code style AND UNITY_DISPLAY_RANGE_INT = UNITY_DISPLAY_RANGE_INT"

definition uint_range :: "UNITY_DISPLAY_STYLE_T \<Rightarrow> bool" where
  "uint_range style \<longleftrightarrow> style_code style AND UNITY_DISPLAY_RANGE_UINT = UNITY_DISPLAY_RANGE_UINT"

definition style_length :: "UNITY_DISPLAY_STYLE_T \<Rightarrow> u32" where
  "style_length style = style_code style AND 0xF"

definition UnityPrintNumberByStyle :: "u64 \<Rightarrow> UNITY_DISPLAY_STYLE_T \<Rightarrow> byte list" where
  "UnityPrintNumberByStyle number style =
     (if int_range style then
        (if style = UNITY_DISPLAY_STYLE_CHAR then
           [39] @
           (if sint number \<le> 126 \<and> sint number \<ge> 32 then [ucast number]
            else if number = 13 then 92 # str ''r''
            else if number = 10 then 92 # str ''n''
            else 92 # str ''x'' @ UnityPrintNumberHex number 2)
           @ [39]
         else UnityPrintNumber number)
      else if uint_range style then UnityPrintNumberUnsigned number
      else str ''0x'' @ UnityPrintNumberHex number (ucast (style_length style * 2)))"

subsection \<open>Decimal numbers\<close>

definition decimal :: "byte \<Rightarrow> bool" where
  "decimal b \<longleftrightarrow> 48 \<le> b \<and> b \<le> 57"

fun value_of :: "nat \<Rightarrow> byte list \<Rightarrow> nat" where
  "value_of acc [] = acc"
| "value_of acc (b # bs) = value_of (10 * acc + unat (b - 48)) bs"

lemma digit_byte:
  fixes number divisor :: u64
  defines "b \<equiv> 48 + (ucast (number div divisor mod 10) :: byte)"
  shows "decimal b" "unat (b - 48) = unat number div unat divisor mod 10"
proof -
  let ?q = "number div divisor mod 10"
  have u: "unat ?q = unat number div unat divisor mod 10" by (simp add: unat_mod unat_div)
  then have lt: "unat ?q < 10" by simp
  have q: "unat (ucast ?q :: byte) = unat ?q"
    using lt by (simp add: unsigned_ucast_eq take_bit_nat_eq_self)
  then show "unat (b - 48) = unat number div unat divisor mod 10" by (simp add: b_def u)
  have "unat b = 48 + unat ?q"
    unfolding b_def using lt q by (subst unat_add_lem[THEN iffD1]) simp_all
  then show "decimal b" using lt by (simp add: decimal_def word_le_nat_alt)
qed

text \<open>The second loop, from the divisor \<open>10 ^ k\<close>, prints the last \<open>k + 1\<close> digits.\<close>

lemma print_digits_power:
  assumes "unat divisor = 10 ^ k"
  shows "length (print_digits number divisor) = Suc k"
    and "\<forall>b \<in> set (print_digits number divisor). decimal b"
    and "value_of acc (print_digits number divisor) = acc * 10 ^ Suc k + unat number mod 10 ^ Suc k"
    and "unat (hd (print_digits number divisor) - 48) = unat number div 10 ^ k mod 10"
  using assms
proof (induction k arbitrary: divisor acc)
  case 0
  have one: "divisor = 1" if "unat divisor = 10 ^ 0" for divisor :: u64
    using that by (metis power_0 unat_1 word_unat_eq_iff)
  have step: "print_digits number 1 = [48 + ucast (number mod 10)]"
    by (subst print_digits.simps) simp
  { case 1 then show ?case using one step by fastforce }
  { case 2 then show ?case using one[OF 2] step digit_byte[of number 1] by simp }
  { case 3 then show ?case using one[OF 3] step digit_byte[of number 1] by simp }
  { case 4 then show ?case using one[OF 4] step digit_byte[of number 1] by simp }
next
  case (Suc k)
  have less: "unat (divisor div 10) = 10 ^ k" if "unat divisor = 10 ^ Suc k" for divisor :: u64
    using that by (simp add: unat_div)
  have step: "print_digits number divisor = (48 + ucast (number div divisor mod 10)) # print_digits number (divisor div 10)"
    if "unat divisor = 10 ^ Suc k" for divisor
    using less[OF that] by (subst print_digits.simps) (auto simp: word_less_nat_alt)
  { case 1 then show ?case using step Suc.IH(1)[OF less] by simp }
  { case 2 then show ?case using step Suc.IH(2)[OF less] digit_byte(1)[of number divisor] by simp }
  { case 3
    have "unat number mod 10 ^ Suc (Suc k) =
        unat number mod 10 ^ Suc k + 10 ^ Suc k * (unat number div 10 ^ Suc k mod 10)"
      using mod_mult2_eq[of "unat number" "10 ^ Suc k" 10] by (simp add: mult.commute)
    then show ?case using step[OF 3] Suc.IH(3)[OF less[OF 3]] digit_byte(2)[of number divisor] 3
      by (simp add: algebra_simps) }
  { case 4 then show ?case using step digit_byte(2)[of number divisor] by simp }
qed

text \<open>The first loop reaches the power of ten of the leading digit.\<close>

lemma find_divisor_power:
  assumes "unat divisor = 10 ^ k" "k = 0 \<or> 10 ^ k \<le> unat number"
  shows "\<exists>j. unat (find_divisor number divisor) = 10 ^ j \<and> unat number div 10 ^ j \<le> 9
    \<and> (j = 0 \<or> 10 ^ j \<le> unat number)"
  using assms
proof (induction number divisor arbitrary: k rule: find_divisor.induct)
  case (1 number divisor)
  show ?case
  proof (cases "number div divisor > 9")
    case True
    note t = ten_times_divisor[OF True]
    have "unat (divisor * 10) = 10 ^ Suc k" "10 ^ Suc k \<le> unat number"
      using t "1.prems" by (simp_all add: mult.commute)
    from "1.IH"[OF True this(1)] this(2) show ?thesis
      using True by (simp add: find_divisor.simps[of number divisor])
  next
    case False
    then have "unat number div 10 ^ k \<le> 9"
      using "1.prems"(1) by (simp add: word_less_nat_alt unat_div)
    then show ?thesis using False "1.prems" by (auto simp: find_divisor.simps[of number divisor])
  qed
qed

lemma print_unsigned:
  shows "\<forall>b \<in> set (UnityPrintNumberUnsigned number). decimal b"
    and "value_of 0 (UnityPrintNumberUnsigned number) = unat number"
    and "UnityPrintNumberUnsigned number \<noteq> []"
    and "length (UnityPrintNumberUnsigned number) \<le> 20"
    and "hd (UnityPrintNumberUnsigned number) = 48 \<Longrightarrow> number = 0"
proof -
  obtain j where j: "unat (find_divisor number 1) = 10 ^ j" "unat number div 10 ^ j \<le> 9"
      "j = 0 \<or> 10 ^ j \<le> unat number"
    using find_divisor_power[of 1 0 number] by auto
  note out = print_digits_power[OF j(1), where number = number, folded UnityPrintNumberUnsigned_def]
  show "\<forall>b \<in> set (UnityPrintNumberUnsigned number). decimal b" by (rule out(2))
  show "UnityPrintNumberUnsigned number \<noteq> []" using out(1) by force
  have "unat number < 10 ^ Suc j"
  proof -
    have "unat number < 10 ^ j * 10" using j(2) by (simp add: div_less_iff_less_mult flip: less_Suc_eq_le)
    then show ?thesis by simp
  qed
  then show "value_of 0 (UnityPrintNumberUnsigned number) = unat number"
    using out(3)[where acc = 0] by simp
  have "j \<le> 19"
  proof (rule ccontr)
    assume "\<not> j \<le> 19"
    then have "(10 :: nat) ^ 20 \<le> 10 ^ j" by (intro power_increasing) auto
    then show False using j(3) \<open>\<not> j \<le> 19\<close> unat_lt_64[of number] by auto
  qed
  then show "length (UnityPrintNumberUnsigned number) \<le> 20" using out(1) by simp
  assume "hd (UnityPrintNumberUnsigned number) = 48"
  then have "unat number div 10 ^ j mod 10 = 0" using out(4) by simp
  then have "unat number div 10 ^ j = 0" using j(2) by simp
  then have "unat number < 10 ^ j" by (simp add: div_eq_0_iff)
  then have "unat number = 0" using j(3) by auto
  then show "number = 0" by (simp only: word_unat_eq_iff unat_0)
qed

lemma print_signed:
  "UnityPrintNumber number =
     (if sint number < 0 then [45] else []) @ UnityPrintNumberUnsigned (of_int \<bar>sint number\<bar>)"
proof (cases "sint number < 0")
  case True
  have "NOT number + 1 = - number" by (simp add: minus_eq_not_plus_1)
  also have "\<dots> = of_int (- sint number)" by simp
  finally show ?thesis using True by (simp add: UnityPrintNumber_def str_def)
next
  case False
  then show ?thesis by (simp add: UnityPrintNumber_def)
qed

subsection \<open>Hexadecimal numbers and masks\<close>

fun hex_value_of :: "nat \<Rightarrow> byte list \<Rightarrow> nat" where
  "hex_value_of acc [] = acc"
| "hex_value_of acc (b # bs) = hex_value_of (16 * acc + unat (if b \<le> 57 then b - 48 else b - 55)) bs"

definition hexadecimal :: "byte \<Rightarrow> bool" where
  "hexadecimal b \<longleftrightarrow> decimal b \<or> 65 \<le> b \<and> b \<le> 70"

lemma unat_nibble:
  "unat ((ucast (drop_bit (n * 4) number) :: u32) AND 0xF) = unat number div 16 ^ n mod 16" for number :: u64
proof -
  have "(0xF :: u32) = mask 4" by (simp add: mask_eq_exp_minus_1)
  then have "(ucast (drop_bit (n * 4) number) :: u32) AND 0xF = take_bit 4 (ucast (drop_bit (n * 4) number))"
    by (simp add: take_bit_eq_mask)
  then have "unat ((ucast (drop_bit (n * 4) number) :: u32) AND 0xF) = take_bit 4 (drop_bit (n * 4) (unat number))"
    using take_bit_nat_eq_self[OF unat_lt_64[of number]]
    by (simp add: unsigned_take_bit_eq unsigned_ucast_eq unsigned_drop_bit_eq)
  then show ?thesis
    by (simp add: take_bit_eq_mod drop_bit_eq_div power_mult mult.commute[of n])
qed

lemma hex_digit_byte:
  fixes w :: u32
  assumes "unat w < 16"
  defines "b \<equiv> if w \<le> 9 then 48 + ucast w else 65 - 10 + ucast w :: byte"
  shows "hexadecimal b" "unat (if b \<le> 57 then b - 48 else b - 55) = unat w"
proof -
  have q: "unat (ucast w :: byte) = unat w"
    using assms(1) by (simp add: unsigned_ucast_eq take_bit_nat_eq_self)
  have "unat (48 + ucast w :: byte) = 48 + unat w" "unat (65 - 10 + ucast w :: byte) = 55 + unat w"
    using assms(1) q by (subst unat_add_lem[THEN iffD1]; simp)+
  then have b: "unat b = (if unat w \<le> 9 then 48 else 55) + unat w"
    by (simp add: b_def word_le_nat_alt)
  then show "hexadecimal b" using assms(1) by (auto simp: hexadecimal_def decimal_def word_le_nat_alt)
  show "unat (if b \<le> 57 then b - 48 else b - 55) = unat w"
    using b assms(1) by (auto simp: word_le_nat_alt unat_sub split: if_splits)
qed

lemma hex_digits_value:
  "length (hex_digits number n) = n"
  "\<forall>b \<in> set (hex_digits number n). hexadecimal b"
  "hex_value_of acc (hex_digits number n) = acc * 16 ^ n + unat number mod 16 ^ n"
proof (induction n arbitrary: acc)
  case (Suc n)
  let ?w = "(ucast (drop_bit (n * 4) number) :: u32) AND 0xF"
  have w: "unat ?w < 16" "unat ?w = unat number div 16 ^ n mod 16" by (simp_all add: unat_nibble)
  note d = hex_digit_byte[OF w(1)]
  { case 1 show ?case using Suc.IH(1) by (simp add: Let_def) }
  { case 2 show ?case using Suc.IH(2) d(1) by (simp only: hex_digits.simps Let_def list.set) blast }
  { case 3
    have "unat number mod 16 ^ Suc n = unat number mod 16 ^ n + 16 ^ n * (unat number div 16 ^ n mod 16)"
      using mod_mult2_eq[of "unat number" "16 ^ n" 16] by (simp add: mult.commute)
    then show ?case
      using Suc.IH(3) d(2) w(2)
      by (simp only: hex_digits.simps Let_def hex_value_of.simps) (simp add: algebra_simps) }
qed simp_all

definition mask_char :: "bool \<Rightarrow> bool \<Rightarrow> byte" where
  "mask_char m b = (if m then if b then 49 else 48 else 88)"

lemma single_bit_and: "n < 64 \<Longrightarrow> push_bit n 1 AND w \<noteq> 0 \<longleftrightarrow> bit w n" for w :: u64
  using and_exp_eq_0_iff_not_bit[of w n] by (simp add: push_bit_of_1 and.commute)

lemma drop_bit_single: "n < 63 \<Longrightarrow> drop_bit 1 (push_bit (Suc n) 1) = (push_bit n 1 :: u64)"
  by (rule bit_word_eqI) (auto simp: bit_simps)

lemma mask_loop_bits:
  "n < 64 \<Longrightarrow> mask_loop (Suc n) (push_bit n 1) msk number =
     map (\<lambda>k. mask_char (bit msk k) (bit number k)) (rev [0..<Suc n])"
proof (induction n)
  case 0
  then show ?case using single_bit_and[of 0] by (simp add: mask_char_def)
next
  case (Suc n)
  have "mask_loop (Suc (Suc n)) (push_bit (Suc n) 1) msk number =
      mask_char (bit msk (Suc n)) (bit number (Suc n)) #
      mask_loop (Suc n) (drop_bit 1 (push_bit (Suc n) 1)) msk number"
    using single_bit_and[OF Suc.prems] by (subst mask_loop.simps) (simp only: mask_char_def)
  also have "drop_bit 1 (push_bit (Suc n) 1) = (push_bit n 1 :: u64)"
    using Suc.prems by (simp only: drop_bit_single)
  finally show ?case using Suc by (simp only: Suc_lessD) simp
qed

lemma print_mask:
  "UnityPrintMask msk number = map (\<lambda>k. mask_char (bit msk k) (bit number k)) (rev [0..<32])"
proof -
  have "Suc 31 = 32" by simp
  then show ?thesis
    using mask_loop_bits[of 31 msk number] by (simp only: UnityPrintMask_def) simp
qed
subsection \<open>Characters\<close>

definition printable :: "byte \<Rightarrow> bool" where
  "printable b \<longleftrightarrow> 32 \<le> b \<and> b \<le> 126"

lemma sint_byte: "sint b = (if unat b < 128 then int (unat b) else int (unat b) - 256)" for b :: byte
proof -
  have "sint b = signed_take_bit 7 (uint b)" by (simp only: sint_uint) simp
  also have "\<dots> = (uint b + 128) mod 256 - 128"
    by (simp only: signed_take_bit_eq_take_bit_shift take_bit_eq_mod) simp
  also have "uint b = int (unat b)" by (rule uint_nat)
  also have "(int (unat b) + 128) mod 256 = int ((unat b + 128) mod 256)"
    by (simp only: of_nat_mod of_nat_add of_nat_numeral)
  also have "(unat b + 128) mod 256 = (if unat b < 128 then unat b + 128 else unat b - 128)"
    using unat_lt_8[of b] by (simp add: mod_less_twice)
  finally show ?thesis by (simp split: if_splits)
qed

lemma printable_signed: "printable b \<longleftrightarrow> sint b \<le> 126 \<and> sint b \<ge> 32"
proof -
  have "sint b \<le> 126 \<and> sint b \<ge> 32 \<longleftrightarrow> 32 \<le> unat b \<and> unat b \<le> 126"
    using unat_lt_8[of b] sint_byte[of b] by presburger
  then show ?thesis by (simp add: printable_def word_le_nat_alt)
qed

lemma char_to_unsigned: "(scast b :: u32) > 16 \<longleftrightarrow> \<not> b \<le> 16" for b :: byte
proof (cases "unat b < 128")
  case True
  then have "(scast b :: u32) = of_nat (unat b)" by (simp add: scast_eq sint_byte del: of_nat_unat)
  moreover have "unat b < 2 ^ 32" using True by simp
  ultimately have "unat (scast b :: u32) = unat b" by (simp only: unat_of_nat_32)
  then show ?thesis by (simp only: word_less_nat_alt word_le_nat_alt not_le) simp
next
  case False
  then have "(scast b :: u32) = of_int (int (unat b) - 256)" by (simp add: scast_eq sint_byte)
  also have "\<dots> = of_int (int (unat b) - 256 + 2 ^ 32)" by simp
  also have "int (unat b) - 256 + 2 ^ 32 = int (unat b + 4294967040)" by simp
  finally have eq: "(scast b :: u32) = of_nat (unat b + 4294967040)" by (simp only: of_int_of_nat_eq)
  have "unat (scast b :: u32) = unat b + 4294967040"
    unfolding eq by (rule unat_of_nat_32) (use unat_lt_8[of b] in simp)
  then show ?thesis using False by (simp add: word_less_nat_alt word_le_nat_alt)
qed

lemma hexadecimal_printable: "hexadecimal b \<Longrightarrow> printable b"
  by (auto simp: hexadecimal_def decimal_def printable_def elim: order_trans[rotated] order_trans)

lemma hex_printable: "b \<in> set (UnityPrintNumberHex number n) \<Longrightarrow> printable b"
  using hex_digits_value(2) hexadecimal_printable by (auto simp: UnityPrintNumberHex_def)

lemma unsigned_printable: "b \<in> set (UnityPrintNumberUnsigned number) \<Longrightarrow> printable b"
  using print_unsigned(1)[of number] hexadecimal_printable by (auto simp: hexadecimal_def)

lemma char_printable: "b \<in> set (UnityPrintChar ch) \<Longrightarrow> printable b"
  using hex_printable[of b] printable_signed[of ch]
  by (auto simp: UnityPrintChar_def str_def printable_def split: if_splits)

lemma print_loop_printable: "b \<in> set (print_loop pch) \<Longrightarrow> printable b"
  by (induction pch) (auto split: if_splits dest: char_printable)

lemma print_printable: "b \<in> set (UnityPrint string) \<Longrightarrow> printable b"
  by (auto simp: UnityPrint_def dest: print_loop_printable split: option.splits)

lemma number_printable: "b \<in> set (UnityPrintNumber number) \<Longrightarrow> printable b"
  by (auto simp: UnityPrintNumber_def str_def printable_def split: if_splits dest: unsigned_printable[unfolded printable_def])

lemma ucast_printable:
  assumes "sint n \<le> 126" "32 \<le> sint n"
  shows "printable (ucast (n :: u64) :: byte)"
proof -
  obtain k where k: "sint n = int k" using assms by (metis nat_0_le order_trans zero_le_numeral)
  then have "of_int (sint n) = (of_nat k :: u64)" by simp
  then have "n = of_nat k" by (simp del: of_int_of_nat_eq)
  moreover have "k \<le> 126" "32 \<le> k" using assms k by simp_all
  ultimately have "ucast n = (of_nat k :: byte)" "unat (of_nat k :: byte) = k"
    by (simp_all add: unat_of_nat_8 unsigned_of_nat take_bit_nat_eq_self)
  then show ?thesis using \<open>k \<le> 126\<close> \<open>32 \<le> k\<close> by (simp add: printable_def word_le_nat_alt)
qed

lemma style_printable:
  assumes "b \<in> set (UnityPrintNumberByStyle number style)"
  shows "printable b"
proof -
  have "b \<in> {39, 48, 92, 110, 114, 120} \<or> b \<in> set (UnityPrintNumber number)
      \<or> b \<in> set (UnityPrintNumberUnsigned number)
      \<or> (\<exists>n. b \<in> set (UnityPrintNumberHex number n))
      \<or> (sint number \<le> 126 \<and> 32 \<le> sint number \<and> b = ucast number)"
    using assms by (force simp: UnityPrintNumberByStyle_def str_def split: if_splits)
  moreover have "printable b" if "b \<in> {39, 48, 92, 110, 114, 120}"
    using that by (auto simp: printable_def)
  ultimately show ?thesis
    using number_printable unsigned_printable hex_printable ucast_printable by blast
qed

lemma print_len_printable: "print_len_loop pch i len = Some out \<Longrightarrow> b \<in> set out \<Longrightarrow> printable b"
  by (induction pch i len arbitrary: out rule: print_len_loop.induct)
    (auto split: if_splits dest: char_printable)

text \<open>Printable strings are printed as they are.\<close>

lemma print_loop_id: "\<forall>b \<in> set s. printable b \<Longrightarrow> print_loop s = s"
  by (induction s) (auto simp: UnityPrintChar_def printable_signed)

lemma print_len_loop_terminated:
  "0 \<in> set pch \<Longrightarrow> \<exists>out. print_len_loop pch i len = Some out"
  by (induction pch arbitrary: i) auto

lemma print_len_loop_overread:
  "0 \<notin> set pch \<Longrightarrow> i + length pch < 2 ^ 32 \<Longrightarrow> i + length pch \<le> unat len \<Longrightarrow> print_len_loop pch i len = None"
proof (induction pch arbitrary: i)
  case (Cons ch chs)
  then have "of_nat i < len" by (simp add: word_less_nat_alt unat_of_nat_32)
  then show ?case using Cons by simp
qed simp

subsection \<open>Properties\<close>

text \<open>Reading a number back, with its sign.\<close>

definition signed_value_of :: "byte list \<Rightarrow> int" where
  "signed_value_of bs =
     (case bs of b # bs' \<Rightarrow> if b = 45 then - int (value_of 0 bs') else int (value_of 0 bs) | [] \<Rightarrow> 0)"

text \<open>Property C33: the decimal printers are correct on every 64-bit number, the extreme ones
  included: the digits printed have the number's value, there are one to twenty of them, the
  first is zero only for zero, and a negative number is its absolute value behind a minus sign.\<close>

theorem decimal_numbers_read_back:
  "value_of 0 (UnityPrintNumberUnsigned number) = unat number
   \<and> length (UnityPrintNumberUnsigned number) \<in> {1..20}
   \<and> set (UnityPrintNumberUnsigned number) \<subseteq> {b. decimal b}
   \<and> (number \<noteq> 0 \<longrightarrow> hd (UnityPrintNumberUnsigned number) \<noteq> 48)
   \<and> signed_value_of (UnityPrintNumber signed_number) = sint signed_number"
proof -
  have "signed_value_of (UnityPrintNumber signed_number) = sint signed_number"
  proof -
    let ?w = "of_int \<bar>sint signed_number\<bar> :: u64"
    have "\<bar>sint signed_number\<bar> \<le> 2 ^ 63"
      using sint_greater_eq[of signed_number] sint_lt[of signed_number] by simp
    then have w: "int (unat ?w) = \<bar>sint signed_number\<bar>"
      by (simp add: unsigned_of_int take_bit_int_eq_self flip: uint_nat)
    obtain b bs where out: "UnityPrintNumberUnsigned ?w = b # bs"
      using print_unsigned(3) by (metis list.exhaust)
    then have "b \<noteq> 45" using print_unsigned(1)[of ?w] by (auto simp: decimal_def)
    moreover have "int (value_of 0 (b # bs)) = \<bar>sint signed_number\<bar>"
      using print_unsigned(2)[of ?w] out w by metis
    ultimately show ?thesis
      by (auto simp: print_signed out signed_value_of_def simp del: value_of.simps)
  qed
  moreover have "length (UnityPrintNumberUnsigned number) \<in> {1..20}"
    using print_unsigned(3,4)[of number] by (cases "UnityPrintNumberUnsigned number") auto
  ultimately show ?thesis
    using print_unsigned(1,2,5)[of number] by blast
qed

theorem decimal_numbers_read_back_witness:
  "hd (UnityPrintNumberUnsigned 18446744073709551615) \<noteq> 48
   \<and> signed_value_of (UnityPrintNumber 0x8000000000000000) = - 9223372036854775808"
  using decimal_numbers_read_back[where number = "18446744073709551615" and signed_number = "0x8000000000000000"]
  by simp

text \<open>The hexadecimal printer prints exactly the requested number of digits (sixteen if
  more, or a negative number of them, are asked for), and they have the value of the number's low
  digits; the digits of a full width determine the number.\<close>

theorem hexadecimal_numbers_read_back:
  "length (UnityPrintNumberHex number n) = (if n \<le> 16 then unat n else 16)
   \<and> set (UnityPrintNumberHex number n) \<subseteq> {b. hexadecimal b}
   \<and> hex_value_of 0 (UnityPrintNumberHex number n) = unat number mod 16 ^ (if n \<le> 16 then unat n else 16)
   \<and> hex_value_of 0 (UnityPrintNumberHex number 16) = unat number"
proof -
  show ?thesis
    using char_to_unsigned[of n] char_to_unsigned[of 16] hex_digits_value(1,2)[of number] hex_digits_value(3)[of 0 number] unat_lt_64[of number]
    by (auto simp: UnityPrintNumberHex_def)
qed

text \<open>Whatever a test's strings and numbers contain, the text printed for them has only
  printable characters, so it never ends a line of the report or moves the terminal; a string of
  printable characters is printed as it is.\<close>

theorem printed_text_is_printable:
  "set (UnityPrint string) \<subseteq> {32..126}
   \<and> set (UnityPrintNumberByStyle number style) \<subseteq> {32..126}
   \<and> (case UnityPrintLen string len of None \<Rightarrow> True | Some out \<Rightarrow> set out \<subseteq> {32..126})
   \<and> (case string of None \<Rightarrow> True | Some s \<Rightarrow> set s \<subseteq> {32..126} \<longrightarrow> UnityPrint string = s)"
proof -
  have range: "printable b \<longleftrightarrow> b \<in> {32..126}" for b by (simp add: printable_def)
  have "set out \<subseteq> {32..126}" if "UnityPrintLen string len = Some out" for out
    using that print_len_printable[unfolded range]
    by (auto simp only: UnityPrintLen_def split: option.splits) auto
  moreover have "UnityPrint (Some s) = s" if "set s \<subseteq> {32..126}" for s
    using that print_loop_id[of s, unfolded range] by (simp add: UnityPrint_def subset_iff)
  ultimately show ?thesis
    using print_printable[unfolded range] style_printable[unfolded range]
    by (auto simp only: split: option.splits) 
qed

theorem printed_text_is_printable_witness:
  "UnityPrint (Some [65, 10, 66]) = [65, 92, 110, 66] \<and> UnityPrint (Some [65, 66]) = [65, 66]"
  using printed_text_is_printable[of "Some [65, 66]"] 
  by (simp add: UnityPrint_def UnityPrintChar_def str_def)

text \<open>Comparing a fixed number of characters of an array that is not terminated and has
  exactly that many characters reads past its end when the array is printed.\<close>

theorem print_len_reads_past_array:
  assumes "0 \<notin> set pch" "length pch < 2 ^ 32"
  shows "UnityPrintLen (Some pch) (of_nat (length pch)) = None
    \<and> UnityPrintLen (Some (pch @ [0])) (of_nat (length pch)) = Some (concat (map UnityPrintChar pch))"
proof -
  have run: "print_len_loop (pch @ [0]) i len = Some (concat (map UnityPrintChar pch))"
    if "unat len = i + length pch" for i len
    using assms(1) that
  proof (induction pch arbitrary: i)
    case (Cons ch chs)
    then have "i < 2 ^ 32" using unat_lt_32[of len] by simp
    then have "of_nat i < len" using Cons.prems by (simp add: word_less_nat_alt unat_of_nat_32)
    then show ?case using Cons.IH[of "i + 1"] Cons.prems by simp
  qed simp
  show ?thesis
    using assms print_len_loop_overread[of pch 0 "of_nat (length pch)"] run[of "of_nat (length pch)" 0]
    by (simp add: UnityPrintLen_def unat_of_nat_32)
qed

theorem print_len_reads_past_array_witness:
  "UnityPrintLen (Some [65, 66]) 2 = None \<and> UnityPrintLen (Some [65, 66, 0]) 2 = Some [65, 66]"
  using print_len_reads_past_array[of "[65, 66]"] by (simp add: UnityPrintChar_def)

end
