(* ===== verification/Unity_Core.thy ===== *)
theory Unity_Core
  imports Unity_Print
begin

section \<open>Unity: the test state and the assertions on numbers\<close>

text \<open>
  The state \<open>Unity\<close> of \<^verbatim>\<open>assignment-autotest/Unity/src/unity.c\<close> (\<open>struct UNITY_STORAGE_T\<close>), the
  report lines, and the assertions that take numbers and strings. The text sent to
  \<open>UNITY_OUTPUT_CHAR\<close> is the component \<open>printed\<close> of the state.

  \<open>TEST_ABORT\<close> is a \<open>longjmp\<close> to the test runner: the result of code that may be part of a test is
  \<open>Inl\<close> the state at a jump, or \<open>Inr\<close> the state at the return.
\<close>

record unity =
  TestFile :: cstring
  CurrentTestName :: cstring
  CurrentDetail1 :: cstring
  CurrentDetail2 :: cstring
  CurrentTestLineNumber :: u64
  NumberOfTests :: u64
  TestFailures :: u64
  TestIgnores :: u64
  CurrentTestFailed :: u64
  CurrentTestIgnored :: u64
  printed :: "byte list"

type_synonym flow = "unity + unity"

definition emit :: "byte list \<Rightarrow> unity \<Rightarrow> unity" where
  "emit text u = u\<lparr>printed := printed u @ text\<rparr>"

subsection \<open>Strings\<close>

definition UnityStrOk :: "byte list" where "UnityStrOk = str ''OK''"
definition UnityStrPass :: "byte list" where "UnityStrPass = str ''PASS''"
definition UnityStrFail :: "byte list" where "UnityStrFail = str ''FAIL''"
definition UnityStrIgnore :: "byte list" where "UnityStrIgnore = str ''IGNORE''"
definition UnityStrNull :: "byte list" where "UnityStrNull = str ''NULL''"
definition UnityStrSpacer :: "byte list" where "UnityStrSpacer = str ''. ''"
definition UnityStrExpected :: "byte list" where "UnityStrExpected = str '' Expected ''"
definition UnityStrWas :: "byte list" where "UnityStrWas = str '' Was ''"
definition UnityStrGt :: "byte list" where "UnityStrGt = str '' to be greater than ''"
definition UnityStrLt :: "byte list" where "UnityStrLt = str '' to be less than ''"
definition UnityStrOrEqual :: "byte list" where "UnityStrOrEqual = str ''or equal to ''"
definition UnityStrNotEqual :: "byte list" where "UnityStrNotEqual = str '' to be not equal to ''"
definition UnityStrElement :: "byte list" where "UnityStrElement = str '' Element ''"
definition UnityStrByte :: "byte list" where "UnityStrByte = str '' Byte ''"
definition UnityStrMemory :: "byte list" where "UnityStrMemory = str '' Memory Mismatch.''"
definition UnityStrDelta :: "byte list" where "UnityStrDelta = str '' Values Not Within Delta ''"
definition UnityStrPointless :: "byte list" where
  "UnityStrPointless = str '' You Asked Me To Compare Nothing, Which Was Pointless.''"
definition UnityStrNullPointerForExpected :: "byte list" where
  "UnityStrNullPointerForExpected = str '' Expected pointer to be NULL''"
definition UnityStrNullPointerForActual :: "byte list" where
  "UnityStrNullPointerForActual = str '' Actual pointer was NULL''"
definition UnityStrBreaker :: "byte list" where "UnityStrBreaker = str ''-----------------------''"
definition UnityStrResultsTests :: "byte list" where "UnityStrResultsTests = str '' Tests ''"
definition UnityStrResultsFailures :: "byte list" where "UnityStrResultsFailures = str '' Failures ''"
definition UnityStrResultsIgnored :: "byte list" where "UnityStrResultsIgnored = str '' Ignored ''"
definition UnityStrDetail1Name :: "byte list" where "UnityStrDetail1Name = str ''Function ''"
definition UnityStrDetail2Name :: "byte list" where "UnityStrDetail2Name = str '' Argument ''"

abbreviation (input) EOL :: "byte list" where "EOL \<equiv> [10]"

subsection \<open>The parts of a report line\<close>

definition UnityTestResultsBegin :: "cstring \<Rightarrow> u64 \<Rightarrow> unity \<Rightarrow> unity" where
  "UnityTestResultsBegin file line u =
     emit (UnityPrint file @ str '':'' @ UnityPrintNumber line @ str '':''
           @ UnityPrint (CurrentTestName u) @ str '':'') u"

definition UnityTestResultsFailBegin :: "u64 \<Rightarrow> unity \<Rightarrow> unity" where
  "UnityTestResultsFailBegin line u =
     emit (UnityPrint (Some UnityStrFail) @ str '':'') (UnityTestResultsBegin (TestFile u) line u)"

definition UnityConcludeTest :: "unity \<Rightarrow> unity" where
  "UnityConcludeTest u =
     (let u = (if CurrentTestIgnored u \<noteq> 0 then u\<lparr>TestIgnores := TestIgnores u + 1\<rparr>
               else if CurrentTestFailed u = 0 then
                 emit (UnityPrint (Some UnityStrPass))
                   (UnityTestResultsBegin (TestFile u) (CurrentTestLineNumber u) u)
               else u\<lparr>TestFailures := TestFailures u + 1\<rparr>)
      in emit EOL (u\<lparr>CurrentTestFailed := 0, CurrentTestIgnored := 0\<rparr>))"

definition print_details :: "unity \<Rightarrow> byte list" where
  "print_details u =
     (if CurrentDetail1 u \<noteq> None then
        UnityPrint (Some UnityStrDetail1Name) @ UnityPrint (CurrentDetail1 u)
        @ (if CurrentDetail2 u \<noteq> None then
             UnityPrint (Some UnityStrDetail2Name) @ UnityPrint (CurrentDetail2 u)
           else [])
        @ UnityPrint (Some UnityStrSpacer)
      else [])"

definition UnityAddMsgIfSpecified :: "cstring \<Rightarrow> unity \<Rightarrow> unity" where
  "UnityAddMsgIfSpecified msg u =
     (if msg \<noteq> None then emit (UnityPrint (Some UnityStrSpacer) @ print_details u @ UnityPrint msg) u
      else u)"

definition quoted_or_null :: "cstring \<Rightarrow> byte list" where
  "quoted_or_null s = (if s \<noteq> None then [39] @ UnityPrint s @ [39] else UnityPrint (Some UnityStrNull))"

definition UnityPrintExpectedAndActualStrings :: "cstring \<Rightarrow> cstring \<Rightarrow> byte list" where
  "UnityPrintExpectedAndActualStrings expected actual =
     UnityPrint (Some UnityStrExpected) @ quoted_or_null expected
     @ UnityPrint (Some UnityStrWas) @ quoted_or_null actual"

definition quoted_or_null_len :: "cstring \<Rightarrow> u32 \<Rightarrow> byte list option" where
  "quoted_or_null_len s len =
     (if s \<noteq> None then map_option (\<lambda>out. [39] @ out @ [39]) (UnityPrintLen s len)
      else Some (UnityPrint (Some UnityStrNull)))"

definition UnityPrintExpectedAndActualStringsLen :: "cstring \<Rightarrow> cstring \<Rightarrow> u32 \<Rightarrow> byte list option" where
  "UnityPrintExpectedAndActualStringsLen expected actual len = do {
     e \<leftarrow> quoted_or_null_len expected len;
     a \<leftarrow> quoted_or_null_len actual len;
     Some (UnityPrint (Some UnityStrExpected) @ e @ UnityPrint (Some UnityStrWas) @ a)
   }"

subsection \<open>Leaving a test\<close>

definition bailed :: "unity \<Rightarrow> bool" where
  "bailed u \<longleftrightarrow> CurrentTestFailed u \<noteq> 0 \<or> CurrentTestIgnored u \<noteq> 0"

definition UNITY_FAIL_AND_BAIL :: "unity \<Rightarrow> flow" where
  "UNITY_FAIL_AND_BAIL u = Inl (u\<lparr>CurrentTestFailed := 1\<rparr>)"

definition UNITY_IGNORE_AND_BAIL :: "unity \<Rightarrow> flow" where
  "UNITY_IGNORE_AND_BAIL u = Inl (u\<lparr>CurrentTestIgnored := 1\<rparr>)"

definition RETURN_IF_FAIL_OR_IGNORE :: "unity \<Rightarrow> flow" where
  "RETURN_IF_FAIL_OR_IGNORE u = (if bailed u then Inl u else Inr u)"

text \<open>The statements after a call that may jump.\<close>

fun andthen :: "flow \<Rightarrow> (unity \<Rightarrow> flow) \<Rightarrow> flow" where
  "andthen (Inl u) f = Inl u"
| "andthen (Inr u) f = f u"

subsection \<open>Assertions on numbers\<close>

definition UnityAssertBits :: "u64 \<Rightarrow> u64 \<Rightarrow> u64 \<Rightarrow> cstring \<Rightarrow> u64 \<Rightarrow> unity \<Rightarrow> flow" where
  "UnityAssertBits msk expected actual msg lineNumber u =
     andthen (RETURN_IF_FAIL_OR_IGNORE u) (\<lambda>u.
       if msk AND expected \<noteq> msk AND actual then
         UNITY_FAIL_AND_BAIL (UnityAddMsgIfSpecified msg
           (emit (UnityPrint (Some UnityStrExpected) @ UnityPrintMask msk expected
                  @ UnityPrint (Some UnityStrWas) @ UnityPrintMask msk actual)
             (UnityTestResultsFailBegin lineNumber u)))
       else Inr u)"

definition UnityAssertEqualNumber ::
  "u64 \<Rightarrow> u64 \<Rightarrow> cstring \<Rightarrow> u64 \<Rightarrow> UNITY_DISPLAY_STYLE_T \<Rightarrow> unity \<Rightarrow> flow" where
  "UnityAssertEqualNumber expected actual msg lineNumber style u =
     andthen (RETURN_IF_FAIL_OR_IGNORE u) (\<lambda>u.
       if expected \<noteq> actual then
         UNITY_FAIL_AND_BAIL (UnityAddMsgIfSpecified msg
           (emit (UnityPrint (Some UnityStrExpected) @ UnityPrintNumberByStyle expected style
                  @ UnityPrint (Some UnityStrWas) @ UnityPrintNumberByStyle actual style)
             (UnityTestResultsFailBegin lineNumber u)))
       else Inr u)"

datatype UNITY_COMPARISON_T =
    UNITY_WITHIN | UNITY_EQUAL_TO | UNITY_GREATER_THAN | UNITY_GREATER_OR_EQUAL
  | UNITY_SMALLER_THAN | UNITY_SMALLER_OR_EQUAL | UNITY_NOT_EQUAL

text \<open>The numbers of the enumeration; two of them are 0.\<close>

fun comparison_code :: "UNITY_COMPARISON_T \<Rightarrow> u32" where
  "comparison_code UNITY_WITHIN = 0x0"
| "comparison_code UNITY_EQUAL_TO = 0x1"
| "comparison_code UNITY_GREATER_THAN = 0x2"
| "comparison_code UNITY_GREATER_OR_EQUAL = 0x2 + 0x1"
| "comparison_code UNITY_SMALLER_THAN = 0x4"
| "comparison_code UNITY_SMALLER_OR_EQUAL = 0x4 + 0x1"
| "comparison_code UNITY_NOT_EQUAL = 0x0"

definition has_bit :: "UNITY_COMPARISON_T \<Rightarrow> UNITY_COMPARISON_T \<Rightarrow> bool" where
  "has_bit compare flag \<longleftrightarrow> comparison_code compare AND comparison_code flag \<noteq> 0"

text \<open>The tests of \<open>UnityAssertGreaterOrLessOrEqualNumber\<close> that set \<open>failed\<close>.\<close>

definition comparison_failed :: "u64 \<Rightarrow> u64 \<Rightarrow> UNITY_COMPARISON_T \<Rightarrow> UNITY_DISPLAY_STYLE_T \<Rightarrow> bool" where
  "comparison_failed threshold actual compare style =
     (let failed = (threshold = actual) in
      if int_range style then
        (let failed = (if sint actual > sint threshold \<and> has_bit compare UNITY_SMALLER_THAN then True else failed)
         in if sint actual < sint threshold \<and> has_bit compare UNITY_GREATER_THAN then True else failed)
      else
        (let failed = (if actual > threshold \<and> has_bit compare UNITY_SMALLER_THAN then True else failed)
         in if actual < threshold \<and> has_bit compare UNITY_GREATER_THAN then True else failed))"

definition UnityAssertGreaterOrLessOrEqualNumber ::
  "u64 \<Rightarrow> u64 \<Rightarrow> UNITY_COMPARISON_T \<Rightarrow> cstring \<Rightarrow> u64 \<Rightarrow> UNITY_DISPLAY_STYLE_T \<Rightarrow> unity \<Rightarrow> flow" where
  "UnityAssertGreaterOrLessOrEqualNumber threshold actual compare msg lineNumber style u =
     andthen (RETURN_IF_FAIL_OR_IGNORE u) (\<lambda>u.
       if threshold = actual \<and> has_bit compare UNITY_EQUAL_TO then Inr u
       else if comparison_failed threshold actual compare style then
         UNITY_FAIL_AND_BAIL (UnityAddMsgIfSpecified msg
           (emit (UnityPrint (Some UnityStrExpected) @ UnityPrintNumberByStyle actual style
                  @ (if has_bit compare UNITY_GREATER_THAN then UnityPrint (Some UnityStrGt) else [])
                  @ (if has_bit compare UNITY_SMALLER_THAN then UnityPrint (Some UnityStrLt) else [])
                  @ (if has_bit compare UNITY_EQUAL_TO then UnityPrint (Some UnityStrOrEqual) else [])
                  @ (if comparison_code compare = comparison_code UNITY_NOT_EQUAL
                     then UnityPrint (Some UnityStrNotEqual) else [])
                  @ UnityPrintNumberByStyle threshold style)
             (UnityTestResultsFailBegin lineNumber u)))
       else Inr u)"

text \<open>The value that \<open>UnityAssertNumbersWithin\<close> stores into \<open>CurrentTestFailed\<close>.\<close>

definition not_within :: "u64 \<Rightarrow> u64 \<Rightarrow> u64 \<Rightarrow> UNITY_DISPLAY_STYLE_T \<Rightarrow> bool" where
  "not_within delta expected actual style =
     (if int_range style then
        (if sint actual > sint expected then actual - expected > delta else expected - actual > delta)
      else
        (if actual > expected then actual - expected > delta else expected - actual > delta))"

definition UnityAssertNumbersWithin ::
  "u64 \<Rightarrow> u64 \<Rightarrow> u64 \<Rightarrow> cstring \<Rightarrow> u64 \<Rightarrow> UNITY_DISPLAY_STYLE_T \<Rightarrow> unity \<Rightarrow> flow" where
  "UnityAssertNumbersWithin delta expected actual msg lineNumber style u =
     andthen (RETURN_IF_FAIL_OR_IGNORE u) (\<lambda>u.
       let u = u\<lparr>CurrentTestFailed := (if not_within delta expected actual style then 1 else 0)\<rparr> in
       if CurrentTestFailed u \<noteq> 0 then
         UNITY_FAIL_AND_BAIL (UnityAddMsgIfSpecified msg
           (emit (UnityPrint (Some UnityStrDelta) @ UnityPrintNumberByStyle delta style
                  @ UnityPrint (Some UnityStrExpected) @ UnityPrintNumberByStyle expected style
                  @ UnityPrint (Some UnityStrWas) @ UnityPrintNumberByStyle actual style)
             (UnityTestResultsFailBegin lineNumber u)))
       else Inr u)"

subsection \<open>Assertions on strings\<close>

text \<open>The comparison loop: the character behind a list is its terminating zero. The index is a
  \<open>UNITY_UINT32\<close>, so this is the code for strings of less than 4 GiB; longer ones are not modelled.\<close>

fun strings_differ :: "byte list \<Rightarrow> byte list \<Rightarrow> bool" where
  "strings_differ [] [] = False"
| "strings_differ (e # es) [] = (e \<noteq> 0)"
| "strings_differ [] (a # as) = (a \<noteq> 0)"
| "strings_differ (e # es) (a # as) =
     (if e \<noteq> 0 \<or> a \<noteq> 0 then (if e \<noteq> a then True else strings_differ es as) else False)"

definition strings_mismatch :: "cstring \<Rightarrow> cstring \<Rightarrow> bool" where
  "strings_mismatch expected actual =
     (case (expected, actual) of
        (Some e, Some a) \<Rightarrow> strings_differ e a
      | _ \<Rightarrow> expected \<noteq> actual)"

definition UnityAssertEqualString :: "cstring \<Rightarrow> cstring \<Rightarrow> cstring \<Rightarrow> u64 \<Rightarrow> unity \<Rightarrow> flow" where
  "UnityAssertEqualString expected actual msg lineNumber u =
     andthen (RETURN_IF_FAIL_OR_IGNORE u) (\<lambda>u.
       let u = (if strings_mismatch expected actual then u\<lparr>CurrentTestFailed := 1\<rparr> else u) in
       if CurrentTestFailed u \<noteq> 0 then
         UNITY_FAIL_AND_BAIL (UnityAddMsgIfSpecified msg
           (emit (UnityPrintExpectedAndActualStrings expected actual)
             (UnityTestResultsFailBegin lineNumber u)))
       else Inr u)"

text \<open>With a length the arguments are arrays that need no terminator.\<close>

fun arrays_differ :: "byte list \<Rightarrow> byte list \<Rightarrow> nat \<Rightarrow> u32 \<Rightarrow> bool option" where
  "arrays_differ es as i len =
     (if of_nat i < len then
        (case (es, as) of
           (e # es', a # as') \<Rightarrow>
             if e \<noteq> 0 \<or> a \<noteq> 0 then (if e \<noteq> a then Some True else arrays_differ es' as' (i + 1) len)
             else Some False
         | _ \<Rightarrow> None)
      else Some False)"

definition arrays_mismatch :: "cstring \<Rightarrow> cstring \<Rightarrow> u32 \<Rightarrow> bool option" where
  "arrays_mismatch expected actual len =
     (case (expected, actual) of
        (Some e, Some a) \<Rightarrow> arrays_differ e a 0 len
      | _ \<Rightarrow> Some (expected \<noteq> actual))"

definition UnityAssertEqualStringLen ::
  "cstring \<Rightarrow> cstring \<Rightarrow> u32 \<Rightarrow> cstring \<Rightarrow> u64 \<Rightarrow> unity \<Rightarrow> flow option" where
  "UnityAssertEqualStringLen expected actual len msg lineNumber u =
     (case RETURN_IF_FAIL_OR_IGNORE u of
        Inl u \<Rightarrow> Some (Inl u)
      | Inr u \<Rightarrow> do {
          differ \<leftarrow> arrays_mismatch expected actual len;
          let u = (if differ then u\<lparr>CurrentTestFailed := 1\<rparr> else u);
          if CurrentTestFailed u \<noteq> 0 then do {
            text \<leftarrow> UnityPrintExpectedAndActualStringsLen expected actual len;
            Some (UNITY_FAIL_AND_BAIL (UnityAddMsgIfSpecified msg
              (emit text (UnityTestResultsFailBegin lineNumber u))))
          } else Some (Inr u)
        })"

subsection \<open>Failing and ignoring\<close>

definition UnityFail :: "cstring \<Rightarrow> u64 \<Rightarrow> unity \<Rightarrow> flow" where
  "UnityFail msg line u =
     andthen (RETURN_IF_FAIL_OR_IGNORE u) (\<lambda>u.
       let u = emit (UnityPrint (Some UnityStrFail)) (UnityTestResultsBegin (TestFile u) line u) in
       UNITY_FAIL_AND_BAIL
         (case msg of
            None \<Rightarrow> u
          | Some m \<Rightarrow>
              emit (str '':'' @ print_details u
                    @ (if take 1 m \<noteq> str '' '' then str '' '' else []) @ UnityPrint msg) u))"

definition UnityIgnore :: "cstring \<Rightarrow> u64 \<Rightarrow> unity \<Rightarrow> flow" where
  "UnityIgnore msg line u =
     andthen (RETURN_IF_FAIL_OR_IGNORE u) (\<lambda>u.
       let u = emit (UnityPrint (Some UnityStrIgnore)) (UnityTestResultsBegin (TestFile u) line u) in
       UNITY_IGNORE_AND_BAIL
         (case msg of None \<Rightarrow> u | Some m \<Rightarrow> emit (str '': '' @ UnityPrint msg) u))"

definition UnityMessage :: "cstring \<Rightarrow> u64 \<Rightarrow> unity \<Rightarrow> unity" where
  "UnityMessage msg line u =
     (let u = emit (UnityPrint (Some (str ''INFO''))) (UnityTestResultsBegin (TestFile u) line u);
          u = (case msg of None \<Rightarrow> u | Some m \<Rightarrow> emit (str '': '' @ UnityPrint msg) u)
      in emit EOL u)"

subsection \<open>What an assertion is\<close>

text \<open>
  The abstract assertion: in a test that has failed or was ignored it leaves at once; if its
  condition holds it changes nothing; otherwise it prints a report, marks the test and leaves.
\<close>

definition assertion :: "bool \<Rightarrow> (unity \<Rightarrow> byte list) \<Rightarrow> unity \<Rightarrow> flow" where
  "assertion ok report u =
     (if bailed u then Inl u
      else if ok then Inr u
      else Inl (u\<lparr>CurrentTestFailed := 1, printed := printed u @ report u\<rparr>))"

definition report_line :: "u64 \<Rightarrow> byte list \<Rightarrow> unity \<Rightarrow> byte list" where
  "report_line line verdict u =
     UnityPrint (TestFile u) @ str '':'' @ UnityPrintNumber line @ str '':''
     @ UnityPrint (CurrentTestName u) @ str '':'' @ verdict"

definition fail_report :: "cstring \<Rightarrow> u64 \<Rightarrow> byte list \<Rightarrow> unity \<Rightarrow> byte list" where
  "fail_report msg line text u =
     report_line line (UnityPrint (Some UnityStrFail) @ str '':'') u @ text
     @ (if msg \<noteq> None then UnityPrint (Some UnityStrSpacer) @ print_details u @ UnityPrint msg else [])"

lemma emit_sel [simp]:
  "TestFile (emit s u) = TestFile u" "CurrentTestName (emit s u) = CurrentTestName u"
  "CurrentDetail1 (emit s u) = CurrentDetail1 u" "CurrentDetail2 (emit s u) = CurrentDetail2 u"
  "CurrentTestLineNumber (emit s u) = CurrentTestLineNumber u"
  "NumberOfTests (emit s u) = NumberOfTests u" "TestFailures (emit s u) = TestFailures u"
  "TestIgnores (emit s u) = TestIgnores u" "CurrentTestFailed (emit s u) = CurrentTestFailed u"
  "CurrentTestIgnored (emit s u) = CurrentTestIgnored u" "printed (emit s u) = printed u @ s"
  by (simp_all add: emit_def)

lemma emit_emit [simp]: "emit t (emit s u) = emit (s @ t) u"
  by (simp add: emit_def)

lemma print_details_emit [simp]: "print_details (emit s u) = print_details u"
  by (simp add: print_details_def)

lemma print_details_failed [simp]: "print_details (u\<lparr>CurrentTestFailed := x\<rparr>) = print_details u"
  by (simp add: print_details_def)

lemma results_begin: "UnityTestResultsBegin (TestFile u) line u = emit (report_line line [] u) u"
  by (simp add: UnityTestResultsBegin_def report_line_def)

lemma report_line_append: "report_line line verdict u = report_line line [] u @ verdict"
  by (simp add: report_line_def)

lemma fail_text:
  "UnityAddMsgIfSpecified msg (emit text (UnityTestResultsFailBegin line u)) = emit (fail_report msg line text u) u"
  by (simp add: UnityAddMsgIfSpecified_def UnityTestResultsFailBegin_def results_begin fail_report_def
      report_line_append[of line "_ @ _"])

lemma fail_and_bail: "UNITY_FAIL_AND_BAIL (emit text u) = Inl (u\<lparr>CurrentTestFailed := 1, printed := printed u @ text\<rparr>)"
  by (simp add: UNITY_FAIL_AND_BAIL_def emit_def)

lemma guarded:
  "andthen (RETURN_IF_FAIL_OR_IGNORE u) f = (if bailed u then Inl u else f u)"
  by (simp add: RETURN_IF_FAIL_OR_IGNORE_def)

lemmas assertion_simps = guarded fail_text fail_and_bail assertion_def

lemma assert_bits:
  "UnityAssertBits msk expected actual msg line =
     assertion (msk AND expected = msk AND actual)
       (fail_report msg line (UnityPrint (Some UnityStrExpected) @ UnityPrintMask msk expected
          @ UnityPrint (Some UnityStrWas) @ UnityPrintMask msk actual))"
  by (rule ext) (simp add: UnityAssertBits_def assertion_simps)

lemma assert_equal_number:
  "UnityAssertEqualNumber expected actual msg line style =
     assertion (expected = actual)
       (fail_report msg line (UnityPrint (Some UnityStrExpected) @ UnityPrintNumberByStyle expected style
          @ UnityPrint (Some UnityStrWas) @ UnityPrintNumberByStyle actual style))"
  by (rule ext) (simp add: UnityAssertEqualNumber_def assertion_simps)

subsection \<open>Comparisons as comparisons of integers\<close>

definition number_value :: "UNITY_DISPLAY_STYLE_T \<Rightarrow> u64 \<Rightarrow> int" where
  "number_value style w = (if int_range style then sint w else uint w)"

fun related :: "UNITY_COMPARISON_T \<Rightarrow> int \<Rightarrow> int \<Rightarrow> bool" where
  "related UNITY_GREATER_THAN x y = (x > y)"
| "related UNITY_GREATER_OR_EQUAL x y = (x \<ge> y)"
| "related UNITY_SMALLER_THAN x y = (x < y)"
| "related UNITY_SMALLER_OR_EQUAL x y = (x \<le> y)"
| "related UNITY_NOT_EQUAL x y = (x \<noteq> y)"
| "related UNITY_WITHIN x y = (x \<noteq> y)"
| "related UNITY_EQUAL_TO x y = True"

lemma number_value_eq: "number_value style a = number_value style b \<longleftrightarrow> a = b"
proof -
  have "sint a = sint b \<Longrightarrow> a = b" by (rule signed_word_eqI)
  moreover have "uint a = uint b \<Longrightarrow> a = b" by (rule word_uint_eqI)
  ultimately show ?thesis by (auto simp: number_value_def)
qed

lemma has_bit_simps [simp]:
  "has_bit c UNITY_EQUAL_TO \<longleftrightarrow> c \<in> {UNITY_EQUAL_TO, UNITY_GREATER_OR_EQUAL, UNITY_SMALLER_OR_EQUAL}"
  "has_bit c UNITY_GREATER_THAN \<longleftrightarrow> c \<in> {UNITY_GREATER_THAN, UNITY_GREATER_OR_EQUAL}"
  "has_bit c UNITY_SMALLER_THAN \<longleftrightarrow> c \<in> {UNITY_SMALLER_THAN, UNITY_SMALLER_OR_EQUAL}"
  by (cases c; simp add: has_bit_def)+

lemma comparison_failed_iff:
  "comparison_failed threshold actual compare style \<longleftrightarrow>
     (let x = number_value style actual; y = number_value style threshold in
      x = y \<or> x > y \<and> has_bit compare UNITY_SMALLER_THAN \<or> x < y \<and> has_bit compare UNITY_GREATER_THAN)"
  unfolding Let_def number_value_eq
  by (simp add: comparison_failed_def number_value_def word_less_def Let_def del: has_bit_simps) blast

lemma comparison_holds:
  "(threshold = actual \<and> has_bit compare UNITY_EQUAL_TO) \<or> \<not> comparison_failed threshold actual compare style
   \<longleftrightarrow> related compare (number_value style actual) (number_value style threshold)"
  unfolding comparison_failed_iff Let_def number_value_eq[of style threshold actual, symmetric]
  by (cases compare) auto

definition comparison_text :: "u64 \<Rightarrow> u64 \<Rightarrow> UNITY_COMPARISON_T \<Rightarrow> UNITY_DISPLAY_STYLE_T \<Rightarrow> byte list" where
  "comparison_text threshold actual compare style =
     UnityPrint (Some UnityStrExpected) @ UnityPrintNumberByStyle actual style
     @ (if has_bit compare UNITY_GREATER_THAN then UnityPrint (Some UnityStrGt) else [])
     @ (if has_bit compare UNITY_SMALLER_THAN then UnityPrint (Some UnityStrLt) else [])
     @ (if has_bit compare UNITY_EQUAL_TO then UnityPrint (Some UnityStrOrEqual) else [])
     @ (if comparison_code compare = comparison_code UNITY_NOT_EQUAL
        then UnityPrint (Some UnityStrNotEqual) else [])
     @ UnityPrintNumberByStyle threshold style"

lemma assert_compare:
  "UnityAssertGreaterOrLessOrEqualNumber threshold actual compare msg line style =
     assertion (related compare (number_value style actual) (number_value style threshold))
       (fail_report msg line (comparison_text threshold actual compare style))"
proof
  fix u
  show "UnityAssertGreaterOrLessOrEqualNumber threshold actual compare msg line style u =
     assertion (related compare (number_value style actual) (number_value style threshold))
       (fail_report msg line (comparison_text threshold actual compare style)) u"
    unfolding comparison_holds[symmetric] UnityAssertGreaterOrLessOrEqualNumber_def
      comparison_text_def[symmetric] assertion_simps
    by (simp del: has_bit_simps)
qed

lemma int_difference:
  assumes "sint e \<le> sint a"
  shows "int (unat (a - e :: u64)) = sint a - sint e"
proof -
  have "a - e = of_int (sint a - sint e)" by simp
  moreover have "0 \<le> sint a - sint e" "sint a - sint e < 2 ^ 64"
    using assms sint_greater_eq[of e] sint_lt[of a] by simp_all
  ultimately show ?thesis
    by (simp only: unsigned_of_int) (simp add: take_bit_int_eq_self)
qed

lemma within_distance:
  "\<not> not_within delta expected actual style
   \<longleftrightarrow> \<bar>number_value style expected - number_value style actual\<bar> \<le> uint delta"
proof (cases "int_range style")
  case True
  then show ?thesis
    using int_difference[of expected actual] int_difference[of actual expected]
    by (auto simp: not_within_def number_value_def word_le_def not_less)
next
  case False
  have "int (unat (x - y)) = uint x - uint y" if "y \<le> x" for x y :: u64
    using that by (simp add: uint_sub_lem[THEN iffD1] word_le_def)
  from this[of expected actual] this[of actual expected] False show ?thesis
    by (auto simp: not_within_def number_value_def word_le_def word_less_def not_less)
qed

definition within_text :: "u64 \<Rightarrow> u64 \<Rightarrow> u64 \<Rightarrow> UNITY_DISPLAY_STYLE_T \<Rightarrow> byte list" where
  "within_text delta expected actual style =
     UnityPrint (Some UnityStrDelta) @ UnityPrintNumberByStyle delta style
     @ UnityPrint (Some UnityStrExpected) @ UnityPrintNumberByStyle expected style
     @ UnityPrint (Some UnityStrWas) @ UnityPrintNumberByStyle actual style"

lemma fail_report_failed [simp]: "fail_report msg line text (u\<lparr>CurrentTestFailed := x\<rparr>) = fail_report msg line text u"
  by (simp add: fail_report_def report_line_def)

lemma not_bailed_failed: "\<not> bailed u \<Longrightarrow> u\<lparr>CurrentTestFailed := 0\<rparr> = u"
  by (simp add: bailed_def)

lemma assert_within:
  "UnityAssertNumbersWithin delta expected actual msg line style =
     assertion (\<bar>number_value style expected - number_value style actual\<bar> \<le> uint delta)
       (fail_report msg line (within_text delta expected actual style))"
  unfolding within_distance[symmetric]
  by (rule ext)
    (simp add: UnityAssertNumbersWithin_def assertion_simps not_bailed_failed Let_def flip: within_text_def)

subsection \<open>Comparisons of strings\<close>

definition contents :: "byte list \<Rightarrow> byte list" where
  "contents s = takeWhile (\<lambda>b. b \<noteq> 0) s"

lemma strings_differ_iff: "strings_differ e a \<longleftrightarrow> contents e \<noteq> contents a"
  by (induction e a rule: strings_differ.induct) (auto simp: contents_def)

lemma strings_mismatch_iff: "strings_mismatch e a \<longleftrightarrow> map_option contents e \<noteq> map_option contents a"
  by (cases e; cases a) (simp_all add: strings_mismatch_def strings_differ_iff)

lemma not_bailed_zero: "\<not> bailed u \<Longrightarrow> CurrentTestFailed u = 0"
  by (simp add: bailed_def)

lemma assert_equal_string:
  "UnityAssertEqualString expected actual msg line =
     assertion (map_option contents expected = map_option contents actual)
       (fail_report msg line (UnityPrintExpectedAndActualStrings expected actual))"
  by (rule ext)
    (simp add: UnityAssertEqualString_def assertion_simps strings_mismatch_iff not_bailed_zero Let_def)

lemma arrays_differ_terminated:
  assumes "0 \<in> set e" "0 \<in> set a" "i \<le> unat len"
  shows "arrays_differ e a i len = Some (take (unat len - i) (contents e) \<noteq> take (unat len - i) (contents a))"
  using assms
proof (induction e arbitrary: a i)
  case (Cons x e)
  then obtain y a' where a: "a = y # a'" by (cases a) auto
  have lt: "of_nat i < len \<longleftrightarrow> i < unat len"
    using Cons.prems(3) unat_lt_32[of len] by (simp add: word_less_nat_alt unat_of_nat_32)
  show ?case
  proof (cases "i < unat len")
    case True
    then have n: "unat len - i = Suc (unat len - Suc i)" by simp
    show ?thesis
      using Cons.prems Cons.IH[of a' "Suc i"] True lt
      by (subst arrays_differ.simps) (auto simp: a contents_def n)
  next
    case False
    then show ?thesis using lt by (subst arrays_differ.simps) simp
  qed
qed simp

lemma quoted_len:
  "(\<forall>bs. s = Some bs \<longrightarrow> 0 \<in> set bs) \<Longrightarrow> \<exists>out. quoted_or_null_len s len = Some out"
  using print_len_loop_terminated[of "the s" 0 len]
  by (cases s) (auto simp: quoted_or_null_len_def UnityPrintLen_def)

definition terminated :: "cstring \<Rightarrow> bool" where
  "terminated s \<longleftrightarrow> (\<forall>bs. s = Some bs \<longrightarrow> 0 \<in> set bs)"

lemma assert_equal_string_len:
  assumes "terminated expected" "terminated actual"
  shows "\<exists>text. \<forall>u. UnityAssertEqualStringLen expected actual len msg line u =
     Some (assertion (map_option (take (unat len) \<circ> contents) expected = map_option (take (unat len) \<circ> contents) actual)
       (fail_report msg line text) u)"
proof -
  obtain out where "UnityPrintExpectedAndActualStringsLen expected actual len = Some out"
    using quoted_len[of expected len] quoted_len[of actual len] assms
    by (auto simp: terminated_def UnityPrintExpectedAndActualStringsLen_def)
  moreover have "arrays_mismatch expected actual len =
      Some (map_option (take (unat len) \<circ> contents) expected \<noteq> map_option (take (unat len) \<circ> contents) actual)"
    using assms arrays_differ_terminated[of _ _ 0 len]
    by (cases expected; cases actual) (auto simp: terminated_def arrays_mismatch_def)
  ultimately show ?thesis
    by (intro exI[of _ out] allI)
      (use not_bailed_zero in \<open>auto simp: UnityAssertEqualStringLen_def RETURN_IF_FAIL_OR_IGNORE_def
        assertion_simps Let_def\<close>)
qed

subsection \<open>Failing and ignoring\<close>

lemma fail_always:
  "UnityFail msg line = assertion False
     (\<lambda>u. report_line line (UnityPrint (Some UnityStrFail)) u
        @ (case msg of None \<Rightarrow> [] | Some m \<Rightarrow> str '':'' @ print_details u
             @ (if take 1 m \<noteq> str '' '' then str '' '' else []) @ UnityPrint msg))"
  by (rule ext, cases msg)
    (simp_all add: UnityFail_def guarded fail_and_bail assertion_def results_begin
      report_line_append[of line "UnityPrint _"] Let_def)

lemma ignore_always:
  "UnityIgnore msg line u =
     (if bailed u then Inl u
      else Inl (u\<lparr>CurrentTestIgnored := 1,
        printed := printed u @ report_line line (UnityPrint (Some UnityStrIgnore)) u
          @ (case msg of None \<Rightarrow> [] | Some m \<Rightarrow> str '': '' @ UnityPrint msg)\<rparr>))"
  by (cases msg)
    (simp_all add: UnityIgnore_def guarded UNITY_IGNORE_AND_BAIL_def results_begin
      report_line_append[of line "UnityPrint _"] Let_def emit_def)

lemma message_always:
  "UnityMessage msg line u = emit (report_line line (UnityPrint (Some (str ''INFO''))) u
     @ (case msg of None \<Rightarrow> [] | Some m \<Rightarrow> str '': '' @ UnityPrint msg) @ EOL) u"
  by (cases msg) (simp_all add: UnityMessage_def results_begin report_line_append[of line "UnityPrint _"])

subsection \<open>Properties\<close>

text \<open>A state in the middle of a test.\<close>

definition sample_unity :: unity where
  "sample_unity = \<lparr>TestFile = Some (str ''t.c''), CurrentTestName = Some (str ''t''), CurrentDetail1 = None,
     CurrentDetail2 = None, CurrentTestLineNumber = 7, NumberOfTests = 1, TestFailures = 0,
     TestIgnores = 0, CurrentTestFailed = 0, CurrentTestIgnored = 0, printed = []\<rparr>"

lemma sample_unity_runs [simp]: "\<not> bailed sample_unity"
  by (simp add: bailed_def sample_unity_def)

text \<open>The comparing assertions pass, without any effect, exactly if the numbers are in the
  relation as integers, read with a sign in the signed display styles and without one in the
  others; otherwise they report both numbers, mark the test and leave it.\<close>

theorem comparisons_are_exact:
  "UnityAssertGreaterOrLessOrEqualNumber threshold actual compare msg line style =
     assertion (related compare (number_value style actual) (number_value style threshold))
       (fail_report msg line (comparison_text threshold actual compare style))
   \<and> UnityAssertEqualNumber expected actual msg line style =
     assertion (number_value style expected = number_value style actual)
       (fail_report msg line (UnityPrint (Some UnityStrExpected) @ UnityPrintNumberByStyle expected style
          @ UnityPrint (Some UnityStrWas) @ UnityPrintNumberByStyle actual style))"
  by (simp add: assert_compare assert_equal_number number_value_eq)

text \<open>The tolerance assertion passes exactly if the distance of the numbers as integers is
  at most the tolerance; no difference of 64-bit numbers, of whatever signs, wraps around.\<close>

theorem within_is_distance:
  "UnityAssertNumbersWithin delta expected actual msg line style =
     assertion (\<bar>number_value style expected - number_value style actual\<bar> \<le> uint delta)
       (fail_report msg line (within_text delta expected actual style))"
  by (rule assert_within)

text \<open>Property C34: the string assertions pass exactly if both pointers are NULL or the strings are equal
  (up to the given length), and otherwise report both strings and leave the test.\<close>

theorem string_assertions_are_equality:
  "UnityAssertEqualString expected actual msg line =
     assertion (map_option contents expected = map_option contents actual)
       (fail_report msg line (UnityPrintExpectedAndActualStrings expected actual))
   \<and> (terminated expected \<and> terminated actual \<longrightarrow>
       (\<exists>text. \<forall>u. UnityAssertEqualStringLen expected actual len msg line u =
         Some (assertion (map_option (take (unat len) \<circ> contents) expected
                          = map_option (take (unat len) \<circ> contents) actual)
           (fail_report msg line text) u)))"
  by (blast intro: assert_equal_string assert_equal_string_len)

theorem string_assertions_are_equality_witness:
  "UnityAssertEqualString (Some (str ''ab'')) (Some (str ''ab'')) None 7 sample_unity = Inr sample_unity
   \<and> UnityAssertEqualStringLen (Some (str ''abc'' @ [0])) (Some (str ''abd'' @ [0])) 2 None 7 sample_unity
       = Some (Inr sample_unity)"
  using string_assertions_are_equality[of "Some (str ''ab'')" "Some (str ''ab'')" None 7]
    string_assertions_are_equality[of "Some (str ''abc'' @ [0])" "Some (str ''abd'' @ [0])" None 7 2]
  by (auto simp: assertion_def terminated_def contents_def str_def)

text \<open>The bit assertion compares all 64 bits but prints the low half only, so a
  difference in the high half is reported with two equal texts.\<close>

theorem high_bits_report_hides_difference:
  assumes "msk AND expected \<noteq> msk AND actual" "take_bit 32 expected = take_bit 32 actual" "\<not> bailed u"
  shows "\<exists>bits u'. UnityAssertBits msk expected actual None line u = Inl u'
    \<and> printed u' = printed u @ fail_report None line
        (UnityPrint (Some UnityStrExpected) @ bits @ UnityPrint (Some UnityStrWas) @ bits) u"
proof -
  have "bit expected k = bit actual k" if "k < 32" for k
    using that assms(2) by (metis bit_take_bit_iff)
  then have "UnityPrintMask msk expected = UnityPrintMask msk actual" by (simp add: print_mask)
  then show ?thesis
    using assms(1,3) by (intro exI[of _ "UnityPrintMask msk actual"]) (simp add: assert_bits assertion_def)
qed

theorem high_bits_report_hides_difference_witness:
  "\<exists>bits u'. UnityAssertBits 0xFF00000000 0x100000000 0x200000000 None 7 sample_unity = Inl u'
    \<and> printed u' = printed sample_unity @ fail_report None 7
        (UnityPrint (Some UnityStrExpected) @ bits @ UnityPrint (Some UnityStrWas) @ bits) sample_unity"
  by (rule high_bits_report_hides_difference) simp_all

end
