(* ===== verification/Unity_Arrays.thy ===== *)
theory Unity_Arrays
  imports Unity_Core
begin

section \<open>Unity: the assertions on arrays and memory\<close>

text \<open>
  The assertions of \<^verbatim>\<open>assignment-autotest/Unity/src/unity.c\<close> that take pointers. The memory maps
  the number of an object to its contents, bytes or pointers; a pointer is \<open>NULL\<close> or an object with
  an offset (in bytes, or in elements of an array of pointers). A load outside an object has no
  value. Integers are little endian.
\<close>

datatype ptr = Null | Ptr nat nat

datatype obj = Bytes "byte list" | Pointers "ptr list"

type_synonym memory = "nat \<Rightarrow> obj option"

datatype UNITY_FLAGS_T = UNITY_ARRAY_TO_VAL | UNITY_ARRAY_TO_ARRAY | UNITY_ARRAY_UNKNOWN

subsection \<open>Loads\<close>

fun load_bytes :: "memory \<Rightarrow> ptr \<Rightarrow> nat \<Rightarrow> byte list option" where
  "load_bytes m Null n = None"
| "load_bytes m (Ptr b i) n =
     (case m b of
        Some (Bytes bs) \<Rightarrow> if i + n \<le> length bs then Some (take n (drop i bs)) else None
      | _ \<Rightarrow> None)"

fun load_ptr :: "memory \<Rightarrow> ptr \<Rightarrow> ptr option" where
  "load_ptr m Null = None"
| "load_ptr m (Ptr b i) = (case m b of Some (Pointers ps) \<Rightarrow> array_get ps i | _ \<Rightarrow> None)"

fun load_string :: "memory \<Rightarrow> ptr \<Rightarrow> cstring option" where
  "load_string m Null = Some None"
| "load_string m (Ptr b i) =
     (case m b of
        Some (Bytes bs) \<Rightarrow> if 0 \<in> set (drop i bs) then Some (Some (contents (drop i bs))) else None
      | _ \<Rightarrow> None)"

fun advance :: "ptr \<Rightarrow> nat \<Rightarrow> ptr" where
  "advance Null n = Null"
| "advance (Ptr b i) n = Ptr b (i + n)"

fun le_value :: "byte list \<Rightarrow> nat" where
  "le_value [] = 0"
| "le_value (b # bs) = unat b + 256 * le_value bs"

fun le_bytes :: "nat \<Rightarrow> u64 \<Rightarrow> byte list" where
  "le_bytes 0 w = []"
| "le_bytes (Suc n) w = ucast w # le_bytes n (drop_bit 8 w)"

text \<open>A signed integer of \<open>width\<close> bytes, converted to \<open>UNITY_INT\<close>.\<close>

definition load_int :: "memory \<Rightarrow> nat \<Rightarrow> ptr \<Rightarrow> u64 option" where
  "load_int m width p = do {
     bs \<leftarrow> load_bytes m p width;
     Some (signed_take_bit (8 * width - 1) (of_nat (le_value bs)))
   }"

subsection \<open>Null arrays\<close>

definition UnityIsOneArrayNull :: "ptr \<Rightarrow> ptr \<Rightarrow> u64 \<Rightarrow> cstring \<Rightarrow> unity \<Rightarrow> bool \<times> unity" where
  "UnityIsOneArrayNull expected actual lineNumber msg u =
     (if expected = actual then (False, u)
      else if expected = Null then
        (True, UnityAddMsgIfSpecified msg
           (emit (UnityPrint (Some UnityStrNullPointerForExpected)) (UnityTestResultsFailBegin lineNumber u)))
      else if actual = Null then
        (True, UnityAddMsgIfSpecified msg
           (emit (UnityPrint (Some UnityStrNullPointerForActual)) (UnityTestResultsFailBegin lineNumber u)))
      else (False, u))"

definition UnityPrintPointlessAndBail :: "cstring \<Rightarrow> u64 \<Rightarrow> unity \<Rightarrow> flow" where
  "UnityPrintPointlessAndBail msg lineNumber u =
     UNITY_FAIL_AND_BAIL (UnityAddMsgIfSpecified msg
       (emit (UnityPrint (Some UnityStrPointless)) (UnityTestResultsFailBegin lineNumber u)))"

text \<open>The checks that the array assertions start with.\<close>

definition array_guards ::
  "bool \<Rightarrow> ptr \<Rightarrow> ptr \<Rightarrow> cstring \<Rightarrow> u64 \<Rightarrow> (unity \<Rightarrow> flow option) \<Rightarrow> unity \<Rightarrow> flow option" where
  "array_guards pointless expected actual msg lineNumber compare u =
     (case RETURN_IF_FAIL_OR_IGNORE u of
        Inl u \<Rightarrow> Some (Inl u)
      | Inr u \<Rightarrow>
          if pointless then Some (UnityPrintPointlessAndBail msg lineNumber u)
          else if expected = actual then Some (Inr u)
          else (case UnityIsOneArrayNull expected actual lineNumber msg u of
                  (True, u) \<Rightarrow> Some (UNITY_FAIL_AND_BAIL u)
                | (False, u) \<Rightarrow> compare u))"

subsection \<open>Arrays of integers\<close>

text \<open>The \<open>switch\<close> on the length.\<close>

definition element_width :: "UNITY_DISPLAY_STYLE_T \<Rightarrow> nat" where
  "element_width style =
     (let len = style_length style in if len = 1 then 1 else if len = 2 then 2 else if len = 8 then 8 else 4)"

text \<open>Removing the sign extension of the values of an unsigned style.\<close>

definition strip_sign :: "UNITY_DISPLAY_STYLE_T \<Rightarrow> u64 \<Rightarrow> u64" where
  "strip_sign style v =
     (if uint_range style \<and> element_width style < UNITY_INT_WIDTH div 8
      then v AND (push_bit (8 * element_width style) 1 - 1) else v)"

text \<open>The walk along the arrays; \<open>step\<close> compares two elements, given the number of those left.\<close>

fun array_loop ::
  "memory \<Rightarrow> nat \<Rightarrow> UNITY_FLAGS_T \<Rightarrow> (nat \<Rightarrow> u64 \<Rightarrow> u64 \<Rightarrow> unity \<Rightarrow> flow) \<Rightarrow>
   nat \<Rightarrow> ptr \<Rightarrow> ptr \<Rightarrow> unity \<Rightarrow> flow option" where
  "array_loop m width flags step 0 expected actual u = Some (Inr u)"
| "array_loop m width flags step (Suc elements) expected actual u = do {
     expect_val \<leftarrow> load_int m width expected;
     actual_val \<leftarrow> load_int m width actual;
     (case step elements expect_val actual_val u of
        Inl u \<Rightarrow> Some (Inl u)
      | Inr u \<Rightarrow>
          array_loop m width flags step elements
            (if flags = UNITY_ARRAY_TO_ARRAY then advance expected width else expected)
            (advance actual width) u)
   }"

definition int_array_step ::
  "UNITY_DISPLAY_STYLE_T \<Rightarrow> u32 \<Rightarrow> cstring \<Rightarrow> u64 \<Rightarrow> nat \<Rightarrow> u64 \<Rightarrow> u64 \<Rightarrow> unity \<Rightarrow> flow" where
  "int_array_step style num_elements msg lineNumber elements expect_val actual_val u =
     (if expect_val \<noteq> actual_val then
        UNITY_FAIL_AND_BAIL (UnityAddMsgIfSpecified msg
          (emit (UnityPrint (Some UnityStrElement)
                 @ UnityPrintNumberUnsigned (ucast (num_elements - of_nat elements - 1))
                 @ UnityPrint (Some UnityStrExpected) @ UnityPrintNumberByStyle (strip_sign style expect_val) style
                 @ UnityPrint (Some UnityStrWas) @ UnityPrintNumberByStyle (strip_sign style actual_val) style)
            (UnityTestResultsFailBegin lineNumber u)))
      else Inr u)"

definition UnityAssertEqualIntArray ::
  "memory \<Rightarrow> ptr \<Rightarrow> ptr \<Rightarrow> u32 \<Rightarrow> cstring \<Rightarrow> u64 \<Rightarrow> UNITY_DISPLAY_STYLE_T \<Rightarrow> UNITY_FLAGS_T \<Rightarrow> unity \<Rightarrow> flow option" where
  "UnityAssertEqualIntArray m expected actual num_elements msg lineNumber style flags =
     array_guards (num_elements = 0) expected actual msg lineNumber
       (array_loop m (element_width style) flags (int_array_step style num_elements msg lineNumber)
          (unat num_elements) expected actual)"

text \<open>The comparison is made on the sign-extended values, also in an unsigned style.\<close>

definition within_array_step ::
  "u64 \<Rightarrow> UNITY_DISPLAY_STYLE_T \<Rightarrow> u32 \<Rightarrow> cstring \<Rightarrow> u64 \<Rightarrow> nat \<Rightarrow> u64 \<Rightarrow> u64 \<Rightarrow> unity \<Rightarrow> flow" where
  "within_array_step delta style num_elements msg lineNumber elements expect_val actual_val u =
     (let u = u\<lparr>CurrentTestFailed := (if not_within delta expect_val actual_val style then 1 else 0)\<rparr> in
      if CurrentTestFailed u \<noteq> 0 then
        UNITY_FAIL_AND_BAIL (UnityAddMsgIfSpecified msg
          (emit (UnityPrint (Some UnityStrDelta) @ UnityPrintNumberByStyle delta style
                 @ UnityPrint (Some UnityStrElement)
                 @ UnityPrintNumberUnsigned (ucast (num_elements - of_nat elements - 1))
                 @ UnityPrint (Some UnityStrExpected) @ UnityPrintNumberByStyle (strip_sign style expect_val) style
                 @ UnityPrint (Some UnityStrWas) @ UnityPrintNumberByStyle (strip_sign style actual_val) style)
            (UnityTestResultsFailBegin lineNumber u)))
      else Inr u)"

definition UnityAssertNumbersArrayWithin ::
  "memory \<Rightarrow> u64 \<Rightarrow> ptr \<Rightarrow> ptr \<Rightarrow> u32 \<Rightarrow> cstring \<Rightarrow> u64 \<Rightarrow> UNITY_DISPLAY_STYLE_T \<Rightarrow> UNITY_FLAGS_T \<Rightarrow> unity \<Rightarrow> flow option" where
  "UnityAssertNumbersArrayWithin m delta expected actual num_elements msg lineNumber style flags =
     array_guards (num_elements = 0) expected actual msg lineNumber
       (array_loop m (element_width style) flags (within_array_step delta style num_elements msg lineNumber)
          (unat num_elements) expected actual)"

subsection \<open>Arrays of strings\<close>

text \<open>One element: both pointers are read as strings; \<open>j\<close> is the index.\<close>

definition string_element ::
  "memory \<Rightarrow> u32 \<Rightarrow> cstring \<Rightarrow> u64 \<Rightarrow> u32 \<Rightarrow> ptr \<Rightarrow> ptr \<Rightarrow> unity \<Rightarrow> flow option" where
  "string_element m num_elements msg lineNumber j expd act u = do {
     e \<leftarrow> load_string m expd;
     a \<leftarrow> load_string m act;
     let u = (if strings_mismatch e a then u\<lparr>CurrentTestFailed := 1\<rparr> else u);
     Some (if CurrentTestFailed u \<noteq> 0 then
             UNITY_FAIL_AND_BAIL (UnityAddMsgIfSpecified msg
               (emit ((if num_elements > 1
                       then UnityPrint (Some UnityStrElement) @ UnityPrintNumberUnsigned (ucast j) else [])
                      @ UnityPrintExpectedAndActualStrings e a)
                 (UnityTestResultsFailBegin lineNumber u)))
           else Inr u)
   }"

text \<open>The loop from the index \<open>j\<close>, with \<open>n\<close> elements left.\<close>

fun string_loop ::
  "memory \<Rightarrow> ptr \<Rightarrow> ptr \<Rightarrow> u32 \<Rightarrow> cstring \<Rightarrow> u64 \<Rightarrow> UNITY_FLAGS_T \<Rightarrow> nat \<Rightarrow> nat \<Rightarrow> unity \<Rightarrow> flow option" where
  "string_loop m expected actual num_elements msg lineNumber flags 0 j u = Some (Inr u)"
| "string_loop m expected actual num_elements msg lineNumber flags (Suc n) j u = do {
     act \<leftarrow> load_ptr m (advance actual j);
     expd \<leftarrow> (if flags = UNITY_ARRAY_TO_ARRAY then load_ptr m (advance expected j) else Some expected);
     r \<leftarrow> string_element m num_elements msg lineNumber (of_nat j) expd act u;
     (case r of
        Inl u \<Rightarrow> Some (Inl u)
      | Inr u \<Rightarrow> string_loop m expected actual num_elements msg lineNumber flags n (j + 1) u)
   }"

definition UnityAssertEqualStringArray ::
  "memory \<Rightarrow> ptr \<Rightarrow> ptr \<Rightarrow> u32 \<Rightarrow> cstring \<Rightarrow> u64 \<Rightarrow> UNITY_FLAGS_T \<Rightarrow> unity \<Rightarrow> flow option" where
  "UnityAssertEqualStringArray m expected actual num_elements msg lineNumber flags =
     array_guards (num_elements = 0) expected actual msg lineNumber
       (string_loop m expected actual num_elements msg lineNumber flags (unat num_elements) 0)"

subsection \<open>Memory areas\<close>

text \<open>The bytes of one element.\<close>

fun bytes_loop ::
  "memory \<Rightarrow> u32 \<Rightarrow> u32 \<Rightarrow> cstring \<Rightarrow> u64 \<Rightarrow> nat \<Rightarrow> nat \<Rightarrow> ptr \<Rightarrow> ptr \<Rightarrow> unity \<Rightarrow> flow option" where
  "bytes_loop m len num_elements msg lineNumber elements 0 ptr_exp ptr_act u = Some (Inr u)"
| "bytes_loop m len num_elements msg lineNumber elements (Suc bytes) ptr_exp ptr_act u = do {
     e \<leftarrow> load_bytes m ptr_exp 1;
     a \<leftarrow> load_bytes m ptr_act 1;
     if e \<noteq> a then
       Some (UNITY_FAIL_AND_BAIL (UnityAddMsgIfSpecified msg
         (emit (UnityPrint (Some UnityStrMemory)
                @ (if num_elements > 1
                   then UnityPrint (Some UnityStrElement)
                        @ UnityPrintNumberUnsigned (ucast (num_elements - of_nat elements - 1))
                   else [])
                @ UnityPrint (Some UnityStrByte) @ UnityPrintNumberUnsigned (ucast (len - of_nat bytes - 1))
                @ UnityPrint (Some UnityStrExpected)
                @ UnityPrintNumberByStyle (ucast (hd e)) UNITY_DISPLAY_STYLE_HEX8
                @ UnityPrint (Some UnityStrWas)
                @ UnityPrintNumberByStyle (ucast (hd a)) UNITY_DISPLAY_STYLE_HEX8)
           (UnityTestResultsFailBegin lineNumber u))))
     else bytes_loop m len num_elements msg lineNumber elements bytes (advance ptr_exp 1) (advance ptr_act 1) u
   }"

fun memory_loop ::
  "memory \<Rightarrow> ptr \<Rightarrow> u32 \<Rightarrow> u32 \<Rightarrow> cstring \<Rightarrow> u64 \<Rightarrow> UNITY_FLAGS_T \<Rightarrow> nat \<Rightarrow> ptr \<Rightarrow> ptr \<Rightarrow> unity \<Rightarrow> flow option" where
  "memory_loop m expected len num_elements msg lineNumber flags 0 ptr_exp ptr_act u = Some (Inr u)"
| "memory_loop m expected len num_elements msg lineNumber flags (Suc elements) ptr_exp ptr_act u = do {
     r \<leftarrow> bytes_loop m len num_elements msg lineNumber elements (unat len) ptr_exp ptr_act u;
     (case r of
        Inl u \<Rightarrow> Some (Inl u)
      | Inr u \<Rightarrow>
          memory_loop m expected len num_elements msg lineNumber flags elements
            (if flags = UNITY_ARRAY_TO_VAL then expected else advance ptr_exp (unat len))
            (advance ptr_act (unat len)) u)
   }"

definition UnityAssertEqualMemory ::
  "memory \<Rightarrow> ptr \<Rightarrow> ptr \<Rightarrow> u32 \<Rightarrow> u32 \<Rightarrow> cstring \<Rightarrow> u64 \<Rightarrow> UNITY_FLAGS_T \<Rightarrow> unity \<Rightarrow> flow option" where
  "UnityAssertEqualMemory m expected actual len num_elements msg lineNumber flags =
     array_guards (num_elements = 0 \<or> len = 0) expected actual msg lineNumber
       (memory_loop m expected len num_elements msg lineNumber flags (unat num_elements) expected actual)"

subsection \<open>The cell for a single value\<close>

text \<open>\<open>UnityQuickCompare\<close> is the object 0, a union of eight bytes.\<close>

abbreviation (input) UnityQuickCompare :: nat where "UnityQuickCompare \<equiv> 0"

definition UnityNumToPtr :: "u64 \<Rightarrow> u8 \<Rightarrow> memory \<Rightarrow> (ptr \<times> memory) option" where
  "UnityNumToPtr num sz m =
     (case m UnityQuickCompare of
        Some (Bytes old) \<Rightarrow>
          let n = (if sz = 1 then 1 else if sz = 2 then 2 else if sz = 8 then 8 else 4)
          in Some (Ptr UnityQuickCompare 0, m(UnityQuickCompare \<mapsto> Bytes (le_bytes n num @ drop n old)))
      | _ \<Rightarrow> None)"

subsection \<open>The outcomes of an assertion\<close>

text \<open>
  An assertion that returns leaves the state of a running test as it is; otherwise it leaves the
  test, at once if that had failed or was ignored, or after marking it and printing.
\<close>

definition marked :: "unity \<Rightarrow> byte list \<Rightarrow> unity" where
  "marked u text = u\<lparr>CurrentTestFailed := 1, printed := printed u @ text\<rparr>"

fun assertion_outcome :: "unity \<Rightarrow> flow \<Rightarrow> bool" where
  "assertion_outcome u (Inr u') = (\<not> bailed u \<and> u' = u)"
| "assertion_outcome u (Inl u') = (bailed u \<and> u' = u \<or> \<not> bailed u \<and> (\<exists>text. u' = marked u text))"

lemma assertion_outcome: "assertion_outcome u (assertion ok report u)"
  by (auto simp: assertion_def marked_def)

lemma marked_outcome: "\<not> bailed u \<Longrightarrow> assertion_outcome u (Inl (marked u text))"
  by (simp only: assertion_outcome.simps) blast

lemma fail_marks: "UNITY_FAIL_AND_BAIL (emit text u) = Inl (marked u text)"
  by (simp add: fail_and_bail marked_def)

lemma fail_marks_failed: "UNITY_FAIL_AND_BAIL (emit text (u\<lparr>CurrentTestFailed := x\<rparr>)) = Inl (marked u text)"
  by (simp add: fail_and_bail marked_def)

lemma one_array_null:
  "UnityIsOneArrayNull expected actual line msg u =
     (if expected = actual \<or> expected \<noteq> Null \<and> actual \<noteq> Null then (False, u)
      else (True, emit (fail_report msg line
        (if expected = Null then UnityPrint (Some UnityStrNullPointerForExpected)
         else UnityPrint (Some UnityStrNullPointerForActual)) u) u))"
  by (simp add: UnityIsOneArrayNull_def fail_text)

text \<open>The guards leave the comparison the case of two different arrays.\<close>

lemma array_guards_run:
  assumes "\<not> bailed u" "\<not> pointless" "expected \<noteq> actual" "expected \<noteq> Null" "actual \<noteq> Null"
  shows "array_guards pointless expected actual msg line compare u = compare u"
  using assms by (simp add: array_guards_def RETURN_IF_FAIL_OR_IGNORE_def one_array_null)

lemma array_guards_outcome:
  assumes "\<not> bailed u \<Longrightarrow> compare u = Some r \<Longrightarrow> assertion_outcome u r"
    and "array_guards pointless expected actual msg line compare u = Some r"
  shows "assertion_outcome u r"
  using assms
  by (auto simp: array_guards_def RETURN_IF_FAIL_OR_IGNORE_def one_array_null fail_marks
      UnityPrintPointlessAndBail_def fail_text split: if_splits)

subsection \<open>Arrays of integers\<close>

definition first_bad :: "('a \<Rightarrow> 'b \<Rightarrow> bool) \<Rightarrow> 'a list \<Rightarrow> 'b list \<Rightarrow> nat" where
  "first_bad ok xs ys = length (takeWhile (\<lambda>(x, y). ok x y) (zip xs ys))"

lemma first_bad_Cons [simp]:
  "first_bad ok (x # xs) (y # ys) = (if ok x y then Suc (first_bad ok xs ys) else 0)"
  by (simp add: first_bad_def)

lemma first_bad_Nil [simp]: "first_bad ok [] ys = 0"
  by (simp add: first_bad_def)

lemma first_bad_less:
  "length xs = length ys \<Longrightarrow> \<not> list_all2 ok xs ys \<Longrightarrow>
     first_bad ok xs ys < length xs \<and> \<not> ok (xs ! first_bad ok xs ys) (ys ! first_bad ok xs ys)"
  by (induction rule: list_induct2) auto

text \<open>The values of an array, or one value as often as needed.\<close>

fun reads :: "memory \<Rightarrow> nat \<Rightarrow> bool \<Rightarrow> ptr \<Rightarrow> u64 list \<Rightarrow> bool" where
  "reads m width moves p [] = True"
| "reads m width moves p (v # vs) =
     (load_int m width p = Some v \<and> reads m width moves (if moves then advance p width else p) vs)"

lemma array_loop_runs:
  assumes "length es = length as" "reads m width (flags = UNITY_ARRAY_TO_ARRAY) expected es"
    "reads m width True actual as"
    "\<And>k e a. step k e a u = (if ok e a then Inr u else Inl (fail k e a))"
  shows "array_loop m width flags step (length es) expected actual u =
    Some (if list_all2 ok es as then Inr u
          else let k = first_bad ok es as in Inl (fail (length es - 1 - k) (es ! k) (as ! k)))"
  using assms(1-3)
  by (induction es as arbitrary: expected actual rule: list_induct2) (auto simp: assms(4) Let_def)

lemma array_loop_outcome:
  assumes "\<And>k e a. assertion_outcome u (step k e a u)" "\<not> bailed u"
    and "array_loop m width flags step n expected actual u = Some r"
  shows "assertion_outcome u r"
  using assms(3)
proof (induction n arbitrary: expected actual)
  case 0
  then show ?case using assms(2) by auto
next
  case (Suc n)
  then obtain e a where "step n e a u = r \<or>
      (\<exists>p q. step n e a u = Inr u \<and> array_loop m width flags step n p q u = Some r)"
    using assms(1)[of n] by (auto split: sum.splits bind_splits) (metis assertion_outcome.simps)+
  then show ?case using assms(1) Suc.IH by blast
qed

definition int_array_text :: "UNITY_DISPLAY_STYLE_T \<Rightarrow> u32 \<Rightarrow> u64 \<Rightarrow> u64 \<Rightarrow> byte list" where
  "int_array_text style k e a =
     UnityPrint (Some UnityStrElement) @ UnityPrintNumberUnsigned (ucast k)
     @ UnityPrint (Some UnityStrExpected) @ UnityPrintNumberByStyle (strip_sign style e) style
     @ UnityPrint (Some UnityStrWas) @ UnityPrintNumberByStyle (strip_sign style a) style"

lemma int_array_step_result:
  "int_array_step style num msg line k e a u =
     (if e = a then Inr u
      else Inl (marked u (fail_report msg line (int_array_text style (num - of_nat k - 1) e a) u)))"
  by (simp add: int_array_step_def int_array_text_def fail_text fail_marks)

lemma within_array_step_result:
  assumes "\<not> bailed u"
  shows "within_array_step delta style num msg line k e a u =
     (if \<bar>number_value style e - number_value style a\<bar> \<le> uint delta then Inr u
      else Inl (marked u (fail_report msg line
        (UnityPrint (Some UnityStrDelta) @ UnityPrintNumberByStyle delta style
         @ int_array_text style (num - of_nat k - 1) e a) u)))"
  using assms unfolding within_distance[symmetric]
  by (simp add: within_array_step_def int_array_text_def fail_text fail_marks_failed not_bailed_failed Let_def)

lemma index_of_left:
  assumes "k < n" "unat (num :: u32) = n"
  shows "num - of_nat (n - 1 - k) - 1 = of_nat k"
proof -
  have "num = of_nat n" using assms(2) by (metis of_nat_unat ucast_id)
  moreover have "n = k + (n - 1 - k) + 1" using assms(1) by simp
  then have "(of_nat n :: u32) = of_nat k + of_nat (n - 1 - k) + 1" by (metis of_nat_add of_nat_1)
  ultimately show ?thesis by simp
qed

text \<open>Both arrays are different objects with enough elements.\<close>

definition array_operands ::
  "memory \<Rightarrow> UNITY_DISPLAY_STYLE_T \<Rightarrow> UNITY_FLAGS_T \<Rightarrow> ptr \<Rightarrow> ptr \<Rightarrow> u32 \<Rightarrow> u64 list \<Rightarrow> u64 list \<Rightarrow> bool" where
  "array_operands m style flags expected actual num es as \<longleftrightarrow>
     expected \<noteq> actual \<and> expected \<noteq> Null \<and> actual \<noteq> Null \<and> num \<noteq> 0
     \<and> length es = unat num \<and> length as = unat num
     \<and> reads m (element_width style) (flags = UNITY_ARRAY_TO_ARRAY) expected es
     \<and> reads m (element_width style) True actual as"

lemma array_result:
  assumes "\<not> bailed u" "array_operands m style flags expected actual num es as"
    and "\<And>k e a. step k e a u = (if ok e a then Inr u else Inl (fail (num - of_nat k - 1) e a))"
  shows "array_guards (num = 0) expected actual msg line
      (array_loop m (element_width style) flags step (unat num) expected actual) u =
    Some (if list_all2 ok es as then Inr u
          else let k = first_bad ok es as in Inl (fail (of_nat k) (es ! k) (as ! k)))"
proof -
  note a = assms(2)[unfolded array_operands_def]
  have "array_loop m (element_width style) flags step (length es) expected actual u =
      Some (if list_all2 ok es as then Inr u
            else let k = first_bad ok es as in
              Inl (fail (num - of_nat (length es - 1 - k) - 1) (es ! k) (as ! k)))"
    by (rule array_loop_runs[where fail = "\<lambda>k. fail (num - of_nat k - 1)"]) (use a assms(3) in auto)
  moreover have "num - of_nat (length es - 1 - k) - 1 = of_nat k"
    if "\<not> list_all2 ok es as" "k = first_bad ok es as" for k
    using index_of_left first_bad_less[of es as ok] that a by auto
  ultimately show ?thesis
    using a assms(1) by (simp add: array_guards_run Let_def)
qed

lemma int_array_result:
  assumes "\<not> bailed u" "array_operands m style flags expected actual num es as"
  shows "UnityAssertEqualIntArray m expected actual num msg line style flags u =
    Some (if es = as then Inr u
          else let k = first_bad (=) es as in
            Inl (marked u (fail_report msg line (int_array_text style (of_nat k) (es ! k) (as ! k)) u)))"
  unfolding UnityAssertEqualIntArray_def
  using array_result[where ok = "(=)" and fail = "\<lambda>k e a. marked u (fail_report msg line (int_array_text style k e a) u)"
      and step = "int_array_step style num msg line", OF assms, of msg line]
  by (simp add: list.rel_eq int_array_step_result)

lemma within_array_result:
  assumes "\<not> bailed u" "array_operands m style flags expected actual num es as"
  shows "UnityAssertNumbersArrayWithin m delta expected actual num msg line style flags u =
    Some (if list_all2 (\<lambda>e a. \<bar>number_value style e - number_value style a\<bar> \<le> uint delta) es as then Inr u
          else let k = first_bad (\<lambda>e a. \<bar>number_value style e - number_value style a\<bar> \<le> uint delta) es as in
            Inl (marked u (fail_report msg line
              (UnityPrint (Some UnityStrDelta) @ UnityPrintNumberByStyle delta style
               @ int_array_text style (of_nat k) (es ! k) (as ! k)) u)))"
  unfolding UnityAssertNumbersArrayWithin_def
  by (rule array_result[where fail = "\<lambda>k e a. marked u (fail_report msg line
        (UnityPrint (Some UnityStrDelta) @ UnityPrintNumberByStyle delta style @ int_array_text style k e a) u)",
      OF assms])
    (simp add: within_array_step_result[OF assms(1)])

lemma int_array_outcome:
  assumes "UnityAssertEqualIntArray m expected actual num msg line style flags u = Some r"
  shows "assertion_outcome u r"
proof (rule array_guards_outcome[OF _ assms[unfolded UnityAssertEqualIntArray_def]])
  assume run: "\<not> bailed u"
    "array_loop m (element_width style) flags (int_array_step style num msg line) (unat num) expected actual u = Some r"
  from run show "assertion_outcome u r"
    by (rule array_loop_outcome[rotated]) (use run(1) in \<open>auto simp: int_array_step_result\<close>)
qed

lemma within_array_outcome:
  assumes "UnityAssertNumbersArrayWithin m delta expected actual num msg line style flags u = Some r"
  shows "assertion_outcome u r"
proof (rule array_guards_outcome[OF _ assms[unfolded UnityAssertNumbersArrayWithin_def]])
  assume run: "\<not> bailed u"
    "array_loop m (element_width style) flags (within_array_step delta style num msg line) (unat num) expected actual u = Some r"
  from run show "assertion_outcome u r"
    by (rule array_loop_outcome[rotated]) (use run(1) in \<open>auto simp: within_array_step_result\<close>)
qed

subsection \<open>Sign extension\<close>

lemma le_bytes_value: "le_value (le_bytes n w) = unat w mod 256 ^ n"
proof (induction n arbitrary: w)
  case (Suc n)
  have "unat (ucast w :: byte) = unat w mod 256"
    by (simp add: unsigned_ucast_eq take_bit_eq_mod)
  moreover have "unat (drop_bit 8 w) = unat w div 256" by (simp only: drop_bit_eq_div unat_div) simp
  ultimately show ?case
    using Suc.IH[of "drop_bit 8 w"] mod_mult2_eq[of "unat w" 256 "256 ^ n"] by simp
qed simp

lemma length_le_bytes [simp]: "length (le_bytes n w) = n"
  by (induction n arbitrary: w) auto

text \<open>A value is read back from its bytes with the sign of its width.\<close>

lemma load_stored:
  assumes "m b = Some (Bytes (pre @ le_bytes width w @ post))" "width \<in> {1, 2, 4, 8}"
  shows "load_int m width (Ptr b (length pre)) = Some (signed_take_bit (8 * width - 1) w)"
proof -
  have "(256 :: nat) ^ width = 2 ^ (8 * width)" by (simp add: power_mult)
  then have "of_nat (le_value (le_bytes width w)) = take_bit (8 * width) w"
    by (metis le_bytes_value take_bit_eq_mod of_nat_take_bit of_nat_unat ucast_id)
  moreover have "signed_take_bit (8 * width - 1) (take_bit (8 * width) w) = signed_take_bit (8 * width - 1) w"
    using assms(2) by (auto simp: signed_take_bit_take_bit)
  ultimately show ?thesis
    using assms(1) by (simp add: load_int_def)
qed

lemma number_to_ptr_loads:
  assumes "m 0 = Some (Bytes old)" "length old = 8" "unat sz \<in> {1, 2, 4, 8}"
  shows "\<exists>m'. UnityNumToPtr num sz m = Some (Ptr 0 0, m')
    \<and> load_int m' (unat sz) (Ptr 0 0) = Some (signed_take_bit (8 * unat sz - 1) num)
    \<and> (\<forall>b. b \<noteq> 0 \<longrightarrow> m' b = m b)"
proof -
  have n: "(if sz = 1 then 1 else if sz = 2 then 2 else if sz = 8 then 8 else 4) = unat sz"
    using assms(3) by (auto simp: word_unat_eq_iff)
  define m' where "m' = m(0 \<mapsto> Bytes (le_bytes (unat sz) num @ drop (unat sz) old))"
  have "UnityNumToPtr num sz m = Some (Ptr 0 0, m')"
    using assms(1) n by (simp add: UnityNumToPtr_def m'_def Let_def)
  moreover have "load_int m' (unat sz) (Ptr 0 0) = Some (signed_take_bit (8 * unat sz - 1) num)"
    using load_stored[of m' 0 "[]" "unat sz" num "drop (unat sz) old"] assms(3) by (simp add: m'_def)
  ultimately show ?thesis by (auto simp: m'_def)
qed

subsection \<open>Arrays of strings\<close>

fun reads_strings :: "memory \<Rightarrow> ptr \<Rightarrow> nat \<Rightarrow> cstring list \<Rightarrow> bool" where
  "reads_strings m p j [] = True"
| "reads_strings m p j (s # ss) =
     (\<exists>q. load_ptr m (advance p j) = Some q \<and> load_string m q = Some s \<and> reads_strings m p (j + 1) ss)"

lemma load_string_contents: "load_string m p = Some s \<Longrightarrow> map_option contents s = s"
  by (cases p) (auto simp: contents_def split: option.splits obj.splits if_splits)

definition string_array_text :: "u32 \<Rightarrow> u32 \<Rightarrow> cstring \<Rightarrow> cstring \<Rightarrow> byte list" where
  "string_array_text num j e a =
     (if num > 1 then UnityPrint (Some UnityStrElement) @ UnityPrintNumberUnsigned (ucast j) else [])
     @ UnityPrintExpectedAndActualStrings e a"

lemma string_element_result:
  assumes "\<not> bailed u" "load_string m p = Some e" "load_string m q = Some a"
  shows "string_element m num msg line j p q u =
    Some (if e = a then Inr u else Inl (marked u (fail_report msg line (string_array_text num j e a) u)))"
  using assms(1) assms(2,3)[THEN load_string_contents] assms(2,3)
  by (auto simp: string_element_def strings_mismatch_iff fail_text fail_marks_failed not_bailed_zero
      string_array_text_def Let_def)

lemma string_loop_result:
  assumes "\<not> bailed u" "length es = length as" "flags = UNITY_ARRAY_TO_ARRAY"
    "reads_strings m expected j es" "reads_strings m actual j as"
  shows "string_loop m expected actual num msg line flags (length es) j u =
    Some (if es = as then Inr u
          else let k = first_bad (=) es as in
            Inl (marked u (fail_report msg line (string_array_text num (of_nat (j + k)) (es ! k) (as ! k)) u)))"
  using assms(2,4,5)
proof (induction es as arbitrary: j rule: list_induct2)
  case (Cons e es a as)
  then obtain p q where "load_ptr m (advance expected j) = Some p" "load_string m p = Some e"
      "load_ptr m (advance actual j) = Some q" "load_string m q = Some a"
    by auto
  then show ?case
    using Cons.IH[of "j + 1"] Cons.prems Cons.hyps assms(1,3)
    by (simp add: string_element_result Let_def ac_simps)
qed simp

lemma string_element_outcome:
  assumes "\<not> bailed u" "string_element m num msg line j p q u = Some r"
  shows "assertion_outcome u r"
proof -
  obtain e a where "load_string m p = Some e" "load_string m q = Some a"
    using assms(2) by (auto simp: string_element_def split: bind_splits)
  then show ?thesis
    using assms string_element_result[of u m p e q a num msg line j] by (auto split: if_splits)
qed

lemma string_loop_outcome:
  assumes "\<not> bailed u" "string_loop m expected actual num msg line flags n j u = Some r"
  shows "assertion_outcome u r"
  using assms(2)
proof (induction n arbitrary: j)
  case 0
  then show ?case using assms(1) by auto
next
  case (Suc n)
  then obtain p q r' where r': "string_element m num msg line (of_nat j) p q u = Some r'"
      "(case r' of Inl u \<Rightarrow> Some (Inl u) | Inr u \<Rightarrow> string_loop m expected actual num msg line flags n (Suc j) u) = Some r"
    by (auto split: bind_splits if_splits)
  have "assertion_outcome u r'" by (rule string_element_outcome[OF assms(1) r'(1)])
  then show ?case using r'(2) Suc.IH by (cases r') auto
qed

lemma string_array_outcome:
  assumes "UnityAssertEqualStringArray m expected actual num msg line flags u = Some r"
  shows "assertion_outcome u r"
  by (rule array_guards_outcome[OF _ assms[unfolded UnityAssertEqualStringArray_def]]) (rule string_loop_outcome)

subsection \<open>Memory areas\<close>

lemma drop_plus: "drop (i + n) xs = drop n (drop i xs)"
  by (simp add: add.commute)

lemma load_bytes_split:
  "load_bytes m p (n + k) = Some bs \<longleftrightarrow>
     (\<exists>xs ys. load_bytes m p n = Some xs \<and> load_bytes m (advance p n) k = Some ys \<and> bs = xs @ ys)"
  by (cases p) (auto simp: take_add drop_plus simp del: drop_drop split: option.splits obj.splits)

lemma load_bytes_length: "load_bytes m p n = Some bs \<Longrightarrow> length bs = n"
  by (cases p) (auto split: option.splits obj.splits if_splits)

lemma load_bytes_Suc:
  assumes "load_bytes m p (Suc n) = Some bs"
  obtains b bs' where "bs = b # bs'" "load_bytes m p 1 = Some [b]" "load_bytes m (advance p 1) n = Some bs'"
proof -
  from assms obtain xs ys where *: "load_bytes m p 1 = Some xs" "load_bytes m (advance p 1) n = Some ys" "bs = xs @ ys"
    using load_bytes_split[of m p 1 n bs] by auto
  then obtain b where "xs = [b]" using load_bytes_length[OF *(1)] by (cases xs) auto
  then show thesis using * that by auto
qed

lemma bytes_loop_result:
  assumes "load_bytes m p n = Some es" "load_bytes m q n = Some as"
  shows "\<exists>text. bytes_loop m len num msg line k n p q u =
    Some (if es = as then Inr u else Inl (marked u (fail_report msg line text u)))"
  using assms
proof (induction n arbitrary: p q es as)
  case 0
  then show ?case using load_bytes_length[of m p 0 es] load_bytes_length[of m q 0 as] by simp
next
  case (Suc n)
  obtain e es' where e: "es = e # es'" "load_bytes m p 1 = Some [e]" "load_bytes m (advance p 1) n = Some es'"
    using Suc.prems(1) by (rule load_bytes_Suc)
  obtain a as' where a: "as = a # as'" "load_bytes m q 1 = Some [a]" "load_bytes m (advance q 1) n = Some as'"
    using Suc.prems(2) by (rule load_bytes_Suc)
  show ?case
    using Suc.IH[OF e(3) a(3)] e(1,2) a(1,2) by (auto simp: fail_text fail_marks)
qed

lemma bytes_loop_outcome:
  "bytes_loop m len num msg line k n p q u = Some r \<Longrightarrow> r = Inr u \<or> (\<exists>text. r = Inl (marked u text))"
  by (induction n arbitrary: p q) (auto simp: fail_text fail_marks split: bind_splits if_splits)

lemma memory_loop_outcome:
  assumes "\<not> bailed u" "memory_loop m base len num msg line flags n p q u = Some r"
  shows "assertion_outcome u r"
  using assms(2)
proof (induction n arbitrary: p q)
  case 0
  then show ?case using assms(1) by auto
next
  case (Suc n)
  then obtain r' where r': "bytes_loop m len num msg line n (unat len) p q u = Some r'"
    by (auto split: bind_splits)
  from bytes_loop_outcome[OF this] show ?case
  proof
    assume "r' = Inr u"
    then show ?case using Suc r' by auto
  next
    assume "\<exists>text. r' = Inl (marked u text)"
    then obtain out where "r = Inl (marked u out)" using Suc.prems r' by auto
    then show ?case by (simp only:) (rule marked_outcome[OF assms(1)])
  qed
qed

lemma memory_outcome:
  assumes "UnityAssertEqualMemory m expected actual len num msg line flags u = Some r"
  shows "assertion_outcome u r"
  by (rule array_guards_outcome[OF _ assms[unfolded UnityAssertEqualMemory_def]]) (rule memory_loop_outcome)

lemma memory_loop_result:
  assumes "load_bytes m p (n * unat len) = Some es" "load_bytes m q (n * unat len) = Some as"
    "flags = UNITY_ARRAY_TO_ARRAY"
  shows "\<exists>text. memory_loop m base len num msg line flags n p q u =
    Some (if es = as then Inr u else Inl (marked u (fail_report msg line text u)))"
  using assms(1,2)
proof (induction n arbitrary: p q es as)
  case 0
  then show ?case using load_bytes_length[of m p 0 es] load_bytes_length[of m q 0 as] by simp
next
  case (Suc n)
  have n: "Suc n * unat len = unat len + n * unat len" by simp
  obtain x xs where x: "load_bytes m p (unat len) = Some x"
      "load_bytes m (advance p (unat len)) (n * unat len) = Some xs" "es = x @ xs"
    using Suc.prems(1) unfolding n load_bytes_split by blast
  obtain y ys where y: "load_bytes m q (unat len) = Some y"
      "load_bytes m (advance q (unat len)) (n * unat len) = Some ys" "as = y @ ys"
    using Suc.prems(2) unfolding n load_bytes_split by blast
  have "length x = length y" using x(1) y(1) load_bytes_length by metis
  then have "es = as \<longleftrightarrow> x = y \<and> xs = ys" using x(3) y(3) by simp
  then show ?case
    using bytes_loop_result[OF x(1) y(1), of len num msg line n u] Suc.IH[OF x(2) y(2)] assms(3) by auto
qed

subsection \<open>Properties\<close>

text \<open>Property C19: on two different arrays that have all the elements, the integer array assertion
  passes exactly if the elements are equal; otherwise it leaves the test with a report of the
  first pair that differs, under its index. In each-equal mode every element is compared with
  the one value.\<close>

theorem int_array_assertion_is_exact:
  assumes "\<not> bailed u" "array_operands m style flags expected actual num es as"
  shows "UnityAssertEqualIntArray m expected actual num msg line style flags u =
    Some (if es = as then Inr u
          else let k = first_bad (=) es as in
            Inl (marked u (fail_report msg line (int_array_text style (of_nat k) (es ! k) (as ! k)) u)))"
  by (rule int_array_result[OF assms])

text \<open>Two arrays of three \<open>int16_t\<close>.\<close>

definition sample_arrays :: memory where
  "sample_arrays = [1 \<mapsto> Bytes [1, 0, 2, 0, 0xFF, 0xFF], 2 \<mapsto> Bytes [1, 0, 2, 0, 3, 0]]"

lemma sample_operands:
  "array_operands sample_arrays UNITY_DISPLAY_STYLE_INT16 UNITY_ARRAY_TO_ARRAY (Ptr 1 0) (Ptr 2 0) 3
     [1, 2, - 1] [1, 2, 3]"
  by (simp add: array_operands_def element_width_def style_length_def sample_arrays_def load_int_def)

theorem int_array_assertion_is_exact_witness:
  "UnityAssertEqualIntArray sample_arrays (Ptr 1 0) (Ptr 2 0) 3 None 7 UNITY_DISPLAY_STYLE_INT16
     UNITY_ARRAY_TO_ARRAY sample_unity =
   Some (Inl (marked sample_unity
     (fail_report None 7 (int_array_text UNITY_DISPLAY_STYLE_INT16 2 (- 1) 3) sample_unity)))"
  using int_array_assertion_is_exact[OF sample_unity_runs sample_operands, of None 7]
  by (simp add: Let_def)

text \<open>Two different areas are compared byte by byte: the memory assertion passes exactly
  if they are equal, and marks the test otherwise.\<close>

theorem memory_assertion_is_exact:
  assumes "\<not> bailed u" "expected \<noteq> actual" "expected \<noteq> Null" "actual \<noteq> Null" "num \<noteq> 0" "len \<noteq> 0"
    and "load_bytes m expected (unat num * unat len) = Some es"
    and "load_bytes m actual (unat num * unat len) = Some as"
  shows "\<exists>text. UnityAssertEqualMemory m expected actual len num msg line UNITY_ARRAY_TO_ARRAY u =
    Some (if es = as then Inr u else Inl (marked u (fail_report msg line text u)))"
  using assms memory_loop_result[OF assms(7,8) refl]
  by (simp add: UnityAssertEqualMemory_def array_guards_run)

theorem memory_assertion_is_exact_witness:
  "\<exists>text. UnityAssertEqualMemory sample_arrays (Ptr 1 0) (Ptr 2 0) 3 2 None 7 UNITY_ARRAY_TO_ARRAY sample_unity
     = Some (Inl (marked sample_unity (fail_report None 7 text sample_unity)))"
  using memory_assertion_is_exact[of sample_unity "Ptr 1 0" "Ptr 2 0" 2 3 sample_arrays
      "[1, 0, 2, 0, 0xFF, 0xFF]" "[1, 0, 2, 0, 3, 0]" None 7]
  by (simp add: sample_arrays_def)

lemma signed_take_bit_byte: "signed_take_bit 7 (ucast b :: u64) = scast b" for b :: byte
proof -
  have "(scast (ucast b :: byte) :: u64) = signed_take_bit (LENGTH(8) - Suc 0) (ucast b)"
    by (rule signed_ucast_eq)
  then show ?thesis by simp
qed

lemma uint_sign_extended:
  "uint (scast b :: u64) = (if uint b < 128 then uint b else 2 ^ 64 - 256 + uint b)" for b :: byte
proof -
  have "(scast b :: u64) = of_int (sint b)" by (rule scast_eq)
  then have "uint (scast b :: u64) = take_bit 64 (sint b)"
    by (simp only: uint_word_of_int take_bit_eq_mod) simp
  also have "\<dots> = (if unat b < 128 then int (unat b) else 2 ^ 64 - 256 + int (unat b))"
  proof (cases "unat b < 128")
    case True
    have "uint b < 2 ^ 64" using unsigned_less[of b, where 'a = int] by simp
    then have "take_bit 64 (int (unat b)) = int (unat b)" by (intro take_bit_int_eq_self) simp_all
    then show ?thesis using True by (simp add: sint_byte)
  next
    case False
    have "take_bit 64 (int (unat b) - 256) = take_bit 64 (int (unat b) - 256 + 2 ^ 64)"
      by (simp only: take_bit_eq_mod mod_add_self2)
    also have "\<dots> = int (unat b) - 256 + 2 ^ 64"
      using unsigned_less[of b, where 'a = int] by (intro take_bit_int_eq_self) simp_all
    finally show ?thesis using False by (simp add: sint_byte)
  qed
  also have "unat b < 128 \<longleftrightarrow> uint b < 128" unfolding uint_nat[of b] by presburger
  finally show ?thesis by (simp only: uint_nat[symmetric])
qed

text \<open>The tolerance assertion on arrays compares the sign-extended elements, also of an
  unsigned type: two bytes on the two sides of 128 are reported as too far apart under any
  tolerance below \<open>2 ^ 63\<close>, while the assertion on single values accepts them.\<close>

theorem unsigned_array_within_rejects_close_values:
  assumes "\<not> bailed u" "m b = Some (Bytes [e])" "m b' = Some (Bytes [a])" "b \<noteq> b'"
    and "e < 128" "128 \<le> a" "uint delta < 2 ^ 63" "uint a - uint e \<le> uint delta"
  shows "(\<exists>text. UnityAssertNumbersArrayWithin m delta (Ptr b 0) (Ptr b' 0) 1 msg line
        UNITY_DISPLAY_STYLE_UINT8 UNITY_ARRAY_TO_ARRAY u = Some (Inl (marked u text)))
    \<and> UnityAssertNumbersWithin delta (ucast e) (ucast a) msg line UNITY_DISPLAY_STYLE_UINT8 u = Inr u"
proof -
  let ?s = UNITY_DISPLAY_STYLE_UINT8
  have style: "element_width ?s = 1" "\<not> int_range ?s"
    by (simp_all add: element_width_def style_length_def int_range_def)
  have "array_operands m ?s UNITY_ARRAY_TO_ARRAY (Ptr b 0) (Ptr b' 0) 1 [scast e] [scast a]"
    using assms(2-4) by (simp add: array_operands_def style load_int_def flip: signed_take_bit_byte)
  moreover have "\<not> \<bar>uint (scast e :: u64) - uint (scast a :: u64)\<bar> \<le> uint delta"
  proof -
    have "uint e < 128" "128 \<le> uint a" "0 \<le> uint a" using assms(5,6) by (simp_all add: word_less_def word_le_def)
    then show ?thesis using assms(7) by (simp add: uint_sign_extended)
  qed
  ultimately have "\<exists>text. UnityAssertNumbersArrayWithin m delta (Ptr b 0) (Ptr b' 0) 1 msg line ?s
      UNITY_ARRAY_TO_ARRAY u = Some (Inl (marked u text))"
    using assms(1) style(2) by (subst within_array_result) (auto simp: number_value_def Let_def)
  moreover have "UnityAssertNumbersWithin delta (ucast e) (ucast a) msg line ?s u = Inr u"
  proof -
    have "uint (ucast x :: u64) = uint x" for x :: byte by (simp only: uint_nat unat_ucast_8_64)
    moreover have "uint e \<le> uint a" using assms(5,6) by (simp add: word_less_def word_le_def)
    ultimately show ?thesis
      using assms(1,8) style(2) by (simp add: assert_within assertion_def number_value_def)
  qed
  ultimately show ?thesis by simp
qed

theorem unsigned_array_within_rejects_close_values_witness:
  "\<exists>text. UnityAssertNumbersArrayWithin [1 \<mapsto> Bytes [127], 2 \<mapsto> Bytes [128]] 1 (Ptr 1 0) (Ptr 2 0) 1 None 7
        UNITY_DISPLAY_STYLE_UINT8 UNITY_ARRAY_TO_ARRAY sample_unity = Some (Inl (marked sample_unity text))"
  using unsigned_array_within_rejects_close_values[of sample_unity "[1 \<mapsto> Bytes [127], 2 \<mapsto> Bytes [128]]" 1 127 2 128 1 None 7]
  by simp

end
