(* ===== verification/Unity_Macros.thy ===== *)
theory Unity_Macros
  imports Unity_Arrays
begin

section \<open>Unity: the assertion macros\<close>

text \<open>
  The macros that tests use (\<^verbatim>\<open>assignment-autotest/Unity/src/unity.h\<close>) and the macros they expand
  to (\<^verbatim>\<open>unity_internals.h\<close>): they choose the type's cast and display style, the line and the message.
  \<open>__LINE__\<close> is the parameter \<open>line\<close>. The macros for floating-point numbers are in
  \<open>Unity_Float\<close>.
\<close>

abbreviation (input) UNITY_DISPLAY_STYLE_POINTER :: UNITY_DISPLAY_STYLE_T where
  "UNITY_DISPLAY_STYLE_POINTER \<equiv> UNITY_DISPLAY_STYLE_HEX64"

subsection \<open>Casts\<close>

text \<open>The argument of a macro is the value of the expression, converted to 64 bits; a cast to a narrower type and back to \<open>UNITY_INT\<close>.\<close>

definition cast_INT8 :: "u64 \<Rightarrow> u64" where
  "cast_INT8 v = scast (ucast v :: byte)"

definition cast_INT16 :: "u64 \<Rightarrow> u64" where
  "cast_INT16 v = scast (ucast v :: 16 word)"

definition cast_INT32 :: "u64 \<Rightarrow> u64" where
  "cast_INT32 v = scast (ucast v :: 32 word)"

definition cast_UINT8 :: "u64 \<Rightarrow> u64" where
  "cast_UINT8 v = ucast (ucast v :: byte)"

definition cast_UINT16 :: "u64 \<Rightarrow> u64" where
  "cast_UINT16 v = ucast (ucast v :: 16 word)"

definition cast_UINT32 :: "u64 \<Rightarrow> u64" where
  "cast_UINT32 v = ucast (ucast v :: 32 word)"

text \<open>The casts of \<open>EQUAL\<close> and \<open>EACH_EQUAL\<close>; the styles of 64 bits, \<open>INT\<close> and \<open>UINT\<close> only convert to \<open>UNITY_INT\<close>.\<close>

fun equal_cast :: "UNITY_DISPLAY_STYLE_T \<Rightarrow> u64 \<Rightarrow> u64" where
  "equal_cast UNITY_DISPLAY_STYLE_INT8 v = cast_INT8 v"
| "equal_cast UNITY_DISPLAY_STYLE_INT16 v = cast_INT16 v"
| "equal_cast UNITY_DISPLAY_STYLE_INT32 v = cast_INT32 v"
| "equal_cast UNITY_DISPLAY_STYLE_UINT8 v = cast_UINT8 v"
| "equal_cast UNITY_DISPLAY_STYLE_UINT16 v = cast_UINT16 v"
| "equal_cast UNITY_DISPLAY_STYLE_UINT32 v = cast_UINT32 v"
| "equal_cast UNITY_DISPLAY_STYLE_HEX8 v = cast_INT8 v"
| "equal_cast UNITY_DISPLAY_STYLE_HEX16 v = cast_INT16 v"
| "equal_cast UNITY_DISPLAY_STYLE_HEX32 v = cast_INT32 v"
| "equal_cast UNITY_DISPLAY_STYLE_CHAR v = cast_INT8 v"
| "equal_cast style v = v"

text \<open>The casts of the comparisons, where the hexadecimal styles are unsigned.\<close>

fun order_cast :: "UNITY_DISPLAY_STYLE_T \<Rightarrow> u64 \<Rightarrow> u64" where
  "order_cast UNITY_DISPLAY_STYLE_INT8 v = cast_INT8 v"
| "order_cast UNITY_DISPLAY_STYLE_INT16 v = cast_INT16 v"
| "order_cast UNITY_DISPLAY_STYLE_INT32 v = cast_INT32 v"
| "order_cast UNITY_DISPLAY_STYLE_UINT8 v = cast_UINT8 v"
| "order_cast UNITY_DISPLAY_STYLE_UINT16 v = cast_UINT16 v"
| "order_cast UNITY_DISPLAY_STYLE_UINT32 v = cast_UINT32 v"
| "order_cast UNITY_DISPLAY_STYLE_HEX8 v = cast_UINT8 v"
| "order_cast UNITY_DISPLAY_STYLE_HEX16 v = cast_UINT16 v"
| "order_cast UNITY_DISPLAY_STYLE_HEX32 v = cast_UINT32 v"
| "order_cast UNITY_DISPLAY_STYLE_CHAR v = cast_INT8 v"
| "order_cast style v = v"

text \<open>The casts of the tolerance.\<close>

fun delta_cast :: "UNITY_DISPLAY_STYLE_T \<Rightarrow> u64 \<Rightarrow> u64" where
  "delta_cast UNITY_DISPLAY_STYLE_INT8 v = cast_UINT8 v"
| "delta_cast UNITY_DISPLAY_STYLE_INT16 v = cast_UINT16 v"
| "delta_cast UNITY_DISPLAY_STYLE_INT32 v = cast_UINT32 v"
| "delta_cast UNITY_DISPLAY_STYLE_UINT8 v = cast_UINT8 v"
| "delta_cast UNITY_DISPLAY_STYLE_UINT16 v = cast_UINT16 v"
| "delta_cast UNITY_DISPLAY_STYLE_UINT32 v = cast_UINT32 v"
| "delta_cast UNITY_DISPLAY_STYLE_HEX8 v = cast_UINT8 v"
| "delta_cast UNITY_DISPLAY_STYLE_HEX16 v = cast_UINT16 v"
| "delta_cast UNITY_DISPLAY_STYLE_HEX32 v = cast_UINT32 v"
| "delta_cast UNITY_DISPLAY_STYLE_CHAR v = cast_UINT8 v"
| "delta_cast style v = v"

text \<open>In the macro for arrays of \<open>UINT8\<close> the tolerance is cast to 16 bits.\<close>

fun array_delta_cast :: "UNITY_DISPLAY_STYLE_T \<Rightarrow> u64 \<Rightarrow> u64" where
  "array_delta_cast UNITY_DISPLAY_STYLE_UINT8 v = cast_UINT16 v"
| "array_delta_cast style v = delta_cast style v"

subsection \<open>The macros of \<open>unity_internals.h\<close>\<close>

text \<open>One definition for the macros that differ in the type only; the type is the display style.\<close>

definition UNITY_TEST_ASSERT ::
  "bool \<Rightarrow> u64 \<Rightarrow> cstring \<Rightarrow> unity \<Rightarrow> flow" where
  "UNITY_TEST_ASSERT condition line message u = (if condition then Inr u else UnityFail message line u)"

definition UNITY_TEST_ASSERT_NULL ::
  "ptr \<Rightarrow> u64 \<Rightarrow> cstring \<Rightarrow> unity \<Rightarrow> flow" where
  "UNITY_TEST_ASSERT_NULL p line message u = UNITY_TEST_ASSERT (p = Null) line message u"

definition UNITY_TEST_ASSERT_NOT_NULL ::
  "ptr \<Rightarrow> u64 \<Rightarrow> cstring \<Rightarrow> unity \<Rightarrow> flow" where
  "UNITY_TEST_ASSERT_NOT_NULL p line message u = UNITY_TEST_ASSERT (p \<noteq> Null) line message u"

definition UNITY_TEST_ASSERT_EMPTY ::
  "memory \<Rightarrow> ptr \<Rightarrow> u64 \<Rightarrow> cstring \<Rightarrow> unity \<Rightarrow> flow option" where
  "UNITY_TEST_ASSERT_EMPTY m p line message u = do {
     bs \<leftarrow> load_bytes m p 1;
     Some (UNITY_TEST_ASSERT (bs = [0]) line message u)
   }"

definition UNITY_TEST_ASSERT_NOT_EMPTY ::
  "memory \<Rightarrow> ptr \<Rightarrow> u64 \<Rightarrow> cstring \<Rightarrow> unity \<Rightarrow> flow option" where
  "UNITY_TEST_ASSERT_NOT_EMPTY m p line message u = do {
     bs \<leftarrow> load_bytes m p 1;
     Some (UNITY_TEST_ASSERT (bs \<noteq> [0]) line message u)
   }"

definition UNITY_TEST_ASSERT_EQUAL ::
  "UNITY_DISPLAY_STYLE_T \<Rightarrow> u64 \<Rightarrow> u64 \<Rightarrow> u64 \<Rightarrow> cstring \<Rightarrow> unity \<Rightarrow> flow" where
  "UNITY_TEST_ASSERT_EQUAL style expected actual line message =
     UnityAssertEqualNumber (equal_cast style expected) (equal_cast style actual) message line style"

definition UNITY_TEST_ASSERT_BITS ::
  "u64 \<Rightarrow> u64 \<Rightarrow> u64 \<Rightarrow> u64 \<Rightarrow> cstring \<Rightarrow> unity \<Rightarrow> flow" where
  "UNITY_TEST_ASSERT_BITS msk expected actual line message = UnityAssertBits msk expected actual message line"

definition UNITY_TEST_ASSERT_NOT_EQUAL ::
  "UNITY_DISPLAY_STYLE_T \<Rightarrow> u64 \<Rightarrow> u64 \<Rightarrow> u64 \<Rightarrow> cstring \<Rightarrow> unity \<Rightarrow> flow" where
  "UNITY_TEST_ASSERT_NOT_EQUAL style threshold actual line message =
     UnityAssertGreaterOrLessOrEqualNumber (order_cast style threshold) (order_cast style actual)
       UNITY_NOT_EQUAL message line style"

definition UNITY_TEST_ASSERT_GREATER_THAN ::
  "UNITY_DISPLAY_STYLE_T \<Rightarrow> u64 \<Rightarrow> u64 \<Rightarrow> u64 \<Rightarrow> cstring \<Rightarrow> unity \<Rightarrow> flow" where
  "UNITY_TEST_ASSERT_GREATER_THAN style threshold actual line message =
     UnityAssertGreaterOrLessOrEqualNumber (order_cast style threshold) (order_cast style actual)
       UNITY_GREATER_THAN message line style"

definition UNITY_TEST_ASSERT_SMALLER_THAN ::
  "UNITY_DISPLAY_STYLE_T \<Rightarrow> u64 \<Rightarrow> u64 \<Rightarrow> u64 \<Rightarrow> cstring \<Rightarrow> unity \<Rightarrow> flow" where
  "UNITY_TEST_ASSERT_SMALLER_THAN style threshold actual line message =
     UnityAssertGreaterOrLessOrEqualNumber (order_cast style threshold) (order_cast style actual)
       UNITY_SMALLER_THAN message line style"

definition UNITY_TEST_ASSERT_GREATER_OR_EQUAL ::
  "UNITY_DISPLAY_STYLE_T \<Rightarrow> u64 \<Rightarrow> u64 \<Rightarrow> u64 \<Rightarrow> cstring \<Rightarrow> unity \<Rightarrow> flow" where
  "UNITY_TEST_ASSERT_GREATER_OR_EQUAL style threshold actual line message =
     UnityAssertGreaterOrLessOrEqualNumber (order_cast style threshold) (order_cast style actual)
       UNITY_GREATER_OR_EQUAL message line style"

definition UNITY_TEST_ASSERT_SMALLER_OR_EQUAL ::
  "UNITY_DISPLAY_STYLE_T \<Rightarrow> u64 \<Rightarrow> u64 \<Rightarrow> u64 \<Rightarrow> cstring \<Rightarrow> unity \<Rightarrow> flow" where
  "UNITY_TEST_ASSERT_SMALLER_OR_EQUAL style threshold actual line message =
     UnityAssertGreaterOrLessOrEqualNumber (order_cast style threshold) (order_cast style actual)
       UNITY_SMALLER_OR_EQUAL message line style"

definition UNITY_TEST_ASSERT_WITHIN ::
  "UNITY_DISPLAY_STYLE_T \<Rightarrow> u64 \<Rightarrow> u64 \<Rightarrow> u64 \<Rightarrow> u64 \<Rightarrow> cstring \<Rightarrow> unity \<Rightarrow> flow" where
  "UNITY_TEST_ASSERT_WITHIN style delta expected actual line message =
     UnityAssertNumbersWithin (delta_cast style delta) (order_cast style expected) (order_cast style actual)
       message line style"

definition UNITY_TEST_ASSERT_ARRAY_WITHIN ::
  "memory \<Rightarrow> UNITY_DISPLAY_STYLE_T \<Rightarrow> u64 \<Rightarrow> ptr \<Rightarrow> ptr \<Rightarrow> u32 \<Rightarrow> u64 \<Rightarrow> cstring \<Rightarrow> unity \<Rightarrow> flow option" where
  "UNITY_TEST_ASSERT_ARRAY_WITHIN m style delta expected actual num_elements line message =
     UnityAssertNumbersArrayWithin m (array_delta_cast style delta) expected actual num_elements message line style
       UNITY_ARRAY_TO_ARRAY"

text \<open>Pointers are given by their addresses here.\<close>

definition UNITY_TEST_ASSERT_EQUAL_PTR ::
  "u64 \<Rightarrow> u64 \<Rightarrow> u64 \<Rightarrow> cstring \<Rightarrow> unity \<Rightarrow> flow" where
  "UNITY_TEST_ASSERT_EQUAL_PTR expected actual line message =
     UnityAssertEqualNumber expected actual message line UNITY_DISPLAY_STYLE_POINTER"

definition UNITY_TEST_ASSERT_EQUAL_STRING ::
  "cstring \<Rightarrow> cstring \<Rightarrow> u64 \<Rightarrow> cstring \<Rightarrow> unity \<Rightarrow> flow" where
  "UNITY_TEST_ASSERT_EQUAL_STRING expected actual line message = UnityAssertEqualString expected actual message line"

definition UNITY_TEST_ASSERT_EQUAL_STRING_LEN ::
  "cstring \<Rightarrow> cstring \<Rightarrow> u32 \<Rightarrow> u64 \<Rightarrow> cstring \<Rightarrow> unity \<Rightarrow> flow option" where
  "UNITY_TEST_ASSERT_EQUAL_STRING_LEN expected actual len line message =
     UnityAssertEqualStringLen expected actual len message line"

definition UNITY_TEST_ASSERT_EQUAL_MEMORY ::
  "memory \<Rightarrow> ptr \<Rightarrow> ptr \<Rightarrow> u32 \<Rightarrow> u64 \<Rightarrow> cstring \<Rightarrow> unity \<Rightarrow> flow option" where
  "UNITY_TEST_ASSERT_EQUAL_MEMORY m expected actual len line message =
     UnityAssertEqualMemory m expected actual len 1 message line UNITY_ARRAY_TO_ARRAY"

definition UNITY_TEST_ASSERT_EQUAL_ARRAY ::
  "memory \<Rightarrow> UNITY_DISPLAY_STYLE_T \<Rightarrow> ptr \<Rightarrow> ptr \<Rightarrow> u32 \<Rightarrow> u64 \<Rightarrow> cstring \<Rightarrow> unity \<Rightarrow> flow option" where
  "UNITY_TEST_ASSERT_EQUAL_ARRAY m style expected actual num_elements line message =
     UnityAssertEqualIntArray m expected actual num_elements message line style UNITY_ARRAY_TO_ARRAY"

definition UNITY_TEST_ASSERT_EQUAL_PTR_ARRAY ::
  "memory \<Rightarrow> ptr \<Rightarrow> ptr \<Rightarrow> u32 \<Rightarrow> u64 \<Rightarrow> cstring \<Rightarrow> unity \<Rightarrow> flow option" where
  "UNITY_TEST_ASSERT_EQUAL_PTR_ARRAY m expected actual num_elements line message =
     UnityAssertEqualIntArray m expected actual num_elements message line UNITY_DISPLAY_STYLE_POINTER UNITY_ARRAY_TO_ARRAY"

definition UNITY_TEST_ASSERT_EQUAL_STRING_ARRAY ::
  "memory \<Rightarrow> ptr \<Rightarrow> ptr \<Rightarrow> u32 \<Rightarrow> u64 \<Rightarrow> cstring \<Rightarrow> unity \<Rightarrow> flow option" where
  "UNITY_TEST_ASSERT_EQUAL_STRING_ARRAY m expected actual num_elements line message =
     UnityAssertEqualStringArray m expected actual num_elements message line UNITY_ARRAY_TO_ARRAY"

definition UNITY_TEST_ASSERT_EQUAL_MEMORY_ARRAY ::
  "memory \<Rightarrow> ptr \<Rightarrow> ptr \<Rightarrow> u32 \<Rightarrow> u32 \<Rightarrow> u64 \<Rightarrow> cstring \<Rightarrow> unity \<Rightarrow> flow option" where
  "UNITY_TEST_ASSERT_EQUAL_MEMORY_ARRAY m expected actual len num_elements line message =
     UnityAssertEqualMemory m expected actual len num_elements message line UNITY_ARRAY_TO_ARRAY"

text \<open>The number of bytes given to \<open>UnityNumToPtr\<close> is the length in the style.\<close>

definition UNITY_TEST_ASSERT_EACH_EQUAL ::
  "memory \<Rightarrow> UNITY_DISPLAY_STYLE_T \<Rightarrow> u64 \<Rightarrow> ptr \<Rightarrow> u32 \<Rightarrow> u64 \<Rightarrow> cstring \<Rightarrow> unity \<Rightarrow> flow option" where
  "UNITY_TEST_ASSERT_EACH_EQUAL m style expected actual num_elements line message u = do {
     (p, m) \<leftarrow> UnityNumToPtr (equal_cast style expected) (ucast (style_length style)) m;
     UnityAssertEqualIntArray m p actual num_elements message line style UNITY_ARRAY_TO_VAL u
   }"

definition UNITY_TEST_ASSERT_EACH_EQUAL_PTR ::
  "memory \<Rightarrow> u64 \<Rightarrow> ptr \<Rightarrow> u32 \<Rightarrow> u64 \<Rightarrow> cstring \<Rightarrow> unity \<Rightarrow> flow option" where
  "UNITY_TEST_ASSERT_EACH_EQUAL_PTR m expected actual num_elements line message u = do {
     (p, m) \<leftarrow> UnityNumToPtr expected 8 m;
     UnityAssertEqualIntArray m p actual num_elements message line UNITY_DISPLAY_STYLE_POINTER UNITY_ARRAY_TO_VAL u
   }"

definition UNITY_TEST_ASSERT_EACH_EQUAL_STRING ::
  "memory \<Rightarrow> ptr \<Rightarrow> ptr \<Rightarrow> u32 \<Rightarrow> u64 \<Rightarrow> cstring \<Rightarrow> unity \<Rightarrow> flow option" where
  "UNITY_TEST_ASSERT_EACH_EQUAL_STRING m expected actual num_elements line message =
     UnityAssertEqualStringArray m expected actual num_elements message line UNITY_ARRAY_TO_VAL"

definition UNITY_TEST_ASSERT_EACH_EQUAL_MEMORY ::
  "memory \<Rightarrow> ptr \<Rightarrow> ptr \<Rightarrow> u32 \<Rightarrow> u32 \<Rightarrow> u64 \<Rightarrow> cstring \<Rightarrow> unity \<Rightarrow> flow option" where
  "UNITY_TEST_ASSERT_EACH_EQUAL_MEMORY m expected actual len num_elements line message =
     UnityAssertEqualMemory m expected actual len num_elements message line UNITY_ARRAY_TO_VAL"

subsection \<open>The macros of \<open>unity.h\<close>\<close>

definition TEST_FAIL_MESSAGE :: "cstring \<Rightarrow> u64 \<Rightarrow> unity \<Rightarrow> flow" where
  "TEST_FAIL_MESSAGE message line = UnityFail message line"

definition TEST_FAIL :: "u64 \<Rightarrow> unity \<Rightarrow> flow" where
  "TEST_FAIL line = UnityFail None line"

definition TEST_IGNORE_MESSAGE :: "cstring \<Rightarrow> u64 \<Rightarrow> unity \<Rightarrow> flow" where
  "TEST_IGNORE_MESSAGE message line = UnityIgnore message line"

definition TEST_IGNORE :: "u64 \<Rightarrow> unity \<Rightarrow> flow" where
  "TEST_IGNORE line = UnityIgnore None line"

definition TEST_MESSAGE :: "cstring \<Rightarrow> u64 \<Rightarrow> unity \<Rightarrow> flow" where
  "TEST_MESSAGE message line u = Inr (UnityMessage message line u)"

text \<open>Leaving a test without a mark.\<close>

definition TEST_PASS :: "unity \<Rightarrow> flow" where
  "TEST_PASS u = Inl u"

definition TEST_PASS_MESSAGE :: "cstring \<Rightarrow> u64 \<Rightarrow> unity \<Rightarrow> flow" where
  "TEST_PASS_MESSAGE message line u = Inl (UnityMessage message line u)"

text \<open>Conditions; without a message a text is supplied.\<close>

definition TEST_ASSERT ::
  "bool \<Rightarrow> u64 \<Rightarrow> unity \<Rightarrow> flow" where
  "TEST_ASSERT condition line = UNITY_TEST_ASSERT condition line (Some (str '' Expression Evaluated To FALSE''))"

definition TEST_ASSERT_MESSAGE ::
  "bool \<Rightarrow> cstring \<Rightarrow> u64 \<Rightarrow> unity \<Rightarrow> flow" where
  "TEST_ASSERT_MESSAGE condition message line = UNITY_TEST_ASSERT condition line message"

definition TEST_ASSERT_TRUE ::
  "bool \<Rightarrow> u64 \<Rightarrow> unity \<Rightarrow> flow" where
  "TEST_ASSERT_TRUE condition line = UNITY_TEST_ASSERT condition line (Some (str '' Expected TRUE Was FALSE''))"

definition TEST_ASSERT_TRUE_MESSAGE ::
  "bool \<Rightarrow> cstring \<Rightarrow> u64 \<Rightarrow> unity \<Rightarrow> flow" where
  "TEST_ASSERT_TRUE_MESSAGE condition message line = UNITY_TEST_ASSERT condition line message"

definition TEST_ASSERT_UNLESS ::
  "bool \<Rightarrow> u64 \<Rightarrow> unity \<Rightarrow> flow" where
  "TEST_ASSERT_UNLESS condition line = UNITY_TEST_ASSERT (\<not> condition) line (Some (str '' Expression Evaluated To TRUE''))"

definition TEST_ASSERT_UNLESS_MESSAGE ::
  "bool \<Rightarrow> cstring \<Rightarrow> u64 \<Rightarrow> unity \<Rightarrow> flow" where
  "TEST_ASSERT_UNLESS_MESSAGE condition message line = UNITY_TEST_ASSERT (\<not> condition) line message"

definition TEST_ASSERT_FALSE ::
  "bool \<Rightarrow> u64 \<Rightarrow> unity \<Rightarrow> flow" where
  "TEST_ASSERT_FALSE condition line = UNITY_TEST_ASSERT (\<not> condition) line (Some (str '' Expected FALSE Was TRUE''))"

definition TEST_ASSERT_FALSE_MESSAGE ::
  "bool \<Rightarrow> cstring \<Rightarrow> u64 \<Rightarrow> unity \<Rightarrow> flow" where
  "TEST_ASSERT_FALSE_MESSAGE condition message line = UNITY_TEST_ASSERT (\<not> condition) line message"

definition TEST_ASSERT_NULL ::
  "ptr \<Rightarrow> u64 \<Rightarrow> unity \<Rightarrow> flow" where
  "TEST_ASSERT_NULL p line = UNITY_TEST_ASSERT_NULL p line (Some (str '' Expected NULL''))"

definition TEST_ASSERT_NULL_MESSAGE ::
  "ptr \<Rightarrow> cstring \<Rightarrow> u64 \<Rightarrow> unity \<Rightarrow> flow" where
  "TEST_ASSERT_NULL_MESSAGE p message line = UNITY_TEST_ASSERT_NULL p line message"

definition TEST_ASSERT_NOT_NULL ::
  "ptr \<Rightarrow> u64 \<Rightarrow> unity \<Rightarrow> flow" where
  "TEST_ASSERT_NOT_NULL p line = UNITY_TEST_ASSERT_NOT_NULL p line (Some (str '' Expected Non-NULL''))"

definition TEST_ASSERT_NOT_NULL_MESSAGE ::
  "ptr \<Rightarrow> cstring \<Rightarrow> u64 \<Rightarrow> unity \<Rightarrow> flow" where
  "TEST_ASSERT_NOT_NULL_MESSAGE p message line = UNITY_TEST_ASSERT_NOT_NULL p line message"

definition TEST_ASSERT_EMPTY ::
  "memory \<Rightarrow> ptr \<Rightarrow> u64 \<Rightarrow> unity \<Rightarrow> flow option" where
  "TEST_ASSERT_EMPTY m p line = UNITY_TEST_ASSERT_EMPTY m p line (Some (str '' Expected Empty''))"

definition TEST_ASSERT_EMPTY_MESSAGE ::
  "memory \<Rightarrow> ptr \<Rightarrow> cstring \<Rightarrow> u64 \<Rightarrow> unity \<Rightarrow> flow option" where
  "TEST_ASSERT_EMPTY_MESSAGE m p message line = UNITY_TEST_ASSERT_EMPTY m p line message"

definition TEST_ASSERT_NOT_EMPTY ::
  "memory \<Rightarrow> ptr \<Rightarrow> u64 \<Rightarrow> unity \<Rightarrow> flow option" where
  "TEST_ASSERT_NOT_EMPTY m p line = UNITY_TEST_ASSERT_NOT_EMPTY m p line (Some (str '' Expected Non-Empty''))"

definition TEST_ASSERT_NOT_EMPTY_MESSAGE ::
  "memory \<Rightarrow> ptr \<Rightarrow> cstring \<Rightarrow> u64 \<Rightarrow> unity \<Rightarrow> flow option" where
  "TEST_ASSERT_NOT_EMPTY_MESSAGE m p message line = UNITY_TEST_ASSERT_NOT_EMPTY m p line message"

text \<open>
  The type in the name of a macro: one with a style of its own, \<open>size_t\<close>, the hexadecimal numbers
  without a width, or none. (Not every macro exists for each of them.)
\<close>

datatype int_type = Sized UNITY_DISPLAY_STYLE_T | Type_size_t | Type_HEX | No_type

fun style_of :: "int_type \<Rightarrow> UNITY_DISPLAY_STYLE_T" where
  "style_of (Sized style) = style"
| "style_of Type_size_t = UNITY_DISPLAY_STYLE_UINT"
| "style_of Type_HEX = UNITY_DISPLAY_STYLE_HEX32"
| "style_of No_type = UNITY_DISPLAY_STYLE_INT"

definition TEST_ASSERT_EQUAL ::
  "int_type \<Rightarrow> u64 \<Rightarrow> u64 \<Rightarrow> u64 \<Rightarrow> unity \<Rightarrow> flow" where
  "TEST_ASSERT_EQUAL t expected actual line = UNITY_TEST_ASSERT_EQUAL (style_of t) expected actual line None"

definition TEST_ASSERT_EQUAL_MESSAGE ::
  "int_type \<Rightarrow> u64 \<Rightarrow> u64 \<Rightarrow> cstring \<Rightarrow> u64 \<Rightarrow> unity \<Rightarrow> flow" where
  "TEST_ASSERT_EQUAL_MESSAGE t expected actual message line = UNITY_TEST_ASSERT_EQUAL (style_of t) expected actual line message"

definition TEST_ASSERT_BITS ::
  "u64 \<Rightarrow> u64 \<Rightarrow> u64 \<Rightarrow> u64 \<Rightarrow> unity \<Rightarrow> flow" where
  "TEST_ASSERT_BITS msk expected actual line = UNITY_TEST_ASSERT_BITS msk expected actual line None"

definition TEST_ASSERT_BITS_MESSAGE ::
  "u64 \<Rightarrow> u64 \<Rightarrow> u64 \<Rightarrow> cstring \<Rightarrow> u64 \<Rightarrow> unity \<Rightarrow> flow" where
  "TEST_ASSERT_BITS_MESSAGE msk expected actual message line = UNITY_TEST_ASSERT_BITS msk expected actual line message"

text \<open>All bits are the 32 bits of \<open>(UNITY_UINT32)(-1)\<close>; a shift by 32 or more has no value.\<close>

definition TEST_ASSERT_BITS_HIGH ::
  "u64 \<Rightarrow> u64 \<Rightarrow> u64 \<Rightarrow> unity \<Rightarrow> flow" where
  "TEST_ASSERT_BITS_HIGH msk actual line = UNITY_TEST_ASSERT_BITS msk 0xFFFFFFFF actual line None"

definition TEST_ASSERT_BITS_HIGH_MESSAGE ::
  "u64 \<Rightarrow> u64 \<Rightarrow> cstring \<Rightarrow> u64 \<Rightarrow> unity \<Rightarrow> flow" where
  "TEST_ASSERT_BITS_HIGH_MESSAGE msk actual message line = UNITY_TEST_ASSERT_BITS msk 0xFFFFFFFF actual line message"

definition TEST_ASSERT_BITS_LOW ::
  "u64 \<Rightarrow> u64 \<Rightarrow> u64 \<Rightarrow> unity \<Rightarrow> flow" where
  "TEST_ASSERT_BITS_LOW msk actual line = UNITY_TEST_ASSERT_BITS msk 0 actual line None"

definition TEST_ASSERT_BITS_LOW_MESSAGE ::
  "u64 \<Rightarrow> u64 \<Rightarrow> cstring \<Rightarrow> u64 \<Rightarrow> unity \<Rightarrow> flow" where
  "TEST_ASSERT_BITS_LOW_MESSAGE msk actual message line = UNITY_TEST_ASSERT_BITS msk 0 actual line message"

definition TEST_ASSERT_BIT_HIGH ::
  "nat \<Rightarrow> u64 \<Rightarrow> u64 \<Rightarrow> unity \<Rightarrow> flow option" where
  "TEST_ASSERT_BIT_HIGH n actual line u =
     (if n < 32 then Some (UNITY_TEST_ASSERT_BITS (push_bit n 1) 0xFFFFFFFF actual line None u) else None)"

definition TEST_ASSERT_BIT_HIGH_MESSAGE ::
  "nat \<Rightarrow> u64 \<Rightarrow> cstring \<Rightarrow> u64 \<Rightarrow> unity \<Rightarrow> flow option" where
  "TEST_ASSERT_BIT_HIGH_MESSAGE n actual message line u =
     (if n < 32 then Some (UNITY_TEST_ASSERT_BITS (push_bit n 1) 0xFFFFFFFF actual line message u) else None)"

definition TEST_ASSERT_BIT_LOW ::
  "nat \<Rightarrow> u64 \<Rightarrow> u64 \<Rightarrow> unity \<Rightarrow> flow option" where
  "TEST_ASSERT_BIT_LOW n actual line u =
     (if n < 32 then Some (UNITY_TEST_ASSERT_BITS (push_bit n 1) 0 actual line None u) else None)"

definition TEST_ASSERT_BIT_LOW_MESSAGE ::
  "nat \<Rightarrow> u64 \<Rightarrow> cstring \<Rightarrow> u64 \<Rightarrow> unity \<Rightarrow> flow option" where
  "TEST_ASSERT_BIT_LOW_MESSAGE n actual message line u =
     (if n < 32 then Some (UNITY_TEST_ASSERT_BITS (push_bit n 1) 0 actual line message u) else None)"

definition TEST_ASSERT_NOT_EQUAL ::
  "int_type \<Rightarrow> u64 \<Rightarrow> u64 \<Rightarrow> u64 \<Rightarrow> unity \<Rightarrow> flow" where
  "TEST_ASSERT_NOT_EQUAL t threshold actual line = UNITY_TEST_ASSERT_NOT_EQUAL (style_of t) threshold actual line None"

definition TEST_ASSERT_NOT_EQUAL_MESSAGE ::
  "int_type \<Rightarrow> u64 \<Rightarrow> u64 \<Rightarrow> cstring \<Rightarrow> u64 \<Rightarrow> unity \<Rightarrow> flow" where
  "TEST_ASSERT_NOT_EQUAL_MESSAGE t threshold actual message line = UNITY_TEST_ASSERT_NOT_EQUAL (style_of t) threshold actual line message"

definition TEST_ASSERT_GREATER_THAN ::
  "int_type \<Rightarrow> u64 \<Rightarrow> u64 \<Rightarrow> u64 \<Rightarrow> unity \<Rightarrow> flow" where
  "TEST_ASSERT_GREATER_THAN t threshold actual line = UNITY_TEST_ASSERT_GREATER_THAN (style_of t) threshold actual line None"

definition TEST_ASSERT_GREATER_THAN_MESSAGE ::
  "int_type \<Rightarrow> u64 \<Rightarrow> u64 \<Rightarrow> cstring \<Rightarrow> u64 \<Rightarrow> unity \<Rightarrow> flow" where
  "TEST_ASSERT_GREATER_THAN_MESSAGE t threshold actual message line = UNITY_TEST_ASSERT_GREATER_THAN (style_of t) threshold actual line message"

definition TEST_ASSERT_LESS_THAN ::
  "int_type \<Rightarrow> u64 \<Rightarrow> u64 \<Rightarrow> u64 \<Rightarrow> unity \<Rightarrow> flow" where
  "TEST_ASSERT_LESS_THAN t threshold actual line = UNITY_TEST_ASSERT_SMALLER_THAN (style_of t) threshold actual line None"

definition TEST_ASSERT_LESS_THAN_MESSAGE ::
  "int_type \<Rightarrow> u64 \<Rightarrow> u64 \<Rightarrow> cstring \<Rightarrow> u64 \<Rightarrow> unity \<Rightarrow> flow" where
  "TEST_ASSERT_LESS_THAN_MESSAGE t threshold actual message line = UNITY_TEST_ASSERT_SMALLER_THAN (style_of t) threshold actual line message"

definition TEST_ASSERT_GREATER_OR_EQUAL ::
  "int_type \<Rightarrow> u64 \<Rightarrow> u64 \<Rightarrow> u64 \<Rightarrow> unity \<Rightarrow> flow" where
  "TEST_ASSERT_GREATER_OR_EQUAL t threshold actual line = UNITY_TEST_ASSERT_GREATER_OR_EQUAL (style_of t) threshold actual line None"

definition TEST_ASSERT_GREATER_OR_EQUAL_MESSAGE ::
  "int_type \<Rightarrow> u64 \<Rightarrow> u64 \<Rightarrow> cstring \<Rightarrow> u64 \<Rightarrow> unity \<Rightarrow> flow" where
  "TEST_ASSERT_GREATER_OR_EQUAL_MESSAGE t threshold actual message line = UNITY_TEST_ASSERT_GREATER_OR_EQUAL (style_of t) threshold actual line message"

definition TEST_ASSERT_LESS_OR_EQUAL ::
  "int_type \<Rightarrow> u64 \<Rightarrow> u64 \<Rightarrow> u64 \<Rightarrow> unity \<Rightarrow> flow" where
  "TEST_ASSERT_LESS_OR_EQUAL t threshold actual line = UNITY_TEST_ASSERT_SMALLER_OR_EQUAL (style_of t) threshold actual line None"

definition TEST_ASSERT_LESS_OR_EQUAL_MESSAGE ::
  "int_type \<Rightarrow> u64 \<Rightarrow> u64 \<Rightarrow> cstring \<Rightarrow> u64 \<Rightarrow> unity \<Rightarrow> flow" where
  "TEST_ASSERT_LESS_OR_EQUAL_MESSAGE t threshold actual message line = UNITY_TEST_ASSERT_SMALLER_OR_EQUAL (style_of t) threshold actual line message"

definition TEST_ASSERT_WITHIN ::
  "int_type \<Rightarrow> u64 \<Rightarrow> u64 \<Rightarrow> u64 \<Rightarrow> u64 \<Rightarrow> unity \<Rightarrow> flow" where
  "TEST_ASSERT_WITHIN t delta expected actual line = UNITY_TEST_ASSERT_WITHIN (style_of t) delta expected actual line None"

definition TEST_ASSERT_WITHIN_MESSAGE ::
  "int_type \<Rightarrow> u64 \<Rightarrow> u64 \<Rightarrow> u64 \<Rightarrow> cstring \<Rightarrow> u64 \<Rightarrow> unity \<Rightarrow> flow" where
  "TEST_ASSERT_WITHIN_MESSAGE t delta expected actual message line = UNITY_TEST_ASSERT_WITHIN (style_of t) delta expected actual line message"

definition TEST_ASSERT_ARRAY_WITHIN ::
  "memory \<Rightarrow> int_type \<Rightarrow> u64 \<Rightarrow> ptr \<Rightarrow> ptr \<Rightarrow> u32 \<Rightarrow> u64 \<Rightarrow> unity \<Rightarrow> flow option" where
  "TEST_ASSERT_ARRAY_WITHIN m t delta expected actual num_elements line = UNITY_TEST_ASSERT_ARRAY_WITHIN m (style_of t) delta expected actual num_elements line None"

definition TEST_ASSERT_ARRAY_WITHIN_MESSAGE ::
  "memory \<Rightarrow> int_type \<Rightarrow> u64 \<Rightarrow> ptr \<Rightarrow> ptr \<Rightarrow> u32 \<Rightarrow> cstring \<Rightarrow> u64 \<Rightarrow> unity \<Rightarrow> flow option" where
  "TEST_ASSERT_ARRAY_WITHIN_MESSAGE m t delta expected actual num_elements message line = UNITY_TEST_ASSERT_ARRAY_WITHIN m (style_of t) delta expected actual num_elements line message"

definition TEST_ASSERT_EQUAL_PTR ::
  "u64 \<Rightarrow> u64 \<Rightarrow> u64 \<Rightarrow> unity \<Rightarrow> flow" where
  "TEST_ASSERT_EQUAL_PTR expected actual line = UNITY_TEST_ASSERT_EQUAL_PTR expected actual line None"

definition TEST_ASSERT_EQUAL_PTR_MESSAGE ::
  "u64 \<Rightarrow> u64 \<Rightarrow> cstring \<Rightarrow> u64 \<Rightarrow> unity \<Rightarrow> flow" where
  "TEST_ASSERT_EQUAL_PTR_MESSAGE expected actual message line = UNITY_TEST_ASSERT_EQUAL_PTR expected actual line message"

definition TEST_ASSERT_EQUAL_STRING ::
  "cstring \<Rightarrow> cstring \<Rightarrow> u64 \<Rightarrow> unity \<Rightarrow> flow" where
  "TEST_ASSERT_EQUAL_STRING expected actual line = UNITY_TEST_ASSERT_EQUAL_STRING expected actual line None"

definition TEST_ASSERT_EQUAL_STRING_MESSAGE ::
  "cstring \<Rightarrow> cstring \<Rightarrow> cstring \<Rightarrow> u64 \<Rightarrow> unity \<Rightarrow> flow" where
  "TEST_ASSERT_EQUAL_STRING_MESSAGE expected actual message line = UNITY_TEST_ASSERT_EQUAL_STRING expected actual line message"

definition TEST_ASSERT_EQUAL_STRING_LEN ::
  "cstring \<Rightarrow> cstring \<Rightarrow> u32 \<Rightarrow> u64 \<Rightarrow> unity \<Rightarrow> flow option" where
  "TEST_ASSERT_EQUAL_STRING_LEN expected actual len line = UNITY_TEST_ASSERT_EQUAL_STRING_LEN expected actual len line None"

definition TEST_ASSERT_EQUAL_STRING_LEN_MESSAGE ::
  "cstring \<Rightarrow> cstring \<Rightarrow> u32 \<Rightarrow> cstring \<Rightarrow> u64 \<Rightarrow> unity \<Rightarrow> flow option" where
  "TEST_ASSERT_EQUAL_STRING_LEN_MESSAGE expected actual len message line = UNITY_TEST_ASSERT_EQUAL_STRING_LEN expected actual len line message"

definition TEST_ASSERT_EQUAL_MEMORY ::
  "memory \<Rightarrow> ptr \<Rightarrow> ptr \<Rightarrow> u32 \<Rightarrow> u64 \<Rightarrow> unity \<Rightarrow> flow option" where
  "TEST_ASSERT_EQUAL_MEMORY m expected actual len line = UNITY_TEST_ASSERT_EQUAL_MEMORY m expected actual len line None"

definition TEST_ASSERT_EQUAL_MEMORY_MESSAGE ::
  "memory \<Rightarrow> ptr \<Rightarrow> ptr \<Rightarrow> u32 \<Rightarrow> cstring \<Rightarrow> u64 \<Rightarrow> unity \<Rightarrow> flow option" where
  "TEST_ASSERT_EQUAL_MEMORY_MESSAGE m expected actual len message line = UNITY_TEST_ASSERT_EQUAL_MEMORY m expected actual len line message"

definition TEST_ASSERT_EQUAL_ARRAY ::
  "memory \<Rightarrow> int_type \<Rightarrow> ptr \<Rightarrow> ptr \<Rightarrow> u32 \<Rightarrow> u64 \<Rightarrow> unity \<Rightarrow> flow option" where
  "TEST_ASSERT_EQUAL_ARRAY m t expected actual num_elements line = UNITY_TEST_ASSERT_EQUAL_ARRAY m (style_of t) expected actual num_elements line None"

definition TEST_ASSERT_EQUAL_ARRAY_MESSAGE ::
  "memory \<Rightarrow> int_type \<Rightarrow> ptr \<Rightarrow> ptr \<Rightarrow> u32 \<Rightarrow> cstring \<Rightarrow> u64 \<Rightarrow> unity \<Rightarrow> flow option" where
  "TEST_ASSERT_EQUAL_ARRAY_MESSAGE m t expected actual num_elements message line = UNITY_TEST_ASSERT_EQUAL_ARRAY m (style_of t) expected actual num_elements line message"

definition TEST_ASSERT_EQUAL_PTR_ARRAY ::
  "memory \<Rightarrow> ptr \<Rightarrow> ptr \<Rightarrow> u32 \<Rightarrow> u64 \<Rightarrow> unity \<Rightarrow> flow option" where
  "TEST_ASSERT_EQUAL_PTR_ARRAY m expected actual num_elements line = UNITY_TEST_ASSERT_EQUAL_PTR_ARRAY m expected actual num_elements line None"

definition TEST_ASSERT_EQUAL_PTR_ARRAY_MESSAGE ::
  "memory \<Rightarrow> ptr \<Rightarrow> ptr \<Rightarrow> u32 \<Rightarrow> cstring \<Rightarrow> u64 \<Rightarrow> unity \<Rightarrow> flow option" where
  "TEST_ASSERT_EQUAL_PTR_ARRAY_MESSAGE m expected actual num_elements message line = UNITY_TEST_ASSERT_EQUAL_PTR_ARRAY m expected actual num_elements line message"

definition TEST_ASSERT_EQUAL_STRING_ARRAY ::
  "memory \<Rightarrow> ptr \<Rightarrow> ptr \<Rightarrow> u32 \<Rightarrow> u64 \<Rightarrow> unity \<Rightarrow> flow option" where
  "TEST_ASSERT_EQUAL_STRING_ARRAY m expected actual num_elements line = UNITY_TEST_ASSERT_EQUAL_STRING_ARRAY m expected actual num_elements line None"

definition TEST_ASSERT_EQUAL_STRING_ARRAY_MESSAGE ::
  "memory \<Rightarrow> ptr \<Rightarrow> ptr \<Rightarrow> u32 \<Rightarrow> cstring \<Rightarrow> u64 \<Rightarrow> unity \<Rightarrow> flow option" where
  "TEST_ASSERT_EQUAL_STRING_ARRAY_MESSAGE m expected actual num_elements message line = UNITY_TEST_ASSERT_EQUAL_STRING_ARRAY m expected actual num_elements line message"

definition TEST_ASSERT_EQUAL_MEMORY_ARRAY ::
  "memory \<Rightarrow> ptr \<Rightarrow> ptr \<Rightarrow> u32 \<Rightarrow> u32 \<Rightarrow> u64 \<Rightarrow> unity \<Rightarrow> flow option" where
  "TEST_ASSERT_EQUAL_MEMORY_ARRAY m expected actual len num_elements line = UNITY_TEST_ASSERT_EQUAL_MEMORY_ARRAY m expected actual len num_elements line None"

definition TEST_ASSERT_EQUAL_MEMORY_ARRAY_MESSAGE ::
  "memory \<Rightarrow> ptr \<Rightarrow> ptr \<Rightarrow> u32 \<Rightarrow> u32 \<Rightarrow> cstring \<Rightarrow> u64 \<Rightarrow> unity \<Rightarrow> flow option" where
  "TEST_ASSERT_EQUAL_MEMORY_ARRAY_MESSAGE m expected actual len num_elements message line = UNITY_TEST_ASSERT_EQUAL_MEMORY_ARRAY m expected actual len num_elements line message"

definition TEST_ASSERT_EACH_EQUAL ::
  "memory \<Rightarrow> int_type \<Rightarrow> u64 \<Rightarrow> ptr \<Rightarrow> u32 \<Rightarrow> u64 \<Rightarrow> unity \<Rightarrow> flow option" where
  "TEST_ASSERT_EACH_EQUAL m t expected actual num_elements line = UNITY_TEST_ASSERT_EACH_EQUAL m (style_of t) expected actual num_elements line None"

definition TEST_ASSERT_EACH_EQUAL_MESSAGE ::
  "memory \<Rightarrow> int_type \<Rightarrow> u64 \<Rightarrow> ptr \<Rightarrow> u32 \<Rightarrow> cstring \<Rightarrow> u64 \<Rightarrow> unity \<Rightarrow> flow option" where
  "TEST_ASSERT_EACH_EQUAL_MESSAGE m t expected actual num_elements message line = UNITY_TEST_ASSERT_EACH_EQUAL m (style_of t) expected actual num_elements line message"

definition TEST_ASSERT_EACH_EQUAL_PTR ::
  "memory \<Rightarrow> u64 \<Rightarrow> ptr \<Rightarrow> u32 \<Rightarrow> u64 \<Rightarrow> unity \<Rightarrow> flow option" where
  "TEST_ASSERT_EACH_EQUAL_PTR m expected actual num_elements line = UNITY_TEST_ASSERT_EACH_EQUAL_PTR m expected actual num_elements line None"

definition TEST_ASSERT_EACH_EQUAL_PTR_MESSAGE ::
  "memory \<Rightarrow> u64 \<Rightarrow> ptr \<Rightarrow> u32 \<Rightarrow> cstring \<Rightarrow> u64 \<Rightarrow> unity \<Rightarrow> flow option" where
  "TEST_ASSERT_EACH_EQUAL_PTR_MESSAGE m expected actual num_elements message line = UNITY_TEST_ASSERT_EACH_EQUAL_PTR m expected actual num_elements line message"

definition TEST_ASSERT_EACH_EQUAL_STRING ::
  "memory \<Rightarrow> ptr \<Rightarrow> ptr \<Rightarrow> u32 \<Rightarrow> u64 \<Rightarrow> unity \<Rightarrow> flow option" where
  "TEST_ASSERT_EACH_EQUAL_STRING m expected actual num_elements line = UNITY_TEST_ASSERT_EACH_EQUAL_STRING m expected actual num_elements line None"

definition TEST_ASSERT_EACH_EQUAL_STRING_MESSAGE ::
  "memory \<Rightarrow> ptr \<Rightarrow> ptr \<Rightarrow> u32 \<Rightarrow> cstring \<Rightarrow> u64 \<Rightarrow> unity \<Rightarrow> flow option" where
  "TEST_ASSERT_EACH_EQUAL_STRING_MESSAGE m expected actual num_elements message line = UNITY_TEST_ASSERT_EACH_EQUAL_STRING m expected actual num_elements line message"

definition TEST_ASSERT_EACH_EQUAL_MEMORY ::
  "memory \<Rightarrow> ptr \<Rightarrow> ptr \<Rightarrow> u32 \<Rightarrow> u32 \<Rightarrow> u64 \<Rightarrow> unity \<Rightarrow> flow option" where
  "TEST_ASSERT_EACH_EQUAL_MEMORY m expected actual len num_elements line = UNITY_TEST_ASSERT_EACH_EQUAL_MEMORY m expected actual len num_elements line None"

definition TEST_ASSERT_EACH_EQUAL_MEMORY_MESSAGE ::
  "memory \<Rightarrow> ptr \<Rightarrow> ptr \<Rightarrow> u32 \<Rightarrow> u32 \<Rightarrow> cstring \<Rightarrow> u64 \<Rightarrow> unity \<Rightarrow> flow option" where
  "TEST_ASSERT_EACH_EQUAL_MEMORY_MESSAGE m expected actual len num_elements message line = UNITY_TEST_ASSERT_EACH_EQUAL_MEMORY m expected actual len num_elements line message"

subsection \<open>The shorthands of \<open>unity.h\<close>\<close>

text \<open>The untyped macros \<open>TEST_ASSERT_EQUAL\<close> and \<open>TEST_ASSERT_NOT_EQUAL\<close>, by the build option that gives them
  their meaning (\<open>AS_OLD\<close> if there is none). The operands are two variables of one integer type: their values,
  their addresses and their size.\<close>

datatype shorthand = UNITY_SHORTHAND_AS_OLD | UNITY_SHORTHAND_AS_INT | UNITY_SHORTHAND_AS_MEM
  | UNITY_SHORTHAND_AS_RAW | UNITY_SHORTHAND_AS_NONE

definition UnityStrErrShorthand :: "byte list" where
  "UnityStrErrShorthand = str ''Unity Shorthand Support Disabled''"

definition TEST_ASSERT_EQUAL_untyped ::
  "shorthand \<Rightarrow> memory \<Rightarrow> u32 \<Rightarrow> u64 \<times> ptr \<Rightarrow> u64 \<times> ptr \<Rightarrow> u64 \<Rightarrow> unity \<Rightarrow> flow option" where
  "TEST_ASSERT_EQUAL_untyped build m len expected actual line u =
     (case build of
        UNITY_SHORTHAND_AS_OLD \<Rightarrow>
          Some (UNITY_TEST_ASSERT_EQUAL UNITY_DISPLAY_STYLE_INT (fst expected) (fst actual) line None u)
      | UNITY_SHORTHAND_AS_INT \<Rightarrow>
          Some (UNITY_TEST_ASSERT_EQUAL UNITY_DISPLAY_STYLE_INT (fst expected) (fst actual) line None u)
      | UNITY_SHORTHAND_AS_MEM \<Rightarrow>
          UNITY_TEST_ASSERT_EQUAL_MEMORY m (snd expected) (snd actual) len line None u
      | UNITY_SHORTHAND_AS_RAW \<Rightarrow>
          Some (UNITY_TEST_ASSERT (fst expected = fst actual) line (Some (str '' Expected Equal'')) u)
      | UNITY_SHORTHAND_AS_NONE \<Rightarrow> Some (UnityFail (Some UnityStrErrShorthand) line u))"

definition TEST_ASSERT_EQUAL_MESSAGE_untyped ::
  "shorthand \<Rightarrow> memory \<Rightarrow> u32 \<Rightarrow> u64 \<times> ptr \<Rightarrow> u64 \<times> ptr \<Rightarrow> cstring \<Rightarrow> u64 \<Rightarrow> unity \<Rightarrow> flow option" where
  "TEST_ASSERT_EQUAL_MESSAGE_untyped build m len expected actual message line u =
     (case build of
        UNITY_SHORTHAND_AS_OLD \<Rightarrow>
          Some (UNITY_TEST_ASSERT_EQUAL UNITY_DISPLAY_STYLE_INT (fst expected) (fst actual) line message u)
      | UNITY_SHORTHAND_AS_INT \<Rightarrow>
          Some (UNITY_TEST_ASSERT_EQUAL UNITY_DISPLAY_STYLE_INT (fst expected) (fst actual) line message u)
      | UNITY_SHORTHAND_AS_MEM \<Rightarrow>
          UNITY_TEST_ASSERT_EQUAL_MEMORY m (snd expected) (snd actual) len line message u
      | UNITY_SHORTHAND_AS_RAW \<Rightarrow>
          Some (UNITY_TEST_ASSERT (fst expected = fst actual) line message u)
      | UNITY_SHORTHAND_AS_NONE \<Rightarrow> Some (UnityFail (Some UnityStrErrShorthand) line u))"

definition TEST_ASSERT_NOT_EQUAL_untyped :: "shorthand \<Rightarrow> u64 \<Rightarrow> u64 \<Rightarrow> u64 \<Rightarrow> unity \<Rightarrow> flow" where
  "TEST_ASSERT_NOT_EQUAL_untyped build expected actual line u =
     (case build of
        UNITY_SHORTHAND_AS_OLD \<Rightarrow> UNITY_TEST_ASSERT (expected \<noteq> actual) line (Some (str '' Expected Not-Equal'')) u
      | UNITY_SHORTHAND_AS_RAW \<Rightarrow> UNITY_TEST_ASSERT (expected \<noteq> actual) line (Some (str '' Expected Not-Equal'')) u
      | _ \<Rightarrow> UnityFail (Some UnityStrErrShorthand) line u)"

definition TEST_ASSERT_NOT_EQUAL_MESSAGE_untyped ::
  "shorthand \<Rightarrow> u64 \<Rightarrow> u64 \<Rightarrow> cstring \<Rightarrow> u64 \<Rightarrow> unity \<Rightarrow> flow" where
  "TEST_ASSERT_NOT_EQUAL_MESSAGE_untyped build expected actual message line u =
     (case build of
        UNITY_SHORTHAND_AS_OLD \<Rightarrow> UNITY_TEST_ASSERT (expected \<noteq> actual) line message u
      | UNITY_SHORTHAND_AS_RAW \<Rightarrow> UNITY_TEST_ASSERT (expected \<noteq> actual) line message u
      | _ \<Rightarrow> UnityFail (Some UnityStrErrShorthand) line u)"

subsection \<open>The values that the macros compare\<close>

text \<open>The low bits of a number, read as the type says.\<close>

fun typed_value :: "UNITY_DISPLAY_STYLE_T \<Rightarrow> u64 \<Rightarrow> int" where
  "typed_value UNITY_DISPLAY_STYLE_INT v = sint v"
| "typed_value UNITY_DISPLAY_STYLE_INT8 v = sint (ucast v :: 8 word)"
| "typed_value UNITY_DISPLAY_STYLE_INT16 v = sint (ucast v :: 16 word)"
| "typed_value UNITY_DISPLAY_STYLE_INT32 v = sint (ucast v :: 32 word)"
| "typed_value UNITY_DISPLAY_STYLE_INT64 v = sint v"
| "typed_value UNITY_DISPLAY_STYLE_UINT v = uint v"
| "typed_value UNITY_DISPLAY_STYLE_UINT8 v = uint (ucast v :: 8 word)"
| "typed_value UNITY_DISPLAY_STYLE_UINT16 v = uint (ucast v :: 16 word)"
| "typed_value UNITY_DISPLAY_STYLE_UINT32 v = uint (ucast v :: 32 word)"
| "typed_value UNITY_DISPLAY_STYLE_UINT64 v = uint v"
| "typed_value UNITY_DISPLAY_STYLE_HEX8 v = uint (ucast v :: 8 word)"
| "typed_value UNITY_DISPLAY_STYLE_HEX16 v = uint (ucast v :: 16 word)"
| "typed_value UNITY_DISPLAY_STYLE_HEX32 v = uint (ucast v :: 32 word)"
| "typed_value UNITY_DISPLAY_STYLE_HEX64 v = uint v"
| "typed_value UNITY_DISPLAY_STYLE_CHAR v = sint (ucast v :: 8 word)"

lemma sint_scast: "LENGTH('a) < 64 \<Longrightarrow> sint (scast (w :: 'a::len word) :: u64) = sint w"
  by transfer (simp add: signed_take_bit_signed_take_bit min_def)

lemma sint_eq_iff: "sint v = sint w \<longleftrightarrow> v = w" for v w :: "'a::len word"
  by (metis signed_word_eqI)

lemma uint_ucast: "LENGTH('a) < 64 \<Longrightarrow> uint (ucast (w :: 'a::len word) :: u64) = uint w"
  by transfer (simp add: take_bit_take_bit min_def)

lemmas cast_defs = cast_INT8_def cast_INT16_def cast_INT32_def cast_UINT8_def cast_UINT16_def cast_UINT32_def

lemma int_range_styles: "int_range s \<longleftrightarrow> s \<in> {UNITY_DISPLAY_STYLE_INT, UNITY_DISPLAY_STYLE_INT8, UNITY_DISPLAY_STYLE_INT16,
   UNITY_DISPLAY_STYLE_INT32, UNITY_DISPLAY_STYLE_INT64, UNITY_DISPLAY_STYLE_CHAR}"
  by (cases s) (simp_all add: int_range_def)

lemma order_cast_value: "number_value s (order_cast s v) = typed_value s v"
  by (cases s) (simp_all add: number_value_def int_range_styles cast_defs sint_scast uint_ucast)

lemma scast_eq_iff: "LENGTH('a) < 64 \<Longrightarrow> (scast (v :: 'a::len word) :: u64) = scast w \<longleftrightarrow> v = w"
  by (metis sint_scast signed_word_eqI)

lemma ucast_eq_iff: "LENGTH('a) < 64 \<Longrightarrow> (ucast (v :: 'a::len word) :: u64) = ucast w \<longleftrightarrow> v = w"
  by (metis uint_ucast word_uint_eqI)

lemma equal_cast_value: "equal_cast s v = equal_cast s w \<longleftrightarrow> typed_value s v = typed_value s w"
  by (cases s) (simp_all add: cast_defs scast_eq_iff ucast_eq_iff sint_eq_iff word_uint_eq_iff[symmetric])

text \<open>An assertion on the running test \<open>u\<close> that passes without effect exactly if the condition holds.\<close>

definition decides :: "bool \<Rightarrow> unity \<Rightarrow> flow \<Rightarrow> bool" where
  "decides ok u r \<longleftrightarrow> (if ok then r = Inr u else \<exists>text. r = Inl (marked u text))"

lemma assertion_decides: "\<not> bailed u \<Longrightarrow> ok = ok' \<Longrightarrow> decides ok u (assertion ok' report u)"
  by (auto simp: decides_def assertion_def marked_def)

subsection \<open>Arrays of bytes\<close>

text \<open>The elements of an array.\<close>

definition elements :: "nat \<Rightarrow> nat \<Rightarrow> byte list \<Rightarrow> u64 list" where
  "elements width n bs =
     map (\<lambda>i. signed_take_bit (8 * width - 1) (of_nat (le_value (take width (drop (i * width) bs))))) [0..<n]"

lemma reads_elements:
  assumes "load_bytes m p (width * n) = Some bs"
  shows "reads m width True p (elements width n bs)"
  using assms
proof (induction n arbitrary: p bs)
  case 0
  then show ?case by (simp add: elements_def)
next
  case (Suc n)
  have "width * Suc n = width + width * n" by simp
  then obtain x xs where x: "load_bytes m p width = Some x" "load_bytes m (advance p width) (width * n) = Some xs"
      "bs = x @ xs"
    using Suc.prems by (auto simp: load_bytes_split)
  have len: "length x = width" using x(1) by (rule load_bytes_length)
  have "elements width (Suc n) bs = signed_take_bit (8 * width - 1) (of_nat (le_value x)) # elements width n xs"
    using len x(3)
    by (simp only: elements_def upt_conv_Cons zero_less_Suc map_Suc_upt[symmetric] list.map map_map) (simp add: o_def)
  moreover have "load_int m width p = Some (signed_take_bit (8 * width - 1) (of_nat (le_value x)))"
    using x(1) by (simp add: load_int_def)
  ultimately show ?case using Suc.IH[OF x(2)] by simp
qed

subsection \<open>Properties\<close>

text \<open>Property C13: the macros for single integers compare the values of their type: equality, the order and
  the distance are those of the low bits of the arguments, read as signed or unsigned as the
  name of the macro says; otherwise they mark the test and leave it.\<close>

theorem typed_assertions_are_exact:
  assumes "\<not> bailed u"
  shows "decides (typed_value (style_of t) a = typed_value (style_of t) e) u (TEST_ASSERT_EQUAL t e a line u)
    \<and> decides (typed_value (style_of t) a \<noteq> typed_value (style_of t) e) u (TEST_ASSERT_NOT_EQUAL t e a line u)
    \<and> decides (typed_value (style_of t) a > typed_value (style_of t) e) u (TEST_ASSERT_GREATER_THAN t e a line u)
    \<and> decides (typed_value (style_of t) a < typed_value (style_of t) e) u (TEST_ASSERT_LESS_THAN t e a line u)
    \<and> decides (typed_value (style_of t) a \<ge> typed_value (style_of t) e) u (TEST_ASSERT_GREATER_OR_EQUAL t e a line u)
    \<and> decides (typed_value (style_of t) a \<le> typed_value (style_of t) e) u (TEST_ASSERT_LESS_OR_EQUAL t e a line u)
    \<and> decides (\<bar>typed_value (style_of t) e - typed_value (style_of t) a\<bar> \<le> uint (delta_cast (style_of t) d)) u
        (TEST_ASSERT_WITHIN t d e a line u)"
  unfolding TEST_ASSERT_EQUAL_def TEST_ASSERT_NOT_EQUAL_def TEST_ASSERT_GREATER_THAN_def TEST_ASSERT_LESS_THAN_def
    TEST_ASSERT_GREATER_OR_EQUAL_def TEST_ASSERT_LESS_OR_EQUAL_def TEST_ASSERT_WITHIN_def
    UNITY_TEST_ASSERT_EQUAL_def UNITY_TEST_ASSERT_NOT_EQUAL_def UNITY_TEST_ASSERT_GREATER_THAN_def
    UNITY_TEST_ASSERT_SMALLER_THAN_def UNITY_TEST_ASSERT_GREATER_OR_EQUAL_def UNITY_TEST_ASSERT_SMALLER_OR_EQUAL_def
    UNITY_TEST_ASSERT_WITHIN_def assert_equal_number assert_compare assert_within
  by (intro conjI assertion_decides[OF assms]) (auto simp: equal_cast_value order_cast_value)

text \<open>As bytes, 200 is less than 100, unlike as unsigned bytes.\<close>

theorem typed_assertions_are_exact_witness:
  "TEST_ASSERT_LESS_THAN (Sized UNITY_DISPLAY_STYLE_INT8) 100 200 7 sample_unity = Inr sample_unity
   \<and> TEST_ASSERT_GREATER_THAN (Sized UNITY_DISPLAY_STYLE_UINT8) 100 200 7 sample_unity = Inr sample_unity"
  using typed_assertions_are_exact[OF sample_unity_runs, of "Sized UNITY_DISPLAY_STYLE_INT8" 200 100 7]
    typed_assertions_are_exact[OF sample_unity_runs, of "Sized UNITY_DISPLAY_STYLE_UINT8" 200 100 7]
  by (simp add: decides_def)

text \<open>The assertion on arrays of \<open>size_t\<close> compares elements of four bytes, on a machine
  where \<open>size_t\<close> has eight: of two arrays of \<open>n\<close> elements it reads the first \<open>4 * n\<close> bytes, and it
  passes whenever these agree, whatever the second halves contain.\<close>

theorem size_t_arrays_compare_half:
  assumes "\<not> bailed u" "expected \<noteq> actual" "expected \<noteq> Null" "actual \<noteq> Null" "n \<noteq> 0"
    and "load_bytes m expected (8 * unat n) = Some es" "load_bytes m actual (8 * unat n) = Some as"
    and "take (4 * unat n) es = take (4 * unat n) as"
  shows "TEST_ASSERT_EQUAL_ARRAY m Type_size_t expected actual n line u = Some (Inr u)"
proof -
  have prefix: "load_bytes m p (4 * unat n) = Some (take (4 * unat n) bs)" if run: "load_bytes m p (8 * unat n) = Some bs" for p bs
  proof -
    have "8 * unat n = 4 * unat n + 4 * unat n" by simp
    then obtain x xs where "load_bytes m p (4 * unat n) = Some x" "bs = x @ xs"
      using run[unfolded \<open>8 * unat n = _\<close> load_bytes_split] by blast
    then show ?thesis using load_bytes_length by fastforce
  qed
  let ?vs = "elements 4 (unat n) (take (4 * unat n) as)"
  have "reads m 4 True expected ?vs" "reads m 4 True actual ?vs"
    using reads_elements[OF prefix[OF assms(6)]] reads_elements[OF prefix[OF assms(7)]] assms(8) by simp_all
  moreover have "length ?vs = unat n" by (simp add: elements_def)
  ultimately have "array_operands m UNITY_DISPLAY_STYLE_UINT UNITY_ARRAY_TO_ARRAY expected actual n ?vs ?vs"
    using assms(2-5) by (simp add: array_operands_def element_width_def style_length_def)
  then show ?thesis
    by (simp add: TEST_ASSERT_EQUAL_ARRAY_def UNITY_TEST_ASSERT_EQUAL_ARRAY_def int_array_result[OF assms(1)])
qed

text \<open>The arrays \<open>{1, 2}\<close> and \<open>{1, 3}\<close> of \<open>size_t\<close>.\<close>

theorem size_t_arrays_compare_half_witness:
  "TEST_ASSERT_EQUAL_ARRAY
     [1 \<mapsto> Bytes [1, 0, 0, 0, 0, 0, 0, 0, 2, 0, 0, 0, 0, 0, 0, 0], 2 \<mapsto> Bytes [1, 0, 0, 0, 0, 0, 0, 0, 3, 0, 0, 0, 0, 0, 0, 0]]
     Type_size_t (Ptr 1 0) (Ptr 2 0) 2 7 sample_unity = Some (Inr sample_unity)"
  by (rule size_t_arrays_compare_half[of _ _ _ _ _ "[1, 0, 0, 0, 0, 0, 0, 0, 2, 0, 0, 0, 0, 0, 0, 0]"
      "[1, 0, 0, 0, 0, 0, 0, 0, 3, 0, 0, 0, 0, 0, 0, 0]"]) simp_all

text \<open>The untyped equality decides equality in every build that has it, if the variables are stored as their
  values say.\<close>

theorem untyped_equality_is_exact:
  assumes "\<not> bailed u" "build \<noteq> UNITY_SHORTHAND_AS_NONE" "len \<noteq> 0"
    and "p \<noteq> q" "p \<noteq> Null" "q \<noteq> Null" "load_bytes m p (unat len) = Some es" "load_bytes m q (unat len) = Some as"
    and "es = as \<longleftrightarrow> e = a"
  shows "\<exists>r. TEST_ASSERT_EQUAL_untyped build m len (e, p) (a, q) line u = Some r \<and> decides (e = a) u r"
proof -
  have fail: "decides False u (UnityFail msg line u)" for msg
    unfolding fail_always by (rule assertion_decides[OF assms(1)]) simp
  have "\<exists>r. UNITY_TEST_ASSERT_EQUAL_MEMORY m p q len line None u = Some r \<and> decides (e = a) u r"
  proof -
    obtain out where "memory_loop m p len 1 None line UNITY_ARRAY_TO_ARRAY (unat (1 :: u32)) p q u =
        Some (if es = as then Inr u else Inl (marked u (fail_report None line out u)))"
      using memory_loop_result[of m p 1 len es q as UNITY_ARRAY_TO_ARRAY p 1 None line u] assms(7,8) by auto
    then show ?thesis
      using assms by (auto simp: UNITY_TEST_ASSERT_EQUAL_MEMORY_def UnityAssertEqualMemory_def array_guards_run decides_def
          simp del: memory_loop.simps unsigned_1)
  qed
  moreover have "decides (e = a) u (UNITY_TEST_ASSERT_EQUAL UNITY_DISPLAY_STYLE_INT e a line None u)"
    unfolding UNITY_TEST_ASSERT_EQUAL_def assert_equal_number by (rule assertion_decides[OF assms(1)]) auto
  moreover have "decides (e = a) u (UNITY_TEST_ASSERT (e = a) line msg u)" for msg
    using fail[of msg] by (auto simp: UNITY_TEST_ASSERT_def decides_def)
  ultimately show ?thesis
    using assms(2) by (cases build) (simp_all add: TEST_ASSERT_EQUAL_untyped_def)
qed

theorem untyped_equality_is_exact_witness:
  "\<exists>r. TEST_ASSERT_EQUAL_untyped UNITY_SHORTHAND_AS_MEM [1 \<mapsto> Bytes [5], 2 \<mapsto> Bytes [6]] 1 (5, Ptr 1 0) (6, Ptr 2 0) 7
     sample_unity = Some r \<and> decides False sample_unity r"
  using untyped_equality_is_exact[OF sample_unity_runs, of UNITY_SHORTHAND_AS_MEM 1 "Ptr 1 0" "Ptr 2 0"
      "[1 \<mapsto> Bytes [5], 2 \<mapsto> Bytes [6]]" "[5]" "[6]" 5 6 7] by simp

text \<open>\<open>TEST_ASSERT_BITS_HIGH\<close> asks for 32 bits only: with all bits of the mask set in the number it
  passes exactly if the mask has no higher bits.\<close>

lemma bits_high_of_wide_masks:
  assumes "\<not> bailed u" "msk AND actual = msk"
  shows "decides (msk AND 0xFFFFFFFF = msk) u (TEST_ASSERT_BITS_HIGH msk actual line u)"
  unfolding TEST_ASSERT_BITS_HIGH_def UNITY_TEST_ASSERT_BITS_def assert_bits
  by (rule assertion_decides[OF assms(1)]) (simp add: assms(2))

text \<open>\<open>TEST_PASS\<close> leaves without a mark, which no assertion does, and the test counts as passed if
  nothing was marked before.\<close>

lemma test_pass_unmarked:
  assumes "\<not> bailed u"
  shows "TEST_PASS u = Inl u \<and> \<not> assertion_outcome u (TEST_PASS u)"
proof -
  have "u \<noteq> marked u s" for s
  proof
    assume "u = marked u s"
    from arg_cong[OF this, of CurrentTestFailed] show False using assms by (simp add: bailed_def marked_def)
  qed
  then show ?thesis using assms by (simp add: TEST_PASS_def)
qed

end
