(* ===== verification/Floating_Point.thy ===== *)
theory Floating_Point
  imports Complex_Main
begin

section \<open>The arithmetic of \<open>float\<close> and \<open>double\<close>\<close>

text \<open>
  What the framework uses of C's floating-point numbers, as IEEE 754 defines it: a finite number
  is the rational that it stands for, an operation delivers the exact result rounded to the
  nearest number of the type (to the even one of two), and every operation is done in the type of
  its operands. The sign of zero and the payload of a NaN are not kept: nothing that is modelled
  here depends on them.
\<close>

datatype ftype = C_float | C_double

text \<open>The bits of a significand, the exponent of the least normal number, and how many larger
  exponents there are.\<close>

fun precision :: "ftype \<Rightarrow> nat" where
  "precision C_float = 24"
| "precision C_double = 53"

fun min_exp :: "ftype \<Rightarrow> int" where
  "min_exp C_float = - 126"
| "min_exp C_double = - 1022"

fun binades :: "ftype \<Rightarrow> nat" where
  "binades C_float = 253"
| "binades C_double = 2045"

definition max_exp :: "ftype \<Rightarrow> int" where
  "max_exp F = min_exp F + int (binades F)"

datatype fp = NaN | Inf bool | Num rat

subsection \<open>Rounding\<close>

text \<open>The largest of the exponents \<open>lo\<close> to \<open>lo + k\<close> whose power of two does not exceed \<open>x\<close>, or \<open>lo\<close>.\<close>

fun top_exp :: "int \<Rightarrow> nat \<Rightarrow> rat \<Rightarrow> int" where
  "top_exp lo 0 x = lo"
| "top_exp lo (Suc k) x =
     (if 2 powi (lo + int (Suc k)) \<le> x then lo + int (Suc k) else top_exp lo k x)"

text \<open>The distance of neighbouring numbers around \<open>x\<close>.\<close>

definition ulp :: "ftype \<Rightarrow> rat \<Rightarrow> rat" where
  "ulp F x = 2 powi (top_exp (min_exp F) (binades F) x - int (precision F - 1))"

definition round_even :: "rat \<Rightarrow> int" where
  "round_even x =
     (let n = \<lfloor>x\<rfloor>; r = x - of_int n in
      if r < 1 / 2 \<or> r = 1 / 2 \<and> even n then n else n + 1)"

definition round_pos :: "ftype \<Rightarrow> rat \<Rightarrow> rat" where
  "round_pos F x = of_int (round_even (x / ulp F x)) * ulp F x"

definition round_to :: "ftype \<Rightarrow> rat \<Rightarrow> rat" where
  "round_to F x = (if x < 0 then - round_pos F (- x) else round_pos F x)"

definition fl :: "ftype \<Rightarrow> rat \<Rightarrow> fp" where
  "fl F x = (if \<bar>round_to F x\<bar> < 2 powi (max_exp F + 1) then Num (round_to F x) else Inf (x < 0))"

subsection \<open>Operations\<close>

fun isnan :: "fp \<Rightarrow> bool" where
  "isnan NaN = True"
| "isnan (Inf s) = False"
| "isnan (Num x) = False"

fun isinf :: "fp \<Rightarrow> bool" where
  "isinf NaN = False"
| "isinf (Inf s) = True"
| "isinf (Num x) = False"

fun fneg :: "fp \<Rightarrow> fp" where
  "fneg NaN = NaN"
| "fneg (Inf s) = Inf (\<not> s)"
| "fneg (Num x) = Num (- x)"

fun fadd :: "ftype \<Rightarrow> fp \<Rightarrow> fp \<Rightarrow> fp" where
  "fadd F (Num x) (Num y) = fl F (x + y)"
| "fadd F (Inf s) (Inf t) = (if s = t then Inf s else NaN)"
| "fadd F (Inf s) (Num y) = Inf s"
| "fadd F (Num x) (Inf t) = Inf t"
| "fadd F NaN b = NaN"
| "fadd F a NaN = NaN"

definition fsub :: "ftype \<Rightarrow> fp \<Rightarrow> fp \<Rightarrow> fp" where
  "fsub F a b = fadd F a (fneg b)"

fun fmul :: "ftype \<Rightarrow> fp \<Rightarrow> fp \<Rightarrow> fp" where
  "fmul F (Num x) (Num y) = fl F (x * y)"
| "fmul F (Inf s) (Inf t) = Inf (s \<noteq> t)"
| "fmul F (Inf s) (Num y) = (if y = 0 then NaN else Inf (s \<noteq> (y < 0)))"
| "fmul F (Num x) (Inf t) = (if x = 0 then NaN else Inf (t \<noteq> (x < 0)))"
| "fmul F NaN b = NaN"
| "fmul F a NaN = NaN"

text \<open>Division by zero would need the sign of the zero and is left without a value.\<close>

fun fdiv :: "ftype \<Rightarrow> fp \<Rightarrow> fp \<Rightarrow> fp option" where
  "fdiv F (Num x) (Num y) = (if y = 0 then None else Some (fl F (x / y)))"
| "fdiv F (Inf s) (Num y) = (if y = 0 then None else Some (Inf (s \<noteq> (y < 0))))"
| "fdiv F (Num x) (Inf t) = Some (Num 0)"
| "fdiv F (Inf s) (Inf t) = Some NaN"
| "fdiv F NaN (Num y) = (if y = 0 then None else Some NaN)"
| "fdiv F NaN (Inf t) = Some NaN"
| "fdiv F a NaN = Some NaN"

fun fless :: "fp \<Rightarrow> fp \<Rightarrow> bool" where
  "fless (Num x) (Num y) = (x < y)"
| "fless (Num x) (Inf t) = (\<not> t)"
| "fless (Inf s) (Num y) = s"
| "fless (Inf s) (Inf t) = (s \<and> \<not> t)"
| "fless NaN b = False"
| "fless a NaN = False"

fun feq :: "fp \<Rightarrow> fp \<Rightarrow> bool" where
  "feq (Num x) (Num y) = (x = y)"
| "feq (Inf s) (Inf t) = (s = t)"
| "feq a b = False"

text \<open>The conversion of a number of the other type.\<close>

fun convert :: "ftype \<Rightarrow> fp \<Rightarrow> fp" where
  "convert F (Num x) = fl F x"
| "convert F v = v"

text \<open>The conversion of an integer, and the conversion to a 32-bit integer, which drops the
  fraction and has no value out of range.\<close>

definition of_int_fp :: "ftype \<Rightarrow> int \<Rightarrow> fp" where
  "of_int_fp F n = fl F (of_int n)"

definition int32 :: "int \<Rightarrow> int option" where
  "int32 n = (if - (2 ^ 31) \<le> n \<and> n < 2 ^ 31 then Some n else None)"

fun to_int32 :: "fp \<Rightarrow> int option" where
  "to_int32 (Num x) = int32 (if x < 0 then - \<lfloor>- x\<rfloor> else \<lfloor>x\<rfloor>)"
| "to_int32 b = None"

subsection \<open>Powers of two\<close>

abbreviation two :: "int \<Rightarrow> rat" where "two e \<equiv> 2 powi e"

lemma two_pos [simp]: "0 < two e"
  by (simp add: zero_less_power_int)

lemma two_neq_0 [simp]: "two e \<noteq> 0"
  by (simp add: power_int_eq_0_iff)

lemma two_add: "two (a + b) = two a * two b"
  by (simp add: power_int_add)

lemma two_diff: "two (a - b) = two a / two b"
  by (simp add: power_int_diff)

lemma two_le [simp]: "two a \<le> two b \<longleftrightarrow> a \<le> b"
  by (metis linorder_not_le one_less_numeral_iff order_less_le power_int_increasing
      power_int_strict_increasing semiring_norm(76))

lemma two_less [simp]: "two a < two b \<longleftrightarrow> a < b"
  by (metis linorder_not_le two_le)

lemma two_nat: "two (int n) = 2 ^ n"
  by simp

lemma two_int: "0 \<le> e \<Longrightarrow> \<exists>k :: int. two e = of_int k"
  by (intro exI[of _ "2 ^ nat e"]) (simp add: power_int_def)

subsection \<open>The exponent\<close>

lemma top_exp_range: "lo \<le> top_exp lo k x" "top_exp lo k x \<le> lo + int k"
  by (induction k) auto

lemma top_exp_le: "two lo \<le> x \<Longrightarrow> two (top_exp lo k x) \<le> x"
  by (induction k) auto

lemma top_exp_less: "x < two (lo + int k + 1) \<Longrightarrow> x < two (top_exp lo k x + 1)"
proof (induction k)
  case (Suc k)
  then show ?case by (cases "two (lo + int (Suc k)) \<le> x") (auto simp: algebra_simps)
qed simp

lemma top_exp_less_max: "top_exp lo k x < lo + int k \<Longrightarrow> x < two (top_exp lo k x + 1)"
proof (induction k)
  case (Suc k)
  show ?case
  proof (cases "two (lo + int (Suc k)) \<le> x")
    case True
    then show ?thesis using Suc.prems by simp
  next
    case False
    then show ?thesis
      using top_exp_less[of x lo k] by (simp add: algebra_simps)
  qed
qed simp

lemma top_exp_mono: "x \<le> y \<Longrightarrow> top_exp lo k x \<le> top_exp lo k y"
proof (induction k)
  case (Suc k)
  then show ?case using top_exp_range(2)[of lo k x] by auto
qed simp


lemma top_exp_less_lo: "x < two lo \<Longrightarrow> top_exp lo k x = lo"
proof (induction k)
  case (Suc k)
  have "x < two (lo + int (Suc k))"
    using Suc.prems two_less[of lo "lo + int (Suc k)"] by linarith
  then show ?case using Suc by (simp add: not_le)
qed simp

subsection \<open>Rounding to an integer\<close>

lemma round_even_int [simp]: "round_even (of_int n) = n"
  by (simp add: round_even_def)

lemma round_even_near: "\<bar>of_int (round_even x) - x\<bar> \<le> 1 / 2"
proof -
  have b: "of_int \<lfloor>x\<rfloor> \<le> x" "x < of_int \<lfloor>x\<rfloor> + 1" by linarith+
  show ?thesis
  proof (cases "x - of_int \<lfloor>x\<rfloor> < 1 / 2 \<or> x - of_int \<lfloor>x\<rfloor> = 1 / 2 \<and> even \<lfloor>x\<rfloor>")
    case True
    then have "round_even x = \<lfloor>x\<rfloor>" "x - of_int \<lfloor>x\<rfloor> \<le> 1 / 2" by (auto simp: round_even_def)
    then show ?thesis using b by (simp add: abs_le_iff)
  next
    case False
    then have "round_even x = \<lfloor>x\<rfloor> + 1" "1 / 2 \<le> x - of_int \<lfloor>x\<rfloor>" by (auto simp: round_even_def)
    then show ?thesis using b by (simp add: abs_le_iff)
  qed
qed

lemma round_even_mono:
  assumes "x \<le> y"
  shows "round_even x \<le> round_even y"
proof -
  have bounds: "\<lfloor>z\<rfloor> \<le> round_even z \<and> round_even z \<le> \<lfloor>z\<rfloor> + 1" for z
    by (simp add: round_even_def Let_def)
  have "\<lfloor>x\<rfloor> \<le> \<lfloor>y\<rfloor>" using assms by (rule floor_mono)
  then consider "\<lfloor>x\<rfloor> = \<lfloor>y\<rfloor>" | "\<lfloor>x\<rfloor> + 1 \<le> \<lfloor>y\<rfloor>" by linarith
  then show ?thesis
  proof cases
    case 1
    then show ?thesis using assms by (auto simp: round_even_def Let_def)
  next
    case 2
    then show ?thesis using bounds[of x] bounds[of y] by linarith
  qed
qed

lemma round_even_le: "x \<le> of_int n \<Longrightarrow> round_even x \<le> n"
  using round_even_mono[of x "of_int n"] by simp

lemma round_even_ge: "of_int n \<le> x \<Longrightarrow> n \<le> round_even x"
  using round_even_mono[of "of_int n" x] by simp

subsection \<open>The numbers of a type\<close>

abbreviation low_bits :: "ftype \<Rightarrow> int" where "low_bits F \<equiv> int (precision F - 1)"

lemma precision_pos: "0 < precision F" "2 ^ precision F = (2 :: 'a :: semiring_1) * 2 ^ (precision F - 1)"
  by (cases F; simp add: power_Suc[symmetric] del: power_Suc)+

definition representable :: "ftype \<Rightarrow> rat \<Rightarrow> bool" where
  "representable F x \<longleftrightarrow> (\<exists>m e. x = of_int m * two e \<and> \<bar>m\<bar> < 2 ^ precision F \<and> min_exp F - low_bits F \<le> e)"

abbreviation exponent_of :: "ftype \<Rightarrow> rat \<Rightarrow> int" where
  "exponent_of F x \<equiv> top_exp (min_exp F) (binades F) x"

lemma ulp_pos [simp]: "0 < ulp F x" "ulp F x \<noteq> 0"
  by (simp_all add: ulp_def)

lemma ulp_top: "ulp F x * 2 ^ (precision F - 1) = two (exponent_of F x)"
  by (simp add: ulp_def two_diff)

lemma round_pos_multiple:
  assumes "x = of_int k * ulp F x"
  shows "round_pos F x = x"
proof -
  have "x / ulp F x = of_int k" by (subst assms) simp
  then show ?thesis using assms by (simp add: round_pos_def)
qed

lemma round_pos_representable:
  assumes "representable F x" "0 \<le> x"
  shows "round_pos F x = x"
proof -
  obtain m e where x: "x = of_int m * two e" "\<bar>m\<bar> < 2 ^ precision F" "min_exp F - low_bits F \<le> e"
    using assms(1) by (auto simp: representable_def)
  let ?t = "exponent_of F x"
  have "?t - low_bits F \<le> e"
  proof (rule ccontr)
    assume "\<not> ?t - low_bits F \<le> e"
    then have lt: "e + low_bits F + 1 \<le> ?t" "min_exp F < ?t" using x(3) by linarith+
    have "two (min_exp F) \<le> x"
    proof (rule ccontr)
      assume "\<not> two (min_exp F) \<le> x"
      then have "?t = min_exp F"
        by (simp add: top_exp_less_lo not_le)
      then show False using lt(2) by simp
    qed
    then have "two ?t \<le> x" by (rule top_exp_le)
    moreover have "x < two (e + low_bits F + 1)"
    proof -
      have "x < 2 ^ precision F * two e"
        using x(1,2) assms(2) by simp
      also have "\<dots> = two (e + low_bits F + 1)"
        by (simp add: two_add precision_pos(2) mult_ac)
      finally show ?thesis .
    qed
    ultimately have "two ?t < two (e + low_bits F + 1)" by linarith
    then show False using lt(1) by simp
  qed
  then obtain k where k: "two (e - (?t - low_bits F)) = of_int k"
    using two_int[of "e - (?t - low_bits F)"] by auto
  have "two e = two (e - (?t - low_bits F)) * ulp F x"
    by (simp add: ulp_def flip: two_add)
  then have "x = of_int (m * k) * ulp F x" using x(1) k by simp
  then show ?thesis by (rule round_pos_multiple)
qed

lemma representableI:
  "x = of_int m * two e \<Longrightarrow> \<bar>m\<bar> < 2 ^ precision F \<Longrightarrow> min_exp F - low_bits F \<le> e \<Longrightarrow> representable F x"
  unfolding representable_def by blast

lemma exponent_low: "two (min_exp F) \<le> x \<or> exponent_of F x = min_exp F"
  using top_exp_less_lo[of x "min_exp F" "binades F"] by (metis not_le)

lemma round_pos_le_top:
  assumes "x < two (exponent_of F x + 1)"
  shows "round_even (x / ulp F x) \<le> 2 ^ precision F" "round_pos F x \<le> two (exponent_of F x + 1)"
proof -
  have top: "two (exponent_of F x + 1) = 2 ^ precision F * ulp F x"
    using ulp_top[of F x] by (simp add: two_add precision_pos(2) mult_ac)
  have "x / ulp F x \<le> of_int (2 ^ precision F)"
    using assms unfolding top by (simp add: pos_divide_le_eq)
  then show "round_even (x / ulp F x) \<le> 2 ^ precision F" by (rule round_even_le)
  then have "(of_int (round_even (x / ulp F x)) :: rat) \<le> of_int (2 ^ precision F)"
    by (simp only: of_int_le_iff)
  then show "round_pos F x \<le> two (exponent_of F x + 1)"
    unfolding top round_pos_def by (simp add: mult_right_mono)
qed

lemma round_pos_ge_top:
  assumes "two (exponent_of F x) \<le> x"
  shows "two (exponent_of F x) \<le> round_pos F x"
proof -
  have "of_int (2 ^ (precision F - 1)) \<le> x / ulp F x"
    using assms ulp_top[of F x] by (simp add: pos_le_divide_eq mult.commute)
  then have "2 ^ (precision F - 1) \<le> round_even (x / ulp F x)" by (rule round_even_ge)
  then have "(of_int (2 ^ (precision F - 1)) :: rat) \<le> of_int (round_even (x / ulp F x))"
    by (simp only: of_int_le_iff)
  then have "2 ^ (precision F - 1) * ulp F x \<le> round_pos F x"
    unfolding round_pos_def by (simp add: mult_right_mono)
  then show ?thesis using ulp_top[of F x] by (simp add: mult.commute)
qed

lemma round_pos_mono:
  assumes "x \<le> y"
  shows "round_pos F x \<le> round_pos F y"
proof -
  have t: "exponent_of F x \<le> exponent_of F y" using assms by (rule top_exp_mono)
  show ?thesis
  proof (cases "exponent_of F x = exponent_of F y")
    case True
    then have u: "ulp F y = ulp F x" by (simp add: ulp_def)
    have "x / ulp F x \<le> y / ulp F x" using assms by (simp add: divide_right_mono order_less_imp_le)
    then have "round_even (x / ulp F x) \<le> round_even (y / ulp F x)" by (rule round_even_mono)
    then show ?thesis unfolding round_pos_def u by (simp add: mult_right_mono order_less_imp_le)
  next
    case False
    then have lt: "exponent_of F x < exponent_of F y" using t by simp
    then have "exponent_of F x < min_exp F + int (binades F)" using top_exp_range(2)[of "min_exp F" "binades F" y] by simp
    then have "round_pos F x \<le> two (exponent_of F x + 1)"
      by (intro round_pos_le_top top_exp_less_max)
    also have "\<dots> \<le> two (exponent_of F y)" using lt by simp
    also have "\<dots> \<le> round_pos F y"
      using lt exponent_low[of F y] top_exp_range(1)[of "min_exp F" "binades F" x]
      by (intro round_pos_ge_top top_exp_le) auto
    finally show ?thesis .
  qed
qed

lemma round_pos_nonneg: "0 \<le> x \<Longrightarrow> 0 \<le> round_pos F x"
  using round_pos_mono[of 0 x F] by (simp add: round_pos_def round_even_int[of 0, simplified])

lemma round_pos_error: "\<bar>round_pos F x - x\<bar> \<le> ulp F x / 2"
proof -
  have "round_pos F x - x = (of_int (round_even (x / ulp F x)) - x / ulp F x) * ulp F x"
    by (simp add: round_pos_def left_diff_distrib)
  then have "\<bar>round_pos F x - x\<bar> = \<bar>of_int (round_even (x / ulp F x)) - x / ulp F x\<bar> * ulp F x"
    by (simp add: abs_mult abs_of_pos)
  also have "\<dots> \<le> 1 / 2 * ulp F x"
    by (intro mult_right_mono round_even_near) (simp add: order_less_imp_le)
  finally show ?thesis by simp
qed

lemma representable_round_pos:
  assumes "0 \<le> x" "x < two (max_exp F + 1)"
  shows "representable F (round_pos F x)"
proof -
  let ?k = "round_even (x / ulp F x)" and ?e = "exponent_of F x - low_bits F"
  have k: "0 \<le> ?k" using assms(1) round_even_ge[of 0 "x / ulp F x"] by (simp add: divide_nonneg_pos)
  have "?k \<le> 2 ^ precision F"
    using assms(2) unfolding max_exp_def
    by (intro round_pos_le_top top_exp_less) (simp add: algebra_simps)
  then consider "?k < 2 ^ precision F" | "?k = 2 ^ precision F" by linarith
  then show ?thesis
  proof cases
    case 1
    then show ?thesis
      using k top_exp_range(1)[of "min_exp F" "binades F" x]
      by (intro representableI[of _ ?k ?e]) (simp_all add: round_pos_def ulp_def)
  next
    case 2
    have "round_pos F x = of_int (2 ^ (precision F - 1)) * two (?e + 1)"
      using 2 unfolding round_pos_def ulp_def by (simp add: two_add precision_pos(2))
    moreover have "\<bar>2 ^ (precision F - 1)\<bar> < (2 :: int) ^ precision F"
      by (cases F) simp_all
    ultimately show ?thesis
      using top_exp_range(1)[of "min_exp F" "binades F" x]
      by (intro representableI[of _ "2 ^ (precision F - 1)" "?e + 1"]) simp_all
  qed
qed

subsection \<open>Rounding numbers of either sign\<close>

lemma representable_minus: "representable F (- x) = representable F x"
proof -
  have "representable F x \<Longrightarrow> representable F (- x)" for x
    unfolding representable_def by (metis abs_minus_cancel mult_minus_left of_int_minus)
  from this[of x] this[of "- x"] show ?thesis by auto
qed

lemma representable_0 [simp]: "representable F 0"
  by (rule representableI[of _ 0 "min_exp F - low_bits F"]) simp_all

lemma round_to_minus: "round_to F (- x) = - round_to F x"
proof -
  have "round_pos F 0 = 0" by (rule round_pos_representable) simp_all
  then show ?thesis by (auto simp: round_to_def)
qed

lemma round_to_mono: "x \<le> y \<Longrightarrow> round_to F x \<le> round_to F y"
  using round_pos_mono[of x y F] round_pos_mono[of "- y" "- x" F] round_pos_nonneg[of y F] round_pos_nonneg[of "- x" F]
  by (auto simp: round_to_def)

lemma round_to_representable: "representable F x \<Longrightarrow> round_to F x = x"
  using round_pos_representable[of F x] round_pos_representable[of F "- x"]
  by (auto simp: round_to_def representable_minus)

lemma round_to_le: "x \<le> y \<Longrightarrow> representable F y \<Longrightarrow> round_to F x \<le> y"
  using round_to_mono[of x y F] by (simp add: round_to_representable)

lemma round_to_ge: "y \<le> x \<Longrightarrow> representable F y \<Longrightarrow> y \<le> round_to F x"
  using round_to_mono[of y x F] by (simp add: round_to_representable)

lemma round_to_abs: "\<bar>round_to F x\<bar> = round_to F \<bar>x\<bar>"
proof -
  have "0 \<le> round_to F y" if "0 \<le> y" for y using that by (intro round_to_ge) simp_all
  from this[of x] this[of "- x"] show ?thesis by (cases "0 \<le> x") (simp_all add: round_to_minus)
qed

lemma round_to_error: "\<bar>round_to F x - x\<bar> \<le> ulp F \<bar>x\<bar> / 2"
proof -
  have "\<bar>- r - x\<bar> = \<bar>r - - x\<bar>" for r by linarith
  then show ?thesis using round_pos_error[of F x] round_pos_error[of F "- x"] by (auto simp: round_to_def)
qed

subsection \<open>Results of operations\<close>

text \<open>The values that a variable of the type can have.\<close>

fun is_float :: "ftype \<Rightarrow> fp \<Rightarrow> bool" where
  "is_float F (Num x) = (representable F x \<and> \<bar>x\<bar> < two (max_exp F + 1))"
| "is_float F _ = True"

lemma fl_exact: "is_float F (Num x) \<Longrightarrow> fl F x = Num x"
  by (simp add: fl_def round_to_representable)

lemma round_to_cases: "x < 0 \<Longrightarrow> round_to F x = - round_to F (- x)"
  by (simp add: round_to_minus)

lemma representable_two:
  assumes "min_exp F - low_bits F \<le> e"
  shows "representable F (two e)"
  using assms by (intro representableI[of _ 1 e]) (cases F; simp)+

lemma representable_of_int:
  assumes "\<bar>n\<bar> < 2 ^ precision F"
  shows "representable F (of_int n)"
  using assms by (intro representableI[of _ n 0]) (cases F; simp)+

lemma round_to_less_two:
  assumes "min_exp F - low_bits F \<le> e" "\<bar>round_to F x\<bar> < two e"
  shows "\<bar>x\<bar> < two e"
proof (rule ccontr)
  assume "\<not> \<bar>x\<bar> < two e"
  then have "two e \<le> round_to F \<bar>x\<bar>"
    using representable_two[OF assms(1)] by (intro round_to_ge) simp_all
  then show False using assms(2) by (simp add: round_to_abs)
qed

lemma max_exp_eq: "max_exp C_float = 127" "max_exp C_double = 1023"
  by (simp_all add: max_exp_def)

lemma representable_round_to:
  assumes "\<bar>x\<bar> < two (max_exp F + 1)"
  shows "representable F (round_to F x)"
  using representable_round_pos[of x F] representable_round_pos[of "- x" F] assms
  by (auto simp: round_to_def representable_minus)

lemma is_float_fl [simp]: "is_float F (fl F x)"
proof (cases "\<bar>round_to F x\<bar> < two (max_exp F + 1)")
  case True
  have "min_exp F - low_bits F \<le> max_exp F + 1" by (cases F) (simp_all add: max_exp_eq)
  from round_to_less_two[OF this True] show ?thesis using True representable_round_to[of x F] by (simp add: fl_def)
qed (simp add: fl_def)

lemma is_float_convert [simp]: "is_float F (convert F v)"
  by (cases v) (simp_all only: convert.simps is_float_fl is_float.simps)

lemma is_float_fneg [simp]: "is_float F (fneg v) = is_float F v"
  by (cases v) (simp_all add: representable_minus)

lemma is_float_arith [simp]:
  "is_float F (fmul F a b)" "is_float F a \<Longrightarrow> is_float F b \<Longrightarrow> is_float F (fadd F a b)"
  "is_float F a \<Longrightarrow> is_float F b \<Longrightarrow> is_float F (fsub F a b)"
  by (cases a; cases b; simp add: fsub_def)+

lemma is_float_fdiv: "fdiv F a b = Some q \<Longrightarrow> is_float F q"
  by (cases a; cases b) (auto split: if_splits)

text \<open>A result between two numbers of the type stays between them.\<close>

lemma fl_between:
  assumes "a \<le> x" "x \<le> b" "is_float F (Num a)" "is_float F (Num b)"
  shows "\<exists>y. fl F x = Num y \<and> a \<le> y \<and> y \<le> b"
proof -
  have "a \<le> round_to F x" "round_to F x \<le> b"
    using assms by (auto intro: round_to_le round_to_ge)
  moreover from this have "\<bar>round_to F x\<bar> < two (max_exp F + 1)"
    using assms(3,4) by (auto simp: abs_less_iff)
  ultimately show ?thesis by (simp add: fl_def)
qed

subsection \<open>Relative error\<close>

lemma ulp_le_relative:
  assumes "two (min_exp F) \<le> x"
  shows "ulp F x \<le> x / 2 ^ (precision F - 1)"
  using top_exp_le[OF assms, of "binades F"] ulp_top[of F x] by (simp add: pos_le_divide_eq)

lemma round_to_relative:
  assumes "two (min_exp F) \<le> \<bar>x\<bar>"
  shows "\<bar>round_to F x - x\<bar> \<le> \<bar>x\<bar> / 2 ^ precision F"
  using round_to_error[of F x] ulp_le_relative[OF assms] by (simp add: precision_pos(2))

text \<open>A difference of numbers of the type that is smaller than the normal numbers is exact.\<close>

lemma grid_multiple:
  assumes "representable F x"
  shows "\<exists>k. x = of_int k * two (min_exp F - low_bits F)"
proof -
  obtain m e where x: "x = of_int m * two e" "min_exp F - low_bits F \<le> e"
    using assms by (auto simp: representable_def)
  obtain k where "two (e - (min_exp F - low_bits F)) = of_int k"
    using two_int[of "e - (min_exp F - low_bits F)"] x(2) by auto
  moreover have "two e = two (e - (min_exp F - low_bits F)) * two (min_exp F - low_bits F)"
    by (simp flip: two_add)
  ultimately show ?thesis using x(1) by (intro exI[of _ "m * k"]) simp
qed

lemma grid_representable:
  assumes "x = of_int k * two (min_exp F - low_bits F)" "\<bar>x\<bar> < two (min_exp F)"
  shows "representable F x"
proof -
  let ?g = "two (min_exp F - low_bits F)"
  have "of_int \<bar>k\<bar> * ?g < 2 ^ (precision F - 1) * ?g"
    using assms(2) unfolding assms(1) by (simp add: abs_mult two_diff)
  then have "(of_int \<bar>k\<bar> :: rat) < of_int (2 ^ (precision F - 1))" by simp
  then have "\<bar>k\<bar> < 2 ^ (precision F - 1)" by (simp only: of_int_less_iff)
  also have "\<dots> \<le> (2 :: int) ^ precision F" by (cases F) simp_all
  finally show ?thesis using assms(1) by (intro representableI[of _ k "min_exp F - low_bits F"]) simp_all
qed

lemma small_difference:
  assumes "representable F x" "representable F y" "\<bar>x - y\<bar> < two (min_exp F)"
  shows "representable F (x - y)"
proof -
  let ?g = "two (min_exp F - low_bits F)"
  obtain k l where k: "x = of_int k * ?g" "y = of_int l * ?g" using assms grid_multiple by meson
  then have "x - y = of_int (k - l) * ?g" by (simp add: left_diff_distrib)
  then show ?thesis using assms(3) by (rule grid_representable)
qed

text \<open>So is a small product with an integer.\<close>

lemma product_relative:
  assumes "representable F x"
  shows "\<bar>round_to F (x * of_int c) - x * of_int c\<bar> \<le> \<bar>x * of_int c\<bar> / 2 ^ precision F"
proof (cases "two (min_exp F) \<le> \<bar>x * of_int c\<bar>")
  case True
  then show ?thesis by (rule round_to_relative)
next
  case False
  obtain k where "x = of_int k * two (min_exp F - low_bits F)" using grid_multiple[OF assms] by blast
  then have "x * of_int c = of_int (k * c) * two (min_exp F - low_bits F)" by simp
  from grid_representable[OF this] have "representable F (x * of_int c)" using False by simp
  then show ?thesis by (simp add: round_to_representable)
qed

lemma difference_error:
  assumes "representable F x" "representable F y"
  shows "\<bar>x - y\<bar> \<le> round_to F \<bar>x - y\<bar> + \<bar>x - y\<bar> / 2 ^ precision F"
proof (cases "two (min_exp F) \<le> \<bar>x - y\<bar>")
  case True
  then show ?thesis using round_to_relative[of F "\<bar>x - y\<bar>"] by simp
next
  case False
  then have "round_to F (x - y) = x - y"
    using assms by (intro round_to_representable small_difference) simp_all
  then show ?thesis by (simp flip: round_to_abs)
qed

end
