(* ===== verification/Unity_Float.thy ===== *)
theory Unity_Float
  imports Unity_Macros Floating_Point "HOL-Library.Signed_Division"
begin

section \<open>Unity: floating-point numbers\<close>

text \<open>
  The printer of floating-point numbers and the assertions on them
  (\<^verbatim>\<open>assignment-autotest/Unity/src/unity.c\<close>) with their macros, for the default build and for the
  one with \<open>UNITY_INCLUDE_DOUBLE\<close>. Expressions are evaluated in the type of their operands
  (\<open>FLT_EVAL_METHOD\<close> 0).
\<close>

datatype build = Without_double | With_double

fun UNITY_DOUBLE :: "build \<Rightarrow> ftype" where
  "UNITY_DOUBLE Without_double = C_float"
| "UNITY_DOUBLE With_double = C_double"

definition UNITY_FLOAT_PRECISION :: fp where
  "UNITY_FLOAT_PRECISION = fl C_float (1 / 100000)"

definition UNITY_DOUBLE_PRECISION :: fp where
  "UNITY_DOUBLE_PRECISION = fl C_double (1 / 1000000000000)"

definition UnityStrNot :: "byte list" where "UnityStrNot = str ''Not ''"
definition UnityStrInf :: "byte list" where "UnityStrInf = str ''Infinity''"
definition UnityStrNegInf :: "byte list" where "UnityStrNegInf = str ''Negative Infinity''"
definition UnityStrNaN :: "byte list" where "UnityStrNaN = str ''NaN''"
definition UnityStrDet :: "byte list" where "UnityStrDet = str ''Determinate''"
definition UnityStrInvalidFloatTrait :: "byte list" where "UnityStrInvalidFloatTrait = str ''Invalid Float Trait''"
definition UnityStrErrDouble :: "byte list" where "UnityStrErrDouble = str ''Unity Double Precision Disabled''"

subsection \<open>The printer\<close>

fun sig_digits :: "build \<Rightarrow> int" where
  "sig_digits Without_double = 7"
| "sig_digits With_double = 9"

fun min_scaled :: "build \<Rightarrow> int" where
  "min_scaled Without_double = 1000000"
| "min_scaled With_double = 100000000"

fun max_scaled :: "build \<Rightarrow> int" where
  "max_scaled Without_double = 10000000"
| "max_scaled With_double = 1000000000"

text \<open>The constants \<open>1e10f\<close> and \<open>10.0f\<close>, which both types have exactly.\<close>

abbreviation (input) e10 :: fp where "e10 \<equiv> Num 10000000000"
abbreviation (input) ten :: fp where "ten \<equiv> Num 10"

text \<open>The two loops for a number below 1.\<close>

partial_function (option) enlarge :: "build \<Rightarrow> fp \<Rightarrow> int \<Rightarrow> (fp \<times> int) option" where
  "enlarge B number exponent = do {
     bound \<leftarrow> fdiv (UNITY_DOUBLE B) (of_int_fp (UNITY_DOUBLE B) (max_scaled B)) e10;
     if fless number bound then enlarge B (fmul (UNITY_DOUBLE B) number e10) (exponent - 10)
     else Some (number, exponent)
   }"

partial_function (option) find_factor :: "build \<Rightarrow> fp \<Rightarrow> fp \<Rightarrow> int \<Rightarrow> (fp \<times> int) option" where
  "find_factor B number factor exponent =
     (if fless (fmul (UNITY_DOUBLE B) number factor) (of_int_fp (UNITY_DOUBLE B) (min_scaled B))
      then find_factor B number (fmul (UNITY_DOUBLE B) factor ten) (exponent - 1)
      else Some (factor, exponent))"

text \<open>The two loops for a number above \<open>max_scaled\<close>.\<close>

partial_function (option) reduce :: "build \<Rightarrow> fp \<Rightarrow> int \<Rightarrow> (fp \<times> int) option" where
  "reduce B number exponent =
     (if fless (fmul (UNITY_DOUBLE B) (of_int_fp (UNITY_DOUBLE B) (min_scaled B)) e10) number
      then do { number \<leftarrow> fdiv (UNITY_DOUBLE B) number e10; reduce B number (exponent + 10) }
      else Some (number, exponent))"

partial_function (option) find_float_divisor :: "build \<Rightarrow> fp \<Rightarrow> fp \<Rightarrow> int \<Rightarrow> (fp \<times> int) option" where
  "find_float_divisor B number divisor exponent = do {
     quotient \<leftarrow> fdiv (UNITY_DOUBLE B) number divisor;
     if fless (of_int_fp (UNITY_DOUBLE B) (max_scaled B)) quotient
     then find_float_divisor B number (fmul (UNITY_DOUBLE B) divisor ten) (exponent + 1)
     else Some (divisor, exponent)
   }"

text \<open>The loop for a number in between, on its integer part.\<close>

partial_function (option) enlarge_int :: "build \<Rightarrow> int \<Rightarrow> fp \<Rightarrow> int \<Rightarrow> (int \<times> fp \<times> int) option" where
  "enlarge_int B n_int factor exponent =
     (if n_int < min_scaled B
      then do { n_int \<leftarrow> int32 (n_int * 10);
                enlarge_int B n_int (fmul (UNITY_DOUBLE B) factor ten) (exponent - 1) }
      else Some (n_int, factor, exponent))"

definition scale_number :: "build \<Rightarrow> fp \<Rightarrow> (int \<times> fp \<times> int) option" where
  "scale_number B number =
     (if fless number (Num 1) then do {
        (number, exponent) \<leftarrow> enlarge B number 0;
        (factor, exponent) \<leftarrow> find_factor B number (Num 1) exponent;
        Some (0, fmul (UNITY_DOUBLE B) number factor, exponent)
      } else if fless (of_int_fp (UNITY_DOUBLE B) (max_scaled B)) number then do {
        (number, exponent) \<leftarrow> reduce B number 0;
        (divisor, exponent) \<leftarrow> find_float_divisor B number (Num 1) exponent;
        number \<leftarrow> fdiv (UNITY_DOUBLE B) number divisor;
        Some (0, number, exponent)
      } else do {
        n_int \<leftarrow> to_int32 number;
        let number = fsub (UNITY_DOUBLE B) number (of_int_fp (UNITY_DOUBLE B) n_int);
        (n_int, factor, exponent) \<leftarrow> enlarge_int B n_int (Num 1) 0;
        Some (n_int, fmul (UNITY_DOUBLE B) number factor, exponent)
      })"

text \<open>Rounding to the nearest integer, the even one of two.\<close>

definition round_scaled :: "build \<Rightarrow> int \<Rightarrow> fp \<Rightarrow> int \<Rightarrow> (int \<times> int) option" where
  "round_scaled B n_int number exponent = do {
     twice \<leftarrow> to_int32 (fadd (UNITY_DOUBLE B) number number);
     twice \<leftarrow> int32 (twice + 1);
     let n = twice sdiv 2;
     let n = (if odd n \<and> feq (fsub (UNITY_DOUBLE B) (of_int_fp (UNITY_DOUBLE B) n) number) (Num (1 / 2))
              then n - 1 else n);
     n \<leftarrow> int32 (n + n_int);
     Some (if n \<ge> max_scaled B then (min_scaled B, exponent + 1) else (n, exponent))
   }"

text \<open>Removing the zeros at the end of the fraction.\<close>

function strip_zeros :: "int \<Rightarrow> int \<Rightarrow> int \<times> int" where
  "strip_zeros n decimals =
     (if decimals > 0 \<and> n smod 10 = 0 then strip_zeros (n sdiv 10) (decimals - 1) else (n, decimals))"
  by pat_completeness auto

termination strip_zeros
  by (relation "measure (\<lambda>(n, decimals). nat decimals)") auto

declare strip_zeros.simps [simp del]

text \<open>The digits in \<open>buf\<close>, the last one first; a store outside its 16 characters has no value.\<close>

function fill_buf :: "int \<Rightarrow> int \<Rightarrow> byte list \<Rightarrow> byte list option" where
  "fill_buf limit n buf =
     (if n \<noteq> 0 \<or> int (length buf) < limit then
        (if length buf < 16 then fill_buf limit (n sdiv 10) (buf @ [48 + of_int (n smod 10)]) else None)
      else Some buf)"
  by pat_completeness auto

termination fill_buf
  by (relation "measure (\<lambda>(limit, n, buf). 16 - length buf)") auto

declare fill_buf.simps [simp del]

text \<open>Printing from the end of \<open>buf\<close>, with the point before the last \<open>decimals\<close> digits.\<close>

fun put_digits :: "int \<Rightarrow> byte list \<Rightarrow> byte list" where
  "put_digits decimals [] = []"
| "put_digits decimals (c # cs) =
     (if int (length (c # cs)) = decimals then str ''.'' else []) @ c # put_digits decimals cs"

definition print_exponent :: "int \<Rightarrow> byte list option" where
  "print_exponent exponent =
     (if exponent \<noteq> 0 then do {
        buf \<leftarrow> fill_buf 2 (if exponent < 0 then - exponent else exponent) [];
        Some (str ''e'' @ (if exponent < 0 then str ''-'' else str ''+'') @ rev buf)
      } else Some [])"

definition print_scaled :: "build \<Rightarrow> int \<Rightarrow> int \<Rightarrow> byte list option" where
  "print_scaled B n exponent = do {
     let decimals = (if exponent \<le> 0 \<and> exponent \<ge> - (sig_digits B + 3) then - exponent else sig_digits B - 1);
     let exponent = exponent + decimals;
     let (n, decimals) = strip_zeros n decimals;
     buf \<leftarrow> fill_buf (decimals + 1) n [];
     e \<leftarrow> print_exponent exponent;
     Some (put_digits decimals (rev buf) @ e)
   }"

definition UnityPrintFloat :: "build \<Rightarrow> fp \<Rightarrow> byte list option" where
  "UnityPrintFloat B input_number =
     (let negative = fless input_number (Num 0);
          number = (if negative then fneg input_number else input_number)
      in map_option (\<lambda>out. (if negative then str ''-'' else []) @ out)
        (if feq number (Num 0) then Some (UnityPrint (Some (str ''0'')))
         else if isnan number then Some (UnityPrint (Some (str ''nan'')))
         else if isinf number then Some (UnityPrint (Some (str ''inf'')))
         else do {
           (n_int, number, exponent) \<leftarrow> scale_number B number;
           (n, exponent) \<leftarrow> round_scaled B n_int number exponent;
           print_scaled B n exponent
         }))"

subsection \<open>Comparisons\<close>

definition UNITY_FLOAT_OR_DOUBLE_WITHIN :: "ftype \<Rightarrow> fp \<Rightarrow> fp \<Rightarrow> fp \<Rightarrow> bool" where
  "UNITY_FLOAT_OR_DOUBLE_WITHIN F delta expected actual =
     (if isinf expected \<and> isinf actual \<and> fless expected (Num 0) = fless actual (Num 0) then True
      else if isnan expected \<and> isnan actual then True
      else
        let diff = fsub F actual expected;
            diff = (if fless diff (Num 0) then fneg diff else diff);
            delta = (if fless delta (Num 0) then fneg delta else delta)
        in \<not> (isnan diff \<or> isinf diff \<or> fless delta diff))"

definition UNITY_PRINT_EXPECTED_AND_ACTUAL_FLOAT :: "build \<Rightarrow> fp \<Rightarrow> fp \<Rightarrow> byte list option" where
  "UNITY_PRINT_EXPECTED_AND_ACTUAL_FLOAT B expected actual = do {
     e \<leftarrow> UnityPrintFloat B expected;
     a \<leftarrow> UnityPrintFloat B actual;
     Some (UnityPrint (Some UnityStrExpected) @ e @ UnityPrint (Some UnityStrWas) @ a)
   }"

definition UnityFloatsWithin :: "fp \<Rightarrow> fp \<Rightarrow> fp \<Rightarrow> bool" where
  "UnityFloatsWithin = UNITY_FLOAT_OR_DOUBLE_WITHIN C_float"

definition UnityDoublesWithin :: "fp \<Rightarrow> fp \<Rightarrow> fp \<Rightarrow> bool" where
  "UnityDoublesWithin = UNITY_FLOAT_OR_DOUBLE_WITHIN C_double"

text \<open>The body of \<open>UnityAssertFloatsWithin\<close> and \<open>UnityAssertDoublesWithin\<close>, given the comparison.\<close>

definition assert_close ::
  "build \<Rightarrow> bool \<Rightarrow> fp \<Rightarrow> fp \<Rightarrow> cstring \<Rightarrow> u64 \<Rightarrow> unity \<Rightarrow> flow option" where
  "assert_close B close expected actual msg lineNumber u =
     (case RETURN_IF_FAIL_OR_IGNORE u of
        Inl u \<Rightarrow> Some (Inl u)
      | Inr u \<Rightarrow>
          if \<not> close then do {
            text \<leftarrow> UNITY_PRINT_EXPECTED_AND_ACTUAL_FLOAT B expected actual;
            Some (UNITY_FAIL_AND_BAIL (UnityAddMsgIfSpecified msg
              (emit text (UnityTestResultsFailBegin lineNumber u))))
          } else Some (Inr u))"

definition UnityAssertFloatsWithin ::
  "build \<Rightarrow> fp \<Rightarrow> fp \<Rightarrow> fp \<Rightarrow> cstring \<Rightarrow> u64 \<Rightarrow> unity \<Rightarrow> flow option" where
  "UnityAssertFloatsWithin B delta expected actual =
     assert_close B (UnityFloatsWithin delta expected actual) expected actual"

definition UnityAssertDoublesWithin ::
  "fp \<Rightarrow> fp \<Rightarrow> fp \<Rightarrow> cstring \<Rightarrow> u64 \<Rightarrow> unity \<Rightarrow> flow option" where
  "UnityAssertDoublesWithin delta expected actual =
     assert_close With_double (UnityDoublesWithin delta expected actual) expected actual"

subsection \<open>Traits\<close>

datatype UNITY_FLOAT_TRAIT_T =
    UNITY_FLOAT_IS_NOT_INF | UNITY_FLOAT_IS_INF | UNITY_FLOAT_IS_NOT_NEG_INF | UNITY_FLOAT_IS_NEG_INF
  | UNITY_FLOAT_IS_NOT_NAN | UNITY_FLOAT_IS_NAN | UNITY_FLOAT_IS_NOT_DET | UNITY_FLOAT_IS_DET
  | UNITY_FLOAT_INVALID_TRAIT

fun trait_code :: "UNITY_FLOAT_TRAIT_T \<Rightarrow> nat" where
  "trait_code UNITY_FLOAT_IS_NOT_INF = 0"
| "trait_code UNITY_FLOAT_IS_INF = 1"
| "trait_code UNITY_FLOAT_IS_NOT_NEG_INF = 2"
| "trait_code UNITY_FLOAT_IS_NEG_INF = 3"
| "trait_code UNITY_FLOAT_IS_NOT_NAN = 4"
| "trait_code UNITY_FLOAT_IS_NAN = 5"
| "trait_code UNITY_FLOAT_IS_NOT_DET = 6"
| "trait_code UNITY_FLOAT_IS_DET = 7"
| "trait_code UNITY_FLOAT_INVALID_TRAIT = 8"

text \<open>The \<open>switch\<close>: the value of \<open>is_trait\<close> and the text of the trait.\<close>

definition float_trait :: "fp \<Rightarrow> UNITY_FLOAT_TRAIT_T \<Rightarrow> bool \<times> byte list" where
  "float_trait actual style =
     (let should_be_trait = odd (trait_code style);
          name = [UnityStrInf, UnityStrNegInf, UnityStrNaN, UnityStrDet] ! (trait_code style div 2)
      in if style = UNITY_FLOAT_IS_INF \<or> style = UNITY_FLOAT_IS_NOT_INF then
           (isinf actual \<and> fless (Num 0) actual, name)
         else if style = UNITY_FLOAT_IS_NEG_INF \<or> style = UNITY_FLOAT_IS_NOT_NEG_INF then
           (isinf actual \<and> fless actual (Num 0), name)
         else if style = UNITY_FLOAT_IS_NAN \<or> style = UNITY_FLOAT_IS_NOT_NAN then (isnan actual, name)
         else if style = UNITY_FLOAT_IS_DET \<or> style = UNITY_FLOAT_IS_NOT_DET then
           (\<not> isinf actual \<and> \<not> isnan actual, name)
         else (\<not> should_be_trait, UnityStrInvalidFloatTrait))"

definition assert_trait ::
  "build \<Rightarrow> fp \<Rightarrow> cstring \<Rightarrow> u64 \<Rightarrow> UNITY_FLOAT_TRAIT_T \<Rightarrow> unity \<Rightarrow> flow option" where
  "assert_trait B actual msg lineNumber style u =
     (let should_be_trait = odd (trait_code style); (is_trait, name) = float_trait actual style in
      case RETURN_IF_FAIL_OR_IGNORE u of
        Inl u \<Rightarrow> Some (Inl u)
      | Inr u \<Rightarrow>
          if is_trait \<noteq> should_be_trait then do {
            number \<leftarrow> UnityPrintFloat B actual;
            Some (UNITY_FAIL_AND_BAIL (UnityAddMsgIfSpecified msg
              (emit (UnityPrint (Some UnityStrExpected)
                     @ (if \<not> should_be_trait then UnityPrint (Some UnityStrNot) else [])
                     @ UnityPrint (Some name) @ UnityPrint (Some UnityStrWas) @ number)
                (UnityTestResultsFailBegin lineNumber u))))
          } else Some (Inr u))"

definition UnityAssertFloatSpecial ::
  "build \<Rightarrow> fp \<Rightarrow> cstring \<Rightarrow> u64 \<Rightarrow> UNITY_FLOAT_TRAIT_T \<Rightarrow> unity \<Rightarrow> flow option" where
  "UnityAssertFloatSpecial B = assert_trait B"

definition UnityAssertDoubleSpecial ::
  "fp \<Rightarrow> cstring \<Rightarrow> u64 \<Rightarrow> UNITY_FLOAT_TRAIT_T \<Rightarrow> unity \<Rightarrow> flow option" where
  "UnityAssertDoubleSpecial = assert_trait With_double"

subsection \<open>Arrays\<close>

text \<open>The number that a representation stands for.\<close>

fun float_bytes :: "ftype \<Rightarrow> nat" where
  "float_bytes C_float = 4"
| "float_bytes C_double = 8"

definition decode :: "ftype \<Rightarrow> nat \<Rightarrow> fp" where
  "decode F rep =
     (let f = rep mod 2 ^ (precision F - 1);
          rest = rep div 2 ^ (precision F - 1);
          e = rest mod (binades F + 3);
          negative = binades F + 3 \<le> rest;
          value = (if e = 0 then of_nat f * two (min_exp F - int (precision F - 1))
                   else of_nat (2 ^ (precision F - 1) + f) * two (min_exp F - int (precision F - 1) + int (e - 1)))
      in if e = binades F + 2 then (if f = 0 then Inf negative else NaN)
         else Num (if negative then - value else value))"

definition load_float :: "memory \<Rightarrow> ftype \<Rightarrow> ptr \<Rightarrow> fp option" where
  "load_float m F p = do {
     bs \<leftarrow> load_bytes m p (float_bytes F);
     Some (decode F (le_value bs))
   }"

definition float_element ::
  "build \<Rightarrow> (fp \<Rightarrow> fp \<Rightarrow> bool) \<Rightarrow> u32 \<Rightarrow> cstring \<Rightarrow> u64 \<Rightarrow> nat \<Rightarrow> fp \<Rightarrow> fp \<Rightarrow> unity \<Rightarrow> flow option" where
  "float_element B close num_elements msg lineNumber left expected actual u =
     (if \<not> close expected actual then do {
        text \<leftarrow> UNITY_PRINT_EXPECTED_AND_ACTUAL_FLOAT B expected actual;
        Some (UNITY_FAIL_AND_BAIL (UnityAddMsgIfSpecified msg
          (emit (UnityPrint (Some UnityStrElement)
                 @ UnityPrintNumberUnsigned (ucast (num_elements - of_nat left - 1)) @ text)
            (UnityTestResultsFailBegin lineNumber u))))
      } else Some (Inr u))"

fun float_loop ::
  "memory \<Rightarrow> ftype \<Rightarrow> UNITY_FLAGS_T \<Rightarrow> (nat \<Rightarrow> fp \<Rightarrow> fp \<Rightarrow> unity \<Rightarrow> flow option) \<Rightarrow>
   nat \<Rightarrow> ptr \<Rightarrow> ptr \<Rightarrow> unity \<Rightarrow> flow option" where
  "float_loop m F flags step 0 ptr_expected ptr_actual u = Some (Inr u)"
| "float_loop m F flags step (Suc left) ptr_expected ptr_actual u = do {
     e \<leftarrow> load_float m F ptr_expected;
     a \<leftarrow> load_float m F ptr_actual;
     r \<leftarrow> step left e a u;
     (case r of
        Inl u \<Rightarrow> Some (Inl u)
      | Inr u \<Rightarrow>
          float_loop m F flags step left
            (if flags = UNITY_ARRAY_TO_ARRAY then advance ptr_expected (float_bytes F) else ptr_expected)
            (advance ptr_actual (float_bytes F)) u)
   }"

definition float_close :: "fp \<Rightarrow> fp \<Rightarrow> bool" where
  "float_close expected actual =
     UnityFloatsWithin (fmul C_float expected UNITY_FLOAT_PRECISION) expected actual"

definition double_close :: "fp \<Rightarrow> fp \<Rightarrow> bool" where
  "double_close expected actual =
     UnityDoublesWithin (fmul C_double expected UNITY_DOUBLE_PRECISION) expected actual"

definition UnityAssertEqualFloatArray ::
  "build \<Rightarrow> memory \<Rightarrow> ptr \<Rightarrow> ptr \<Rightarrow> u32 \<Rightarrow> cstring \<Rightarrow> u64 \<Rightarrow> UNITY_FLAGS_T \<Rightarrow> unity \<Rightarrow> flow option" where
  "UnityAssertEqualFloatArray B m expected actual num_elements msg lineNumber flags =
     array_guards (num_elements = 0) expected actual msg lineNumber
       (float_loop m C_float flags (float_element B float_close num_elements msg lineNumber)
          (unat num_elements) expected actual)"

definition UnityAssertEqualDoubleArray ::
  "memory \<Rightarrow> ptr \<Rightarrow> ptr \<Rightarrow> u32 \<Rightarrow> cstring \<Rightarrow> u64 \<Rightarrow> UNITY_FLAGS_T \<Rightarrow> unity \<Rightarrow> flow option" where
  "UnityAssertEqualDoubleArray m expected actual num_elements msg lineNumber flags =
     array_guards (num_elements = 0) expected actual msg lineNumber
       (float_loop m C_double flags (float_element With_double double_close num_elements msg lineNumber)
          (unat num_elements) expected actual)"

text \<open>The cell for a single value; the number is given by its representation.\<close>

definition UnityFloatToPtr :: "u32 \<Rightarrow> memory \<Rightarrow> (ptr \<times> memory) option" where
  "UnityFloatToPtr num m =
     (case m UnityQuickCompare of
        Some (Bytes old) \<Rightarrow>
          Some (Ptr UnityQuickCompare 0, m(UnityQuickCompare \<mapsto> Bytes (le_bytes 4 (ucast num) @ drop 4 old)))
      | _ \<Rightarrow> None)"

definition UnityDoubleToPtr :: "u64 \<Rightarrow> memory \<Rightarrow> (ptr \<times> memory) option" where
  "UnityDoubleToPtr num m =
     (case m UnityQuickCompare of
        Some (Bytes old) \<Rightarrow>
          Some (Ptr UnityQuickCompare 0, m(UnityQuickCompare \<mapsto> Bytes (le_bytes 8 num @ drop 8 old)))
      | _ \<Rightarrow> None)"

subsection \<open>The macros of \<open>unity_internals.h\<close>\<close>

text \<open>The arguments are given after their conversion to the type. The macros \<open>..._IS_...\<close> differ in
  the trait only. A number whose bytes are stored is given by its representation.\<close>

definition UNITY_TEST_ASSERT_FLOAT_WITHIN ::
  "build \<Rightarrow> fp \<Rightarrow> fp \<Rightarrow> fp \<Rightarrow> u64 \<Rightarrow> cstring \<Rightarrow> unity \<Rightarrow> flow option" where
  "UNITY_TEST_ASSERT_FLOAT_WITHIN B delta expected actual line message u =
     UnityAssertFloatsWithin B delta expected actual message line u"

definition UNITY_TEST_ASSERT_EQUAL_FLOAT ::
  "build \<Rightarrow> fp \<Rightarrow> fp \<Rightarrow> u64 \<Rightarrow> cstring \<Rightarrow> unity \<Rightarrow> flow option" where
  "UNITY_TEST_ASSERT_EQUAL_FLOAT B expected actual line message u =
     UNITY_TEST_ASSERT_FLOAT_WITHIN B (fmul C_float expected UNITY_FLOAT_PRECISION) expected actual line message u"

definition UNITY_TEST_ASSERT_EQUAL_FLOAT_ARRAY ::
  "build \<Rightarrow> memory \<Rightarrow> ptr \<Rightarrow> ptr \<Rightarrow> u32 \<Rightarrow> u64 \<Rightarrow> cstring \<Rightarrow> unity \<Rightarrow> flow option" where
  "UNITY_TEST_ASSERT_EQUAL_FLOAT_ARRAY B m expected actual num_elements line message u =
     UnityAssertEqualFloatArray B m expected actual num_elements message line UNITY_ARRAY_TO_ARRAY u"

definition UNITY_TEST_ASSERT_EACH_EQUAL_FLOAT ::
  "build \<Rightarrow> memory \<Rightarrow> u32 \<Rightarrow> ptr \<Rightarrow> u32 \<Rightarrow> u64 \<Rightarrow> cstring \<Rightarrow> unity \<Rightarrow> flow option" where
  "UNITY_TEST_ASSERT_EACH_EQUAL_FLOAT B m expected actual num_elements line message u =
     do {
       (p, m) \<leftarrow> UnityFloatToPtr expected m;
       UnityAssertEqualFloatArray B m p actual num_elements message line UNITY_ARRAY_TO_VAL u
     }"

definition UNITY_TEST_ASSERT_FLOAT_IS ::
  "build \<Rightarrow> UNITY_FLOAT_TRAIT_T \<Rightarrow> fp \<Rightarrow> u64 \<Rightarrow> cstring \<Rightarrow> unity \<Rightarrow> flow option" where
  "UNITY_TEST_ASSERT_FLOAT_IS B style actual line message u =
     UnityAssertFloatSpecial B actual message line style u"

text \<open>Without \<open>UNITY_INCLUDE_DOUBLE\<close> the macros for \<open>double\<close> report that and fail.\<close>

definition UNITY_TEST_FAIL_DOUBLE ::
  "u64 \<Rightarrow> unity \<Rightarrow> flow option" where
  "UNITY_TEST_FAIL_DOUBLE line u =
     Some (UnityFail (Some UnityStrErrDouble) line u)"

definition UNITY_TEST_ASSERT_DOUBLE_WITHIN ::
  "build \<Rightarrow> fp \<Rightarrow> fp \<Rightarrow> fp \<Rightarrow> u64 \<Rightarrow> cstring \<Rightarrow> unity \<Rightarrow> flow option" where
  "UNITY_TEST_ASSERT_DOUBLE_WITHIN B delta expected actual line message u =
     (if B = Without_double then UNITY_TEST_FAIL_DOUBLE line u
      else UnityAssertDoublesWithin delta expected actual message line u)"

definition UNITY_TEST_ASSERT_EQUAL_DOUBLE ::
  "build \<Rightarrow> fp \<Rightarrow> fp \<Rightarrow> u64 \<Rightarrow> cstring \<Rightarrow> unity \<Rightarrow> flow option" where
  "UNITY_TEST_ASSERT_EQUAL_DOUBLE B expected actual line message u =
     UNITY_TEST_ASSERT_DOUBLE_WITHIN B (fmul C_double expected UNITY_DOUBLE_PRECISION) expected actual line message u"

definition UNITY_TEST_ASSERT_EQUAL_DOUBLE_ARRAY ::
  "build \<Rightarrow> memory \<Rightarrow> ptr \<Rightarrow> ptr \<Rightarrow> u32 \<Rightarrow> u64 \<Rightarrow> cstring \<Rightarrow> unity \<Rightarrow> flow option" where
  "UNITY_TEST_ASSERT_EQUAL_DOUBLE_ARRAY B m expected actual num_elements line message u =
     (if B = Without_double then UNITY_TEST_FAIL_DOUBLE line u
      else UnityAssertEqualDoubleArray m expected actual num_elements message line UNITY_ARRAY_TO_ARRAY u)"

definition UNITY_TEST_ASSERT_EACH_EQUAL_DOUBLE ::
  "build \<Rightarrow> memory \<Rightarrow> u64 \<Rightarrow> ptr \<Rightarrow> u32 \<Rightarrow> u64 \<Rightarrow> cstring \<Rightarrow> unity \<Rightarrow> flow option" where
  "UNITY_TEST_ASSERT_EACH_EQUAL_DOUBLE B m expected actual num_elements line message u =
     (if B = Without_double then UNITY_TEST_FAIL_DOUBLE line u
      else do {
       (p, m) \<leftarrow> UnityDoubleToPtr expected m;
       UnityAssertEqualDoubleArray m p actual num_elements message line UNITY_ARRAY_TO_VAL u
     })"

definition UNITY_TEST_ASSERT_DOUBLE_IS ::
  "build \<Rightarrow> UNITY_FLOAT_TRAIT_T \<Rightarrow> fp \<Rightarrow> u64 \<Rightarrow> cstring \<Rightarrow> unity \<Rightarrow> flow option" where
  "UNITY_TEST_ASSERT_DOUBLE_IS B style actual line message u =
     (if B = Without_double then UNITY_TEST_FAIL_DOUBLE line u
      else UnityAssertDoubleSpecial actual message line style u)"

subsection \<open>The macros of \<open>unity.h\<close>\<close>

definition TEST_ASSERT_FLOAT_WITHIN ::
  "build \<Rightarrow> fp \<Rightarrow> fp \<Rightarrow> fp \<Rightarrow> u64 \<Rightarrow> unity \<Rightarrow> flow option" where
  "TEST_ASSERT_FLOAT_WITHIN B delta expected actual line =
     UNITY_TEST_ASSERT_FLOAT_WITHIN B delta expected actual line None"

definition TEST_ASSERT_FLOAT_WITHIN_MESSAGE ::
  "build \<Rightarrow> fp \<Rightarrow> fp \<Rightarrow> fp \<Rightarrow> cstring \<Rightarrow> u64 \<Rightarrow> unity \<Rightarrow> flow option" where
  "TEST_ASSERT_FLOAT_WITHIN_MESSAGE B delta expected actual message line =
     UNITY_TEST_ASSERT_FLOAT_WITHIN B delta expected actual line message"

definition TEST_ASSERT_EQUAL_FLOAT ::
  "build \<Rightarrow> fp \<Rightarrow> fp \<Rightarrow> u64 \<Rightarrow> unity \<Rightarrow> flow option" where
  "TEST_ASSERT_EQUAL_FLOAT B expected actual line =
     UNITY_TEST_ASSERT_EQUAL_FLOAT B expected actual line None"

definition TEST_ASSERT_EQUAL_FLOAT_MESSAGE ::
  "build \<Rightarrow> fp \<Rightarrow> fp \<Rightarrow> cstring \<Rightarrow> u64 \<Rightarrow> unity \<Rightarrow> flow option" where
  "TEST_ASSERT_EQUAL_FLOAT_MESSAGE B expected actual message line =
     UNITY_TEST_ASSERT_EQUAL_FLOAT B expected actual line message"

definition TEST_ASSERT_EQUAL_FLOAT_ARRAY ::
  "build \<Rightarrow> memory \<Rightarrow> ptr \<Rightarrow> ptr \<Rightarrow> u32 \<Rightarrow> u64 \<Rightarrow> unity \<Rightarrow> flow option" where
  "TEST_ASSERT_EQUAL_FLOAT_ARRAY B m expected actual num_elements line =
     UNITY_TEST_ASSERT_EQUAL_FLOAT_ARRAY B m expected actual num_elements line None"

definition TEST_ASSERT_EQUAL_FLOAT_ARRAY_MESSAGE ::
  "build \<Rightarrow> memory \<Rightarrow> ptr \<Rightarrow> ptr \<Rightarrow> u32 \<Rightarrow> cstring \<Rightarrow> u64 \<Rightarrow> unity \<Rightarrow> flow option" where
  "TEST_ASSERT_EQUAL_FLOAT_ARRAY_MESSAGE B m expected actual num_elements message line =
     UNITY_TEST_ASSERT_EQUAL_FLOAT_ARRAY B m expected actual num_elements line message"

definition TEST_ASSERT_EACH_EQUAL_FLOAT ::
  "build \<Rightarrow> memory \<Rightarrow> u32 \<Rightarrow> ptr \<Rightarrow> u32 \<Rightarrow> u64 \<Rightarrow> unity \<Rightarrow> flow option" where
  "TEST_ASSERT_EACH_EQUAL_FLOAT B m expected actual num_elements line =
     UNITY_TEST_ASSERT_EACH_EQUAL_FLOAT B m expected actual num_elements line None"

definition TEST_ASSERT_EACH_EQUAL_FLOAT_MESSAGE ::
  "build \<Rightarrow> memory \<Rightarrow> u32 \<Rightarrow> ptr \<Rightarrow> u32 \<Rightarrow> cstring \<Rightarrow> u64 \<Rightarrow> unity \<Rightarrow> flow option" where
  "TEST_ASSERT_EACH_EQUAL_FLOAT_MESSAGE B m expected actual num_elements message line =
     UNITY_TEST_ASSERT_EACH_EQUAL_FLOAT B m expected actual num_elements line message"

definition TEST_ASSERT_FLOAT_IS ::
  "build \<Rightarrow> UNITY_FLOAT_TRAIT_T \<Rightarrow> fp \<Rightarrow> u64 \<Rightarrow> unity \<Rightarrow> flow option" where
  "TEST_ASSERT_FLOAT_IS B style actual line =
     UNITY_TEST_ASSERT_FLOAT_IS B style actual line None"

definition TEST_ASSERT_FLOAT_IS_MESSAGE ::
  "build \<Rightarrow> UNITY_FLOAT_TRAIT_T \<Rightarrow> fp \<Rightarrow> cstring \<Rightarrow> u64 \<Rightarrow> unity \<Rightarrow> flow option" where
  "TEST_ASSERT_FLOAT_IS_MESSAGE B style actual message line =
     UNITY_TEST_ASSERT_FLOAT_IS B style actual line message"

definition TEST_ASSERT_DOUBLE_WITHIN ::
  "build \<Rightarrow> fp \<Rightarrow> fp \<Rightarrow> fp \<Rightarrow> u64 \<Rightarrow> unity \<Rightarrow> flow option" where
  "TEST_ASSERT_DOUBLE_WITHIN B delta expected actual line =
     UNITY_TEST_ASSERT_DOUBLE_WITHIN B delta expected actual line None"

definition TEST_ASSERT_DOUBLE_WITHIN_MESSAGE ::
  "build \<Rightarrow> fp \<Rightarrow> fp \<Rightarrow> fp \<Rightarrow> cstring \<Rightarrow> u64 \<Rightarrow> unity \<Rightarrow> flow option" where
  "TEST_ASSERT_DOUBLE_WITHIN_MESSAGE B delta expected actual message line =
     UNITY_TEST_ASSERT_DOUBLE_WITHIN B delta expected actual line message"

definition TEST_ASSERT_EQUAL_DOUBLE ::
  "build \<Rightarrow> fp \<Rightarrow> fp \<Rightarrow> u64 \<Rightarrow> unity \<Rightarrow> flow option" where
  "TEST_ASSERT_EQUAL_DOUBLE B expected actual line =
     UNITY_TEST_ASSERT_EQUAL_DOUBLE B expected actual line None"

definition TEST_ASSERT_EQUAL_DOUBLE_MESSAGE ::
  "build \<Rightarrow> fp \<Rightarrow> fp \<Rightarrow> cstring \<Rightarrow> u64 \<Rightarrow> unity \<Rightarrow> flow option" where
  "TEST_ASSERT_EQUAL_DOUBLE_MESSAGE B expected actual message line =
     UNITY_TEST_ASSERT_EQUAL_DOUBLE B expected actual line message"

definition TEST_ASSERT_EQUAL_DOUBLE_ARRAY ::
  "build \<Rightarrow> memory \<Rightarrow> ptr \<Rightarrow> ptr \<Rightarrow> u32 \<Rightarrow> u64 \<Rightarrow> unity \<Rightarrow> flow option" where
  "TEST_ASSERT_EQUAL_DOUBLE_ARRAY B m expected actual num_elements line =
     UNITY_TEST_ASSERT_EQUAL_DOUBLE_ARRAY B m expected actual num_elements line None"

definition TEST_ASSERT_EQUAL_DOUBLE_ARRAY_MESSAGE ::
  "build \<Rightarrow> memory \<Rightarrow> ptr \<Rightarrow> ptr \<Rightarrow> u32 \<Rightarrow> cstring \<Rightarrow> u64 \<Rightarrow> unity \<Rightarrow> flow option" where
  "TEST_ASSERT_EQUAL_DOUBLE_ARRAY_MESSAGE B m expected actual num_elements message line =
     UNITY_TEST_ASSERT_EQUAL_DOUBLE_ARRAY B m expected actual num_elements line message"

definition TEST_ASSERT_EACH_EQUAL_DOUBLE ::
  "build \<Rightarrow> memory \<Rightarrow> u64 \<Rightarrow> ptr \<Rightarrow> u32 \<Rightarrow> u64 \<Rightarrow> unity \<Rightarrow> flow option" where
  "TEST_ASSERT_EACH_EQUAL_DOUBLE B m expected actual num_elements line =
     UNITY_TEST_ASSERT_EACH_EQUAL_DOUBLE B m expected actual num_elements line None"

definition TEST_ASSERT_EACH_EQUAL_DOUBLE_MESSAGE ::
  "build \<Rightarrow> memory \<Rightarrow> u64 \<Rightarrow> ptr \<Rightarrow> u32 \<Rightarrow> cstring \<Rightarrow> u64 \<Rightarrow> unity \<Rightarrow> flow option" where
  "TEST_ASSERT_EACH_EQUAL_DOUBLE_MESSAGE B m expected actual num_elements message line =
     UNITY_TEST_ASSERT_EACH_EQUAL_DOUBLE B m expected actual num_elements line message"

definition TEST_ASSERT_DOUBLE_IS ::
  "build \<Rightarrow> UNITY_FLOAT_TRAIT_T \<Rightarrow> fp \<Rightarrow> u64 \<Rightarrow> unity \<Rightarrow> flow option" where
  "TEST_ASSERT_DOUBLE_IS B style actual line =
     UNITY_TEST_ASSERT_DOUBLE_IS B style actual line None"

definition TEST_ASSERT_DOUBLE_IS_MESSAGE ::
  "build \<Rightarrow> UNITY_FLOAT_TRAIT_T \<Rightarrow> fp \<Rightarrow> cstring \<Rightarrow> u64 \<Rightarrow> unity \<Rightarrow> flow option" where
  "TEST_ASSERT_DOUBLE_IS_MESSAGE B style actual message line =
     UNITY_TEST_ASSERT_DOUBLE_IS B style actual line message"

end
