(* ===== verification/Unity_Float_Scaling.thy ===== *)
theory Unity_Float_Scaling
  imports Unity_Float
begin

section \<open>Unity: the scaling of printed numbers\<close>

text \<open>
  The loops of \<open>UnityPrintFloat\<close> that multiply or divide a number by powers of ten until its integer part
  has the digits to print: they end for every finite number, in both builds, and the rounding of
  all their steps together changes the number by less than the digits show.
\<close>

subsection \<open>Constants\<close>

abbreviation (input) D :: "build \<Rightarrow> ftype" where "D \<equiv> UNITY_DOUBLE"

lemma ten_scaled: "max_scaled B = 10 * min_scaled B"
  by (cases B) simp_all

lemma representable_pow10:
  assumes "k \<le> 10"
  shows "representable F (10 ^ k)"
proof (rule representableI[of _ "5 ^ k" "int k"])
  show "10 ^ k = rat_of_int (5 ^ k) * two (int k)"
    by (simp flip: power_mult_distrib)
  have "(5 :: int) ^ k \<le> 5 ^ 10" using assms by (intro power_increasing) simp_all
  also have "\<dots> < 2 ^ precision F" by (cases F) simp_all
  finally show "\<bar>5 ^ k\<bar> < (2 :: int) ^ precision F" by simp
qed (cases F; simp)

lemma below_max:
  assumes "(x :: rat) < 2 ^ 100"
  shows "x < two (max_exp F + 1)"
proof -
  have "two 100 \<le> two (max_exp F + 1)" by (subst two_le) (cases F; simp add: max_exp_eq)
  moreover have "two 100 = 2 ^ 100" by simp
  ultimately show ?thesis using assms by (simp only:)
qed

lemma is_float_pow10: "k \<le> 10 \<Longrightarrow> is_float F (Num (10 ^ k))"
proof -
  assume "k \<le> 10"
  moreover from this have "(10 :: rat) ^ k \<le> 10 ^ 10" by (intro power_increasing) simp_all
  then have "(10 :: rat) ^ k < 2 ^ 100" by simp
  ultimately show ?thesis using below_max[of "10 ^ k" F] representable_pow10[of k F] by simp
qed

lemma is_float_of_int: "\<bar>n\<bar> < 2 ^ precision F \<Longrightarrow> is_float F (Num (of_int n))"
proof -
  assume n: "\<bar>n\<bar> < 2 ^ precision F"
  then have "(of_int \<bar>n\<bar> :: rat) < of_int (2 ^ precision F)" by (simp only: of_int_less_iff)
  moreover have "(2 :: rat) ^ precision F < 2 ^ 100" by (cases F) simp_all
  ultimately have "\<bar>of_int n :: rat\<bar> < 2 ^ 100" by simp
  then show ?thesis using below_max[of "\<bar>of_int n\<bar>" F] representable_of_int[OF n] by simp
qed

lemma scaled_small: "\<bar>max_scaled B\<bar> < 2 ^ precision (D B)" "0 < min_scaled B" "1 \<le> min_scaled B"
  by (cases B; simp)+

lemma of_int_fp_exact: "\<bar>n\<bar> < 2 ^ precision F \<Longrightarrow> of_int_fp F n = Num (of_int n)"
  using is_float_of_int fl_exact by (simp add: of_int_fp_def)

lemma of_int_fp_scaled [simp]:
  "of_int_fp (D B) (max_scaled B) = Num (of_int (max_scaled B))"
  "of_int_fp (D B) (min_scaled B) = Num (of_int (min_scaled B))"
  by (cases B; simp add: of_int_fp_exact)+

text \<open>Rounding keeps an order with a number of the type, in either direction.\<close>

lemma fl_le: "fl F x = Num y \<Longrightarrow> x \<le> b \<Longrightarrow> representable F b \<Longrightarrow> y \<le> b"
  by (auto simp: fl_def round_to_le split: if_splits)

lemma fl_ge: "fl F x = Num y \<Longrightarrow> b \<le> x \<Longrightarrow> representable F b \<Longrightarrow> b \<le> y"
  by (auto simp: fl_def round_to_ge split: if_splits)

lemma fl_less: "fl F x = Num y \<Longrightarrow> y < b \<Longrightarrow> representable F b \<Longrightarrow> x < b"
  using fl_ge[of F x y b] by (metis not_le)

lemma fl_greater: "fl F x = Num y \<Longrightarrow> b < y \<Longrightarrow> representable F b \<Longrightarrow> b < x"
  using fl_le[of F x y b] by (metis not_le)

lemma fl_relative:
  assumes "fl F x = Num y" "two (min_exp F) \<le> \<bar>x\<bar>"
  shows "\<bar>y - x\<bar> \<le> \<bar>x\<bar> / 2 ^ precision F"
  using round_to_relative[OF assms(2)] assms(1) by (simp add: fl_def split: if_splits)

lemma positive_float_ge:
  assumes "representable F x" "0 < x"
  shows "two (min_exp F - low_bits F) \<le> x"
proof -
  obtain k where k: "x = of_int k * two (min_exp F - low_bits F)" using grid_multiple[OF assms(1)] by blast
  then have "0 < k" using assms(2) by (metis of_int_0_less_iff two_pos zero_less_mult_pos2)
  then have "(1 :: rat) \<le> of_int k" by simp
  from mult_right_mono[OF this, of "two (min_exp F - low_bits F)"] show ?thesis using k by simp
qed

subsection \<open>Accumulated error\<close>

text \<open>\<open>y\<close> is \<open>x\<close> after \<open>i\<close> roundings, each of a relative error of at most half a unit.\<close>

definition slack :: "ftype \<Rightarrow> rat" where "slack F = 11 / 10 / 2 ^ precision F"

definition approx :: "ftype \<Rightarrow> nat \<Rightarrow> rat \<Rightarrow> rat \<Rightarrow> bool" where
  "approx F i y x \<longleftrightarrow> \<bar>y - x\<bar> \<le> of_nat i * slack F * x"

lemma approx_refl: "0 \<le> x \<Longrightarrow> approx F 0 x x"
  by (simp add: approx_def)

lemma approx_mono: "approx F i y x \<Longrightarrow> i \<le> j \<Longrightarrow> 0 \<le> x \<Longrightarrow> approx F j y x"
proof -
  assume a: "approx F i y x" "i \<le> j" "0 \<le> x"
  have "(of_nat i :: rat) * (slack F * x) \<le> of_nat j * (slack F * x)"
    using a by (intro mult_right_mono) (simp_all add: slack_def)
  then show "approx F j y x" using a(1) by (simp add: approx_def mult.assoc)
qed

lemma slack_small: "i \<le> 40 \<Longrightarrow> of_nat i * slack F \<le> 1 / 100000"
proof -
  assume "i \<le> 40"
  then have "of_nat i * slack F \<le> of_nat 40 * slack F" by (intro mult_right_mono) (simp_all add: slack_def)
  also have "\<dots> \<le> 1 / 100000" by (cases F) (simp_all add: slack_def)
  finally show ?thesis .
qed

lemma approx_step:
  assumes "approx F i y x" "i \<le> 40" "0 < c" "0 \<le> x" "\<bar>z - y * c\<bar> \<le> y * c / 2 ^ precision F"
  shows "approx F (Suc i) z (x * c)"
proof -
  have s: "of_nat i * slack F \<le> 1 / 100000" by (rule slack_small[OF assms(2)])
  have "y \<le> x + of_nat i * slack F * x" using assms(1) by (simp add: approx_def abs_le_iff)
  also have "\<dots> \<le> x + 1 / 100000 * x" using mult_right_mono[OF s assms(4)] by simp
  finally have "y \<le> 11 / 10 * x" using assms(4) by simp
  then have "y * c \<le> 11 / 10 * (x * c)" using mult_right_mono[of y "11 / 10 * x" c] assms(3) by simp
  then have "y * c / 2 ^ precision F \<le> 11 / 10 * (x * c) / 2 ^ precision F" by (rule divide_right_mono) simp
  then have "y * c / 2 ^ precision F \<le> slack F * (x * c)" by (simp add: slack_def)
  moreover have "\<bar>y * c - x * c\<bar> \<le> of_nat i * slack F * (x * c)"
  proof -
    have "\<bar>y * c - x * c\<bar> = \<bar>y - x\<bar> * c" using assms(3) by (simp add: abs_mult flip: left_diff_distrib)
    also have "\<dots> \<le> of_nat i * slack F * x * c"
      using assms(1,3) by (intro mult_right_mono) (simp_all add: approx_def)
    finally show ?thesis by (simp add: mult.assoc)
  qed
  ultimately have "\<bar>z - x * c\<bar> \<le> slack F * (x * c) + of_nat i * slack F * (x * c)"
    using assms(5) by linarith
  then show ?thesis by (simp add: approx_def distrib_right)
qed

subsection \<open>Numbers below one\<close>

text \<open>The exponent of a power of two above the bound of the first loop, and the number of its passes.\<close>

fun enlarge_exp :: "build \<Rightarrow> int" where
  "enlarge_exp Without_double = - 9"
| "enlarge_exp With_double = - 3"

fun enlarge_passes :: "build \<Rightarrow> nat" where
  "enlarge_passes Without_double = 5"
| "enlarge_passes With_double = 33"

lemma is_float_two:
  assumes "min_exp F - low_bits F \<le> e" "e \<le> max_exp F"
  shows "is_float F (Num (two e))"
  using representable_two[OF assms(1)] assms(2) by simp

lemma enlarge_exp_range: "min_exp (D B) - low_bits (D B) \<le> enlarge_exp B - 1" "enlarge_exp B \<le> max_exp (D B)"
  by (cases B; simp add: max_exp_eq)+

lemma enlarge_bound:
  obtains c where "fdiv (D B) (of_int_fp (D B) (max_scaled B)) e10 = Some (Num c)"
    "two (enlarge_exp B - 1) \<le> c" "c \<le> two (enlarge_exp B)"
    "\<And>x. representable (D B) x \<Longrightarrow> x < c \<Longrightarrow> x * 10000000000 < of_int (max_scaled B)"
proof -
  have "two (enlarge_exp B - 1) \<le> of_int (max_scaled B) / 10000000000"
      "of_int (max_scaled B) / 10000000000 \<le> two (enlarge_exp B)"
    by (cases B; simp add: power_int_minus)+
  from fl_between[OF this, of "D B"] obtain c where c: "fl (D B) (of_int (max_scaled B) / 10000000000) = Num c"
    "two (enlarge_exp B - 1) \<le> c" "c \<le> two (enlarge_exp B)"
    using is_float_two[of "D B"] enlarge_exp_range[of B] by auto
  show thesis
  proof (rule that)
    show "fdiv (D B) (of_int_fp (D B) (max_scaled B)) e10 = Some (Num c)" using c(1) by simp
    fix x assume "representable (D B) x" "x < c"
    then have "x < of_int (max_scaled B) / 10000000000" using fl_greater[OF c(1)] by blast
    then show "x * 10000000000 < of_int (max_scaled B)" by simp
  qed (rule c)+
qed

lemma enlarge_end:
  assumes "two (enlarge_exp B) \<le> x"
  shows "enlarge B (Num x) ex = Some (Num x, ex)"
proof -
  obtain c where c: "fdiv (D B) (of_int_fp (D B) (max_scaled B)) e10 = Some (Num c)" "c \<le> two (enlarge_exp B)"
    using enlarge_bound by blast
  then show ?thesis using assms by (subst enlarge.simps) simp
qed

lemma fl_product_approx:
  assumes "fl F (x * of_int c) = Num y" "representable F x" "0 < c" "approx F i x X" "i \<le> 40" "0 \<le> x" "0 \<le> X"
  shows "approx F (Suc i) y (X * of_int c)"
proof -
  have "y = round_to F (x * of_int c)" using assms(1) by (simp add: fl_def split: if_splits)
  then have "\<bar>y - x * of_int c\<bar> \<le> x * of_int c / 2 ^ precision F"
    using product_relative[OF assms(2), of c] assms(3,6) by (simp add: abs_mult)
  then show ?thesis using approx_step[OF assms(4,5)] assms(3,7) by simp
qed

lemma enlarge_result:
  assumes "two (enlarge_exp B - 33 * int k) \<le> x" "k \<le> enlarge_passes B"
    and "is_float (D B) (Num x)" "x \<le> of_int (max_scaled B)"
    and "approx (D B) i x X" "0 \<le> X" "i + k \<le> 40"
  shows "\<exists>j y. j \<le> k \<and> enlarge B (Num x) ex = Some (Num y, ex - 10 * int j) \<and> is_float (D B) (Num y)
    \<and> approx (D B) (i + j) y (X * 10 ^ (10 * j)) \<and> two (enlarge_exp B - 1) \<le> y \<and> y \<le> of_int (max_scaled B)"
  using assms
proof (induction k arbitrary: x X i ex)
  case 0
  then have g: "two (enlarge_exp B) \<le> x" by simp
  have "two (enlarge_exp B - 1) \<le> two (enlarge_exp B)" by simp
  then have "two (enlarge_exp B - 1) \<le> x" using g by linarith
  then show ?case using 0 enlarge_end[OF g, of ex] by (intro exI[of _ 0] exI[of _ x]) simp
next
  case (Suc k)
  obtain c where c: "fdiv (D B) (of_int_fp (D B) (max_scaled B)) e10 = Some (Num c)"
    "two (enlarge_exp B - 1) \<le> c" 
    "\<And>x. representable (D B) x \<Longrightarrow> x < c \<Longrightarrow> x * 10000000000 < of_int (max_scaled B)"
    using enlarge_bound by blast
  show ?case
  proof (cases "x < c")
    case False
    then have "enlarge B (Num x) ex = Some (Num x, ex)" using c(1) by (subst enlarge.simps) simp
    then show ?thesis using Suc.prems False c(2) by (intro exI[of _ 0] exI[of _ x]) simp
  next
    case True
    have pos: "0 < x" using Suc.prems(1) two_pos[of "enlarge_exp B - 33 * int (Suc k)"] by linarith
    have rep: "representable (D B) x" using Suc.prems(3) by simp
    let ?l = "two (enlarge_exp B - 33 * int k)"
    have "?l = two (enlarge_exp B - 33 * int (Suc k)) * two 33"
      unfolding two_add[symmetric] by (simp add: algebra_simps)
    also have "\<dots> \<le> x * two 33" using Suc.prems(1) by (intro mult_right_mono) simp_all
    also have "\<dots> \<le> x * of_int 10000000000" using pos by simp
    finally have low: "?l \<le> x * of_int 10000000000" .
    have high: "x * of_int 10000000000 \<le> of_int (max_scaled B)" using c(3)[OF rep True] by simp
    have "is_float (D B) (Num ?l)"
      using Suc.prems(2) enlarge_exp_range[of B] by (intro is_float_two) (cases B; simp add: max_exp_eq)+
    moreover have "is_float (D B) (Num (of_int (max_scaled B)))"
      using scaled_small[of B] by (intro is_float_of_int) simp
    ultimately obtain y where y: "fl (D B) (x * of_int 10000000000) = Num y" "?l \<le> y" "y \<le> of_int (max_scaled B)"
      using fl_between[OF low high] by blast
    have ap: "approx (D B) (Suc i) y (X * of_int 10000000000)"
      using fl_product_approx[OF y(1) rep _ Suc.prems(5)] Suc.prems(6,7) pos by simp
    have "is_float (D B) (Num y)" by (metis is_float_fl y(1))
    from Suc.IH[OF y(2) _ this y(3) ap, of "ex - 10"] obtain j z where j: "j \<le> k"
      "enlarge B (Num y) (ex - 10) = Some (Num z, ex - 10 - 10 * int j)" "is_float (D B) (Num z)"
      "approx (D B) (Suc i + j) z (X * of_int 10000000000 * 10 ^ (10 * j))"
      "two (enlarge_exp B - 1) \<le> z" "z \<le> of_int (max_scaled B)"
      using Suc.prems(2,6,7) by auto
    have "enlarge B (Num x) ex = Some (Num z, ex - 10 * int (Suc j))"
      using c(1) True y(1) j(2) by (subst enlarge.simps) (simp add: algebra_simps)
    then show ?thesis
      using j by (intro exI[of _ "Suc j"] exI[of _ z]) (simp add: power_add algebra_simps)
  qed
qed

lemma enlarge_small:
  assumes "is_float (D B) (Num x)" "0 < x" "x < 1"
  shows "\<exists>j y. j \<le> enlarge_passes B \<and> enlarge B (Num x) 0 = Some (Num y, - (10 * int j)) \<and> is_float (D B) (Num y)
    \<and> approx (D B) j y (x * 10 ^ (10 * j)) \<and> two (enlarge_exp B - 1) \<le> y \<and> y \<le> of_int (max_scaled B)"
proof -
  have "two (enlarge_exp B - 33 * int (enlarge_passes B)) \<le> two (min_exp (D B) - low_bits (D B))"
    by (subst two_le) (cases B; simp)
  also have "\<dots> \<le> x" using assms by (intro positive_float_ge) simp_all
  finally have low: "two (enlarge_exp B - 33 * int (enlarge_passes B)) \<le> x" .
  have "(1 :: rat) \<le> of_int (max_scaled B)" by (cases B) simp_all
  then have "x \<le> of_int (max_scaled B)" using assms(3) by linarith
  moreover have "enlarge_passes B \<le> 40" by (cases B) simp_all
  ultimately show ?thesis
    using enlarge_result[OF low order_refl assms(1), of 0 x 0] assms(2) by (simp add: approx_refl)
qed

lemma is_float_max: "is_float (D B) (Num (of_int (max_scaled B)))"
  using scaled_small(1) by (rule is_float_of_int)

lemma is_float_min: "is_float (D B) (Num (of_int (min_scaled B)))"
  by (rule is_float_of_int) (cases B; simp)

lemma scaled_pos: "(0 :: rat) < of_int (min_scaled B)" "(0 :: rat) < of_int (max_scaled B)"
  by (cases B; simp)+

lemma is_float_0: "is_float F (Num 0)"
  using is_float_of_int[of 0 F] by simp

lemma find_factor_result:
  assumes "is_float (D B) (Num y)" "two (enlarge_exp B - 1) \<le> y" "y * 10 ^ j \<le> of_int (max_scaled B)"
    and "j + k = 10"
  shows "\<exists>m z. find_factor B (Num y) (Num (10 ^ j)) ex = Some (Num (10 ^ m), ex - (int m - int j))
    \<and> m \<le> 10 \<and> fl (D B) (y * 10 ^ m) = Num z \<and> of_int (min_scaled B) \<le> z \<and> z \<le> of_int (max_scaled B)"
  using assms(3,4)
proof (induction k arbitrary: j ex)
  case (Suc k)
  have pos: "0 < y" using assms(2) two_pos[of "enlarge_exp B - 1"] by linarith
  obtain z where z: "fl (D B) (y * 10 ^ j) = Num z" "0 \<le> z" "z \<le> of_int (max_scaled B)"
    using fl_between[OF _ Suc.prems(1) is_float_0 is_float_max] pos by auto
  show ?case
  proof (cases "z < of_int (min_scaled B)")
    case True
    then have "y * 10 ^ j < of_int (min_scaled B)"
      using fl_less[OF z(1)] is_float_min by simp
    then have "y * 10 ^ Suc j \<le> of_int (max_scaled B)" by (simp add: ten_scaled)
    from Suc.IH[OF this, of "ex - 1"] Suc.prems(2) obtain m z' where m:
      "find_factor B (Num y) (Num (10 ^ Suc j)) (ex - 1) = Some (Num (10 ^ m), ex - 1 - (int m - int (Suc j)))"
      "m \<le> 10" "fl (D B) (y * 10 ^ m) = Num z'" "of_int (min_scaled B) \<le> z'" "z' \<le> of_int (max_scaled B)"
      by auto
    have "fl (D B) (10 ^ j * 10) = Num (10 ^ Suc j)"
      using fl_exact[OF is_float_pow10[of "Suc j" "D B"]] Suc.prems(2) by (simp add: mult.commute)
    then have "find_factor B (Num y) (Num (10 ^ j)) ex = find_factor B (Num y) (Num (10 ^ Suc j)) (ex - 1)"
      using True z(1) by (subst find_factor.simps) simp
    then show ?thesis using m by (intro exI[of _ m] exI[of _ z']) simp
  next
    case False
    then have "find_factor B (Num y) (Num (10 ^ j)) ex = Some (Num (10 ^ j), ex)"
      using z(1) by (subst find_factor.simps) simp
    then show ?thesis using False z Suc.prems(2) by (intro exI[of _ j] exI[of _ z]) simp
  qed
next
  case 0
  have pos: "0 < y" using assms(2) two_pos[of "enlarge_exp B - 1"] by linarith
  obtain z where z: "fl (D B) (y * 10 ^ j) = Num z" "0 \<le> z" "z \<le> of_int (max_scaled B)"
    using fl_between[OF _ 0(1) is_float_0 is_float_max] pos by auto
  have "of_int (min_scaled B) \<le> two (enlarge_exp B - 1) * 10 ^ 10"
    by (cases B) (simp_all add: power_int_minus)
  also have "\<dots> \<le> y * 10 ^ 10" using assms(2) by (rule mult_right_mono) simp
  finally have "of_int (min_scaled B) \<le> y * 10 ^ j" using 0(2) by simp
  from fl_ge[OF z(1) this] have ge: "of_int (min_scaled B) \<le> z" using is_float_min by simp
  then have "find_factor B (Num y) (Num (10 ^ j)) ex = Some (Num (10 ^ j), ex)"
    using z(1) by (subst find_factor.simps) simp
  then show ?case using ge z 0(2) by (intro exI[of _ j] exI[of _ z]) simp
qed

subsection \<open>Large numbers\<close>

fun reduce_exp :: "build \<Rightarrow> int" where
  "reduce_exp Without_double = 53"
| "reduce_exp With_double = 59"

fun reduce_passes :: "build \<Rightarrow> nat" where
  "reduce_passes Without_double = 3"
| "reduce_passes With_double = 30"

lemma reduce_bound:
  obtains d where "fmul (D B) (of_int_fp (D B) (min_scaled B)) e10 = Num d"
    "two (reduce_exp B) \<le> d" "d \<le> two (reduce_exp B + 1)"
    "\<And>x. representable (D B) x \<Longrightarrow> d < x \<Longrightarrow> of_int (min_scaled B) < x / 10000000000"
proof -
  have b: "two (reduce_exp B) \<le> of_int (min_scaled B) * 10000000000"
      "of_int (min_scaled B) * 10000000000 \<le> two (reduce_exp B + 1)"
    by (cases B; simp)+
  have "is_float (D B) (Num (two (reduce_exp B)))" "is_float (D B) (Num (two (reduce_exp B + 1)))"
    by (rule is_float_two; cases B; simp add: max_exp_eq)+
  from fl_between[OF b this] obtain d where d: "fl (D B) (of_int (min_scaled B) * 10000000000) = Num d"
    "two (reduce_exp B) \<le> d" "d \<le> two (reduce_exp B + 1)" by blast
  show thesis
  proof (rule that)
    show "fmul (D B) (of_int_fp (D B) (min_scaled B)) e10 = Num d" using d(1) by simp
    fix x assume "representable (D B) x" "d < x"
    then show "of_int (min_scaled B) < x / 10000000000" using fl_less[OF d(1)] by fastforce
  qed (rule d)+
qed

lemma fl_quotient_approx:
  assumes "fl F (x / c) = Num y" "0 < c" "two (min_exp F) \<le> x / c" "approx F i x X" "i \<le> 40" "0 \<le> X"
  shows "approx F (Suc i) y (X / c)"
proof -
  have "0 \<le> x / c" using assms(3) two_pos[of "min_exp F"] by linarith
  then have "\<bar>x / c\<bar> = x / c" by (rule abs_of_nonneg)
  then have "\<bar>y - x / c\<bar> \<le> x / c / 2 ^ precision F"
    using fl_relative[OF assms(1)] assms(3) by (simp only:)
  then have "\<bar>y - x * (1 / c)\<bar> \<le> x * (1 / c) / 2 ^ precision F" by simp
  then show ?thesis using approx_step[OF assms(4,5), of "1 / c"] assms(2,6) by simp
qed

lemma min_exp_le_1: "1 \<le> x \<Longrightarrow> two (min_exp F) \<le> x"
proof -
  have "two (min_exp F) \<le> two 0" by (subst two_le) (cases F; simp)
  then show "1 \<le> x \<Longrightarrow> two (min_exp F) \<le> x" by simp
qed

lemma min_scaled_ge_1: "(1 :: rat) \<le> of_int (min_scaled B)"
  by (cases B) simp_all

lemma reduce_result:
  assumes "x \<le> two (reduce_exp B + 33 * int k)" "k \<le> reduce_passes B"
    and "is_float (D B) (Num x)" "of_int (min_scaled B) \<le> x" "approx (D B) i x X" "0 \<le> X" "i + k \<le> 40"
  shows "\<exists>j y. j \<le> k \<and> reduce B (Num x) ex = Some (Num y, ex + 10 * int j) \<and> is_float (D B) (Num y)
    \<and> approx (D B) (i + j) y (X / 10 ^ (10 * j)) \<and> of_int (min_scaled B) \<le> y \<and> y \<le> two (reduce_exp B + 1)"
  using assms
proof (induction k arbitrary: x X i ex)
  case 0
  obtain d where d: "fmul (D B) (of_int_fp (D B) (min_scaled B)) e10 = Num d" "two (reduce_exp B) \<le> d"
    using reduce_bound by blast
  then have "reduce B (Num x) ex = Some (Num x, ex)" using 0(1) by (subst reduce.simps) simp
  moreover have "x \<le> two (reduce_exp B + 1)"
    by (rule order_trans[of _ "two (reduce_exp B)"]) (use 0(1) in simp_all)
  ultimately show ?case using 0 by (intro exI[of _ 0] exI[of _ x]) simp
next
  case (Suc k)
  obtain d where d: "fmul (D B) (of_int_fp (D B) (min_scaled B)) e10 = Num d" "d \<le> two (reduce_exp B + 1)"
    "\<And>x. representable (D B) x \<Longrightarrow> d < x \<Longrightarrow> of_int (min_scaled B) < x / 10000000000"
    using reduce_bound by blast
  show ?case
  proof (cases "d < x")
    case False
    then have "reduce B (Num x) ex = Some (Num x, ex)" using d(1) by (subst reduce.simps) simp
    then show ?thesis using Suc.prems False d(2) by (intro exI[of _ 0] exI[of _ x]) simp
  next
    case True
    have low: "of_int (min_scaled B) \<le> x / 10000000000" using d(3)[OF _ True] Suc.prems(3) by simp
    let ?h = "two (reduce_exp B + 33 * int k)"
    have "two (reduce_exp B + 33 * int (Suc k)) = ?h * two 33"
      unfolding two_add[symmetric] by (simp add: algebra_simps)
    then have "x \<le> ?h * two 33" using Suc.prems(1) by simp
    also have "\<dots> \<le> ?h * 10000000000" by (intro mult_left_mono) simp_all
    finally have high: "x / 10000000000 \<le> ?h" by simp
    have "is_float (D B) (Num ?h)"
      using Suc.prems(2) by (intro is_float_two) (cases B; simp add: max_exp_eq)+
    then obtain y where y: "fl (D B) (x / 10000000000) = Num y" "of_int (min_scaled B) \<le> y" "y \<le> ?h"
      using fl_between[OF low high is_float_min] by blast
    have "two (min_exp (D B)) \<le> x / 10000000000"
      using low min_scaled_ge_1[of B] by (intro min_exp_le_1) linarith
    then have ap: "approx (D B) (Suc i) y (X / 10000000000)"
      using fl_quotient_approx[OF y(1) _ _ Suc.prems(5)] Suc.prems(6,7) by simp
    have "is_float (D B) (Num y)" by (metis is_float_fl y(1))
    from Suc.IH[OF y(3) _ this y(2) ap, of "ex + 10"] obtain j z where j: "j \<le> k"
      "reduce B (Num y) (ex + 10) = Some (Num z, ex + 10 + 10 * int j)" "is_float (D B) (Num z)"
      "approx (D B) (Suc i + j) z (X / 10000000000 / 10 ^ (10 * j))"
      "of_int (min_scaled B) \<le> z" "z \<le> two (reduce_exp B + 1)"
      using Suc.prems(2,6,7) by auto
    have "reduce B (Num x) ex = Some (Num z, ex + 10 * int (Suc j))"
      using d(1) True y(1) j(2) by (subst reduce.simps) (simp add: algebra_simps)
    then show ?thesis
      using j by (intro exI[of _ "Suc j"] exI[of _ z]) (simp add: power_add algebra_simps)
  qed
qed

lemma find_float_divisor_result:
  assumes "is_float (D B) (Num y)" "y \<le> two (reduce_exp B + 1)" "of_int (min_scaled B) \<le> y / 10 ^ j"
    and "j + k = 10"
  shows "\<exists>m z. find_float_divisor B (Num y) (Num (10 ^ j)) ex = Some (Num (10 ^ m), ex + (int m - int j))
    \<and> m \<le> 10 \<and> fl (D B) (y / 10 ^ m) = Num z \<and> of_int (min_scaled B) \<le> y / 10 ^ m
    \<and> of_int (min_scaled B) \<le> z \<and> z \<le> of_int (max_scaled B)"
  using assms(3,4)
proof (induction k arbitrary: j ex)
  case 0
  have "y / 10 ^ j \<le> two (reduce_exp B + 1) / 10 ^ j" using assms(2) by (rule divide_right_mono) simp
  also have "\<dots> \<le> of_int (max_scaled B)" using 0(2) by (cases B) simp_all
  finally have "y / 10 ^ j \<le> of_int (max_scaled B)" .
  from fl_between[OF 0(1) this is_float_min is_float_max] obtain z where
    z: "fl (D B) (y / 10 ^ j) = Num z" "of_int (min_scaled B) \<le> z" "z \<le> of_int (max_scaled B)" by blast
  then have "find_float_divisor B (Num y) (Num (10 ^ j)) ex = Some (Num (10 ^ j), ex)"
    by (subst find_float_divisor.simps) simp
  then show ?case using z 0 by (intro exI[of _ j] exI[of _ z]) simp
next
  case (Suc k)
  have pos: "0 < y"
  proof -
    have "0 < y / 10 ^ j" using Suc.prems(1) scaled_pos(1)[of B] by linarith
    then show ?thesis by (simp add: zero_less_divide_iff)
  qed
  have "y \<le> y * 10 ^ j" using pos by simp
  then have "y / 10 ^ j \<le> y" by (simp add: divide_le_eq)
  from fl_between[OF Suc.prems(1) this is_float_min assms(1)] obtain z where
    z: "fl (D B) (y / 10 ^ j) = Num z" "of_int (min_scaled B) \<le> z" by blast
  show ?case
  proof (cases "of_int (max_scaled B) < z")
    case False
    then have "find_float_divisor B (Num y) (Num (10 ^ j)) ex = Some (Num (10 ^ j), ex)"
      using z(1) by (subst find_float_divisor.simps) simp
    then show ?thesis using False z Suc.prems by (intro exI[of _ j] exI[of _ z]) simp
  next
    case True
    have "of_int (max_scaled B) < y / 10 ^ j"
      using fl_greater[OF z(1) True] is_float_max by simp
    then have "of_int (min_scaled B) \<le> y / 10 ^ Suc j"
      by (simp add: ten_scaled field_simps)
    from Suc.IH[OF this, of "ex + 1"] Suc.prems(2) obtain m z' where m:
      "find_float_divisor B (Num y) (Num (10 ^ Suc j)) (ex + 1) = Some (Num (10 ^ m), ex + 1 + (int m - int (Suc j)))"
      "m \<le> 10" "fl (D B) (y / 10 ^ m) = Num z'" "of_int (min_scaled B) \<le> y / 10 ^ m"
      "of_int (min_scaled B) \<le> z'" "z' \<le> of_int (max_scaled B)"
      by auto
    have "fl (D B) (10 ^ j * 10) = Num (10 ^ Suc j)"
      using fl_exact[OF is_float_pow10[of "Suc j" "D B"]] Suc.prems(2) by (simp add: mult.commute)
    then have "find_float_divisor B (Num y) (Num (10 ^ j)) ex = find_float_divisor B (Num y) (Num (10 ^ Suc j)) (ex + 1)"
      using True z(1) by (subst find_float_divisor.simps) simp
    then show ?thesis using m by (intro exI[of _ m] exI[of _ z']) simp
  qed
qed

subsection \<open>Numbers in between\<close>

lemma int_power_le: "(10 :: int) ^ a \<le> 10 ^ b \<Longrightarrow> a \<le> b"
  by simp

lemma max_scaled_pow: "max_scaled B \<le> 10 ^ 9"
  by (cases B) simp_all

lemma enlarge_int_result:
  assumes "10 ^ j \<le> n" "n \<le> max_scaled B" "j + k = 10"
  shows "\<exists>m. enlarge_int B n (Num (10 ^ j)) ex = Some (n * 10 ^ m, Num (10 ^ (j + m)), ex - int m)
    \<and> j + m \<le> 9 \<and> min_scaled B \<le> n * 10 ^ m \<and> n * 10 ^ m \<le> max_scaled B
    \<and> (m = 0 \<or> n * 10 ^ (m - 1) < min_scaled B)"
  using assms
proof (induction k arbitrary: n j ex)
  case 0
  then have "(10 :: int) ^ j \<le> 10 ^ 9" using max_scaled_pow[of B] by linarith
  then show ?case using 0 int_power_le[of j 9] by simp
next
  case (Suc k)
  show ?case
  proof (cases "n < min_scaled B")
    case False
    have "(10 :: int) ^ j \<le> 10 ^ 9" using Suc.prems max_scaled_pow[of B] by linarith
    then have "j \<le> 9" by (rule int_power_le)
    moreover have "enlarge_int B n (Num (10 ^ j)) ex = Some (n, Num (10 ^ j), ex)"
      using False by (subst enlarge_int.simps) simp
    ultimately show ?thesis using False Suc.prems by (intro exI[of _ 0]) simp
  next
    case True
    have le: "n * 10 \<le> max_scaled B" using True by (simp add: ten_scaled)
    moreover have "0 < n" using Suc.prems(1) zero_less_power[of "10 :: int" j] by linarith
    ultimately have "int32 (n * 10) = Some (n * 10)"
      using max_scaled_pow[of B] by (simp add: int32_def)
    moreover have "fl (D B) (10 ^ j * 10) = Num (10 ^ Suc j)"
      using fl_exact[OF is_float_pow10[of "Suc j" "D B"]] Suc.prems(3) by (simp add: mult.commute)
    ultimately have run: "enlarge_int B n (Num (10 ^ j)) ex = enlarge_int B (n * 10) (Num (10 ^ Suc j)) (ex - 1)"
      using True by (subst enlarge_int.simps) simp
    have "10 ^ Suc j \<le> n * 10" "Suc j + k = 10" using Suc.prems by simp_all
    from Suc.IH[OF this(1) le this(2), of "ex - 1"] obtain m where m:
      "enlarge_int B (n * 10) (Num (10 ^ Suc j)) (ex - 1) = Some (n * 10 * 10 ^ m, Num (10 ^ (Suc j + m)), ex - 1 - int m)"
      "Suc j + m \<le> 9" "min_scaled B \<le> n * 10 * 10 ^ m" "n * 10 * 10 ^ m \<le> max_scaled B"
      "m = 0 \<or> n * 10 * 10 ^ (m - 1) < min_scaled B" by blast
    have "n * 10 ^ m < min_scaled B" using m(5) True by (cases m) (simp_all add: mult.assoc)
    then show ?thesis using run m by (intro exI[of _ "Suc m"]) (simp add: mult.assoc)
  qed
qed

text \<open>The fraction of a number of the type is one too.\<close>

lemma representable_fraction:
  assumes "representable F x" "0 \<le> x"
  shows "representable F (x - of_int \<lfloor>x\<rfloor>)"
proof -
  obtain m e where x: "x = of_int m * two e" "\<bar>m\<bar> < 2 ^ precision F" "min_exp F - low_bits F \<le> e"
    using assms(1) by (auto simp: representable_def)
  show ?thesis
  proof (cases "0 \<le> e")
    case True
    then obtain k where "two e = of_int k" using two_int by blast
    then have "x = of_int (m * k)" using x(1) by simp
    then show ?thesis by (metis diff_self floor_of_int representable_0)
  next
    case False
    define s where "s = nat (- e)"
    have e: "two e = 1 / 2 ^ s" using False by (simp add: s_def power_int_def field_simps)
    have m: "0 \<le> m" using assms(2) x(1) two_pos[of e] by (auto simp: zero_le_mult_iff)
    have "x = of_int m / of_int (2 ^ s)" using x(1) e by simp
    then have fl: "\<lfloor>x\<rfloor> = m div 2 ^ s" by (simp only: floor_divide_of_int_eq)
    have "m = m div 2 ^ s * 2 ^ s + m mod 2 ^ s" by (rule div_mult_mod_eq[symmetric])
    then have "(of_int m :: rat) = of_int (m div 2 ^ s * 2 ^ s + m mod 2 ^ s)" by (simp only:)
    then have "(of_int m :: rat) = of_int (m div 2 ^ s) * 2 ^ s + of_int (m mod 2 ^ s)"
      by (simp only: of_int_add of_int_mult of_int_numeral of_int_power)
    then have "of_int m / 2 ^ s - of_int (m div 2 ^ s) = (of_int (m mod 2 ^ s) / 2 ^ s :: rat)"
      by (simp add: field_simps)
    then have "x - of_int \<lfloor>x\<rfloor> = of_int (m mod 2 ^ s) * two e"
      unfolding fl using x(1) e by simp
    moreover have "m mod 2 ^ s \<le> m" using m by (simp add: zmod_le_nonneg_dividend)
    ultimately show ?thesis using x(2,3) m by (intro representableI[of _ "m mod 2 ^ s" e]) simp_all
  qed
qed

subsection \<open>Scaling\<close>

text \<open>The scaled number stands for \<open>x\<close> times a power of ten, up to the rounding of the operations.\<close>

definition scaled_near :: "build \<Rightarrow> rat \<Rightarrow> rat \<Rightarrow> int \<Rightarrow> bool" where
  "scaled_near B x y ex \<longleftrightarrow>
     approx (D B) (Suc (enlarge_passes B)) y (x * 10 powi (- ex)) \<and> of_int (min_scaled B) \<le> y
     \<and> y \<le> of_int (max_scaled B) \<and> \<bar>ex\<bar> \<le> 400"

lemma ten_powi: "10 powi (10 * int j + int m) = (10 :: rat) ^ (10 * j) * 10 ^ m"
proof -
  have "10 * int j + int m = int (10 * j + m)" by simp
  then show ?thesis by (simp only: power_int_of_nat power_add)
qed

lemma passes: "enlarge_passes B \<le> 33" "Suc (reduce_passes B) \<le> Suc (enlarge_passes B)" "reduce_passes B \<le> 30"
  by (cases B; simp)+

lemma scale_small:
  assumes "is_float (D B) (Num x)" "0 < x" "x < 1"
  shows "\<exists>z ex. scale_number B (Num x) = Some (0, Num z, ex) \<and> is_float (D B) (Num z) \<and> 0 \<le> z
    \<and> scaled_near B x z ex"
proof -
  obtain j y where j: "j \<le> enlarge_passes B" "enlarge B (Num x) 0 = Some (Num y, - (10 * int j))"
    "is_float (D B) (Num y)" "approx (D B) j y (x * 10 ^ (10 * j))" "two (enlarge_exp B - 1) \<le> y"
    "y \<le> of_int (max_scaled B)"
    using enlarge_small[OF assms] by blast
  obtain m z where m: "find_factor B (Num y) (Num 1) (- (10 * int j)) = Some (Num (10 ^ m), - (10 * int j) - int m)"
    "m \<le> 10" "fl (D B) (y * 10 ^ m) = Num z" "of_int (min_scaled B) \<le> z" "z \<le> of_int (max_scaled B)"
    using find_factor_result[OF j(3,5), of 0 10 "- (10 * int j)"] j(6) by auto
  have y: "0 \<le> y" using j(5) two_pos[of "enlarge_exp B - 1"] by linarith
  have run: "scale_number B (Num x) = Some (0, Num z, - (10 * int j) - int m)"
    using assms(3) j(2) m(1,3) by (simp add: scale_number_def)
  have "approx (D B) (Suc j) z (x * 10 ^ (10 * j) * of_int (10 ^ m))"
    using fl_product_approx[of "D B" y "10 ^ m" z j "x * 10 ^ (10 * j)"] m(3) j(1,3,4) y assms(2) passes(1)[of B] by simp
  then have "approx (D B) (Suc (enlarge_passes B)) z (x * 10 ^ (10 * j) * of_int (10 ^ m))"
    by (rule approx_mono) (use j(1) assms(2) in simp_all)
  moreover have "x * 10 ^ (10 * j) * of_int (10 ^ m) = x * 10 powi (- (- (10 * int j) - int m))"
    using ten_powi[of j m] by (simp add: add.commute)
  moreover have "\<bar>- (10 * int j) - int m\<bar> \<le> 400" using j(1) passes(1)[of B] m(2) by simp
  moreover have "is_float (D B) (Num z)" by (metis is_float_fl m(3))
  moreover have "0 \<le> z" using m(4) scaled_pos(1)[of B] by linarith
  ultimately show ?thesis
    using run m(4,5) by (intro exI[of _ z] exI[of _ "- (10 * int j) - int m"]) (simp only: scaled_near_def simp_thms)
qed

lemma scale_large:
  assumes "is_float (D B) (Num x)" "of_int (max_scaled B) < x"
  shows "\<exists>z ex. scale_number B (Num x) = Some (0, Num z, ex) \<and> is_float (D B) (Num z) \<and> 0 \<le> z
    \<and> scaled_near B x z ex"
proof -
  have x: "of_int (min_scaled B) \<le> x" "1 \<le> x" "0 \<le> x"
    using assms(2) scaled_pos(1)[of B] min_scaled_ge_1[of B] by (simp_all add: ten_scaled)
  have "x < two (max_exp (D B) + 1)" using assms(1) x(3) by simp
  also have "\<dots> \<le> two (reduce_exp B + 33 * int (reduce_passes B))"
    by (subst two_le) (cases B; simp add: max_exp_eq)
  finally have "x \<le> two (reduce_exp B + 33 * int (reduce_passes B))" by simp
  from reduce_result[OF this order_refl assms(1) x(1) approx_refl[OF x(3)] x(3), of 0] obtain j y where
    j: "j \<le> reduce_passes B" "reduce B (Num x) 0 = Some (Num y, 10 * int j)"
    "is_float (D B) (Num y)" "approx (D B) j y (x / 10 ^ (10 * j))" "of_int (min_scaled B) \<le> y"
    "y \<le> two (reduce_exp B + 1)"
    using passes(3)[of B] by auto
  obtain m z where m: "find_float_divisor B (Num y) (Num 1) (10 * int j) = Some (Num (10 ^ m), 10 * int j + int m)"
    "m \<le> 10" "fl (D B) (y / 10 ^ m) = Num z" "of_int (min_scaled B) \<le> y / 10 ^ m"
    "of_int (min_scaled B) \<le> z" "z \<le> of_int (max_scaled B)"
    using find_float_divisor_result[OF j(3,6), of 0 10 "10 * int j"] j(5) by auto
  have run: "scale_number B (Num x) = Some (0, Num z, 10 * int j + int m)"
    using assms(2) x(2) j(2) m(1,3) by (simp add: scale_number_def)
  have "two (min_exp (D B)) \<le> y / 10 ^ m" using m(4) min_scaled_ge_1[of B] by (intro min_exp_le_1) linarith
  then have "approx (D B) (Suc j) z (x / 10 ^ (10 * j) / 10 ^ m)"
    using fl_quotient_approx[OF m(3) _ _ j(4)] j(1) x(3) passes(3)[of B] by simp
  then have "approx (D B) (Suc (enlarge_passes B)) z (x / 10 ^ (10 * j) / 10 ^ m)"
    by (rule approx_mono) (use j(1) x(3) passes(2)[of B] in simp_all)
  moreover have "x / 10 ^ (10 * j) / 10 ^ m = x * 10 powi (- (10 * int j + int m))"
    by (simp only: ten_powi power_int_minus) (simp add: field_simps)
  moreover have "\<bar>10 * int j + int m\<bar> \<le> 400" using j(1) passes(3)[of B] m(2) by simp
  moreover have "is_float (D B) (Num z)" by (metis is_float_fl m(3))
  moreover have "0 \<le> z" using m(5) scaled_pos(1)[of B] by linarith
  ultimately show ?thesis
    using run m(5,6) by (intro exI[of _ z] exI[of _ "10 * int j + int m"]) (simp only: scaled_near_def simp_thms)
qed

lemma min_scaled_pow: "\<exists>s. min_scaled B = 10 ^ s"
  by (cases B) (rule exI[of _ 6], simp, rule exI[of _ 8], simp)

lemma next_multiple:
  assumes "(n :: int) * 10 ^ k < 10 ^ s" "1 \<le> n"
  shows "(n + 1) * 10 ^ k \<le> 10 ^ s"
proof -
  have "(1 :: int) * 10 ^ k \<le> n * 10 ^ k" using assms(2) by (rule mult_right_mono) simp
  then have "(10 :: int) ^ k < 10 ^ s" using assms(1) by linarith
  then have "(10 :: int) ^ s = 10 ^ (s - k) * 10 ^ k" by (simp flip: power_add)
  then have "n < 10 ^ (s - k)" using assms(1) by simp
  then have "(n + 1) * 10 ^ k \<le> 10 ^ (s - k) * 10 ^ k" by (intro mult_right_mono) simp_all
  then show ?thesis using \<open>10 ^ s = 10 ^ (s - k) * 10 ^ k\<close> by simp
qed

lemma scale_middle:
  assumes "is_float (D B) (Num x)" "1 \<le> x" "x \<le> of_int (max_scaled B)"
  shows "\<exists>n z ex. scale_number B (Num x) = Some (n, Num z, ex) \<and> is_float (D B) (Num z) \<and> 0 \<le> z \<and> 0 \<le> n
    \<and> n \<le> max_scaled B \<and> scaled_near B x (of_int n + z) ex \<and> (x = of_int \<lfloor>x\<rfloor> \<longrightarrow> z = 0 \<and> of_int n = x * 10 powi (- ex))"
proof -
  let ?n = "\<lfloor>x\<rfloor>" and ?f = "x - of_int \<lfloor>x\<rfloor>"
  have n: "1 \<le> ?n" "?n \<le> max_scaled B" "0 \<le> ?f" "?f \<le> 1" "?f \<le> x" using assms(2,3) by linarith+
  have rep: "representable (D B) ?f" using assms(1,2) by (intro representable_fraction) simp_all
  have isf: "is_float (D B) (Num ?f)" using rep below_max[of ?f "D B"] n(3,4) by simp
  have conv: "to_int32 (Num x) = Some ?n"
    using n assms(2) max_scaled_pow[of B] by (simp add: int32_def)
  have "\<bar>?n\<bar> < 2 ^ precision (D B)" using n scaled_small(1)[of B] by linarith
  then have sub: "fsub (D B) (Num x) (of_int_fp (D B) ?n) = Num ?f"
    using fl_exact[OF isf] by (simp add: of_int_fp_exact fsub_def)
  obtain m where m: "enlarge_int B ?n (Num 1) 0 = Some (?n * 10 ^ m, Num (10 ^ m), - int m)"
    "m \<le> 9" "min_scaled B \<le> ?n * 10 ^ m" "?n * 10 ^ m \<le> max_scaled B"
    "m = 0 \<or> ?n * 10 ^ (m - 1) < min_scaled B"
    using enlarge_int_result[of 0 ?n B 10 0] n(1,2) by auto
  have "0 \<le> ?f * 10 ^ m" "?f * 10 ^ m \<le> 10 ^ m" using n(3,4) by (simp_all add: mult_left_le_one_le)
  from fl_between[OF this is_float_0 is_float_pow10] m(2) obtain z where
    z: "fl (D B) (?f * 10 ^ m) = Num z" "0 \<le> z" "z \<le> 10 ^ m" by auto
  have run: "scale_number B (Num x) = Some (?n * 10 ^ m, Num z, - int m)"
    using assms(2,3) conv sub m(1) z(1) by (simp add: scale_number_def)
  have zr: "z = round_to (D B) (?f * of_int (10 ^ m))" using z(1) by (simp add: fl_def split: if_splits)
  have "\<bar>z - ?f * 10 ^ m\<bar> \<le> ?f * 10 ^ m / 2 ^ precision (D B)"
    using product_relative[OF rep, of "10 ^ m"] n(3) unfolding zr by (simp add: abs_mult)
  also have "\<dots> \<le> x * 10 ^ m / 2 ^ precision (D B)"
    using n(5) by (intro divide_right_mono mult_right_mono) simp_all
  also have "\<dots> \<le> slack (D B) * (x * 10 ^ m)" using assms(2) by (simp add: slack_def field_simps)
  finally have err: "\<bar>z - ?f * 10 ^ m\<bar> \<le> slack (D B) * (x * 10 ^ m)" .
  let ?y = "of_int (?n * 10 ^ m) + z"
  have "?y - x * 10 ^ m = z - ?f * 10 ^ m" by (simp add: left_diff_distrib)
  then have "approx (D B) 1 ?y (x * 10 ^ m)" using err by (simp add: approx_def)
  then have ap: "approx (D B) (Suc (enlarge_passes B)) ?y (x * 10 ^ m)"
    by (rule approx_mono) (use assms(2) in simp_all)
  have low: "of_int (min_scaled B) \<le> ?y"
  proof -
    have "(of_int (min_scaled B) :: rat) \<le> of_int (?n * 10 ^ m)" using m(3) by (simp only: of_int_le_iff)
    then show ?thesis using z(2) by linarith
  qed
  have high: "?y \<le> of_int (max_scaled B)"
  proof (cases "m = 0")
    case True
    then have "z = ?f" using z(1) fl_exact[OF isf] by simp
    then show ?thesis using True assms(3) by simp
  next
    case False
    obtain s where s: "min_scaled B = 10 ^ s" using min_scaled_pow by blast
    have "(?n + 1) * 10 ^ (m - 1) \<le> 10 ^ s" using next_multiple[of ?n "m - 1" s] m(5) False s n(1) by simp
    then have "(?n + 1) * 10 ^ m \<le> max_scaled B"
      using False s by (cases m) (simp_all add: ten_scaled algebra_simps)
    then have "(of_int ((?n + 1) * 10 ^ m) :: rat) \<le> of_int (max_scaled B)" by (simp only: of_int_le_iff)
    then show ?thesis using z(3) by (simp add: algebra_simps)
  qed
  have exact: "z = 0 \<and> of_int (?n * 10 ^ m) = x * 10 ^ m" if "x = of_int ?n"
  proof -
    have "?f = 0" using that by simp
    then have "z = 0" using z(2) zr by (simp add: round_to_representable)
    then show ?thesis using that by simp
  qed
  have "is_float (D B) (Num z)" by (metis is_float_fl z(1))
  moreover have "0 \<le> ?n * 10 ^ m" using n(1) by simp
  moreover have "scaled_near B x ?y (- int m)" using ap low high m(2) by (simp add: scaled_near_def)
  ultimately show ?thesis
    using run z(2) m(4) exact
    by (intro exI[of _ "?n * 10 ^ m"] exI[of _ z] exI[of _ "- int m"]) simp
qed

subsection \<open>Rounding the scaled number\<close>

lemma nonneg_sdiv_smod: "0 \<le> a \<Longrightarrow> 0 < b \<Longrightarrow> a sdiv b = a div b" "0 \<le> a \<Longrightarrow> 0 < b \<Longrightarrow> a smod b = a mod (b :: int)"
proof -
  show d: "a sdiv b = a div b" if "0 \<le> a" "0 < b" for a b :: int
    using that by (cases "a = 0") (simp_all add: signed_divide_int_def sgn_if)
  show "0 \<le> a \<Longrightarrow> 0 < b \<Longrightarrow> a smod b = a mod b"
    by (cases "a = 0") (simp_all add: signed_modulo_int_def sgn_if)
qed

lemma half_near:
  assumes "0 \<le> z"
  shows "of_int ((\<lfloor>2 * z\<rfloor> + 1) div 2) - 1 / 2 \<le> (z :: rat)" "z < of_int ((\<lfloor>2 * z\<rfloor> + 1) div 2) + 1 / 2"
proof -
  let ?r = "\<lfloor>2 * z\<rfloor>" and ?q = "(\<lfloor>2 * z\<rfloor> + 1) div 2"
  have "2 * ?q \<le> ?r + 1" "?r \<le> 2 * ?q" by linarith+
  then have "(of_int (2 * ?q) :: rat) \<le> of_int (?r + 1)" "(of_int ?r :: rat) \<le> of_int (2 * ?q)"
    by (simp_all only: of_int_le_iff)
  then have "2 * (of_int ?q :: rat) \<le> of_int ?r + 1" "(of_int ?r :: rat) \<le> 2 * of_int ?q" by simp_all
  moreover have "of_int ?r \<le> 2 * z" "2 * z < of_int ?r + 1" by linarith+
  ultimately show "of_int ?q - 1 / 2 \<le> z" "z < of_int ?q + 1 / 2" by linarith+
qed

definition half_up :: "rat \<Rightarrow> int" where "half_up z = (\<lfloor>2 * z\<rfloor> + 1) div 2"

lemma half_up_bounds:
  assumes "0 \<le> z" "z \<le> of_int k"
  shows "0 \<le> half_up z" "half_up z \<le> k" "\<lfloor>2 * z\<rfloor> \<le> 2 * k"
proof -
  show r: "\<lfloor>2 * z\<rfloor> \<le> 2 * k" using assms(2) by (simp add: floor_le_iff)
  have "0 \<le> \<lfloor>2 * z\<rfloor>" using assms(1) by simp
  then show "0 \<le> half_up z" "half_up z \<le> k" using r by (simp_all add: half_up_def)
qed

text \<open>The number \<open>n\<close> before the carry.\<close>

lemma tie_near:
  assumes "0 \<le> z" "z \<le> of_int (max_scaled B)"
  defines "q \<equiv> half_up z"
  defines "q' \<equiv> (if odd q \<and> feq (fsub (D B) (of_int_fp (D B) q) (Num z)) (Num (1 / 2)) then q - 1 else q)"
  shows "\<bar>of_int q' - z\<bar> \<le> 1 / 2 + 1 / 2 ^ 20" "0 \<le> q'" "q' \<le> q" "z = 0 \<Longrightarrow> q' = 0"
proof -
  have q: "0 \<le> q" "q \<le> max_scaled B" "of_int q - 1 / 2 \<le> z" "z < of_int q + 1 / 2"
    using half_up_bounds[OF assms(1,2)] half_near[OF assms(1)] by (simp_all add: q_def half_up_def)
  show "0 \<le> q'" using q(1) by (cases "q = 0") (auto simp: q'_def)
  show "q' \<le> q" by (simp add: q'_def)
  show "z = 0 \<Longrightarrow> q' = 0" by (simp add: q'_def q_def half_up_def)
  show "\<bar>of_int q' - z\<bar> \<le> 1 / 2 + 1 / 2 ^ 20"
  proof (cases "q' = q")
    case True
    have "\<bar>of_int q - z\<bar> \<le> 1 / 2" using q(3,4) by linarith
    then show ?thesis using True by simp
  next
    case False
    then have tie: "q' = q - 1" "feq (fsub (D B) (of_int_fp (D B) q) (Num z)) (Num (1 / 2))"
      by (auto simp: q'_def split: if_splits)
    have "\<bar>q\<bar> < 2 ^ precision (D B)" using q(1,2) scaled_small(1)[of B] by linarith
    then have "feq (fl (D B) (of_int q - z)) (Num (1 / 2))"
      using tie(2) by (simp add: of_int_fp_exact fsub_def)
    then have half: "fl (D B) (of_int q - z) = Num (1 / 2)" by (cases "fl (D B) (of_int q - z)") simp_all
    have rep: "representable (D B) (1 / 2 - 1 / 2 ^ 20)"
      by (rule representableI[of _ "2 ^ 19 - 1" "- 20"]; cases B; simp add: power_int_minus)
    have "1 / 2 - 1 / 2 ^ 20 < (1 / 2 :: rat)" by simp
    from fl_greater[OF half this rep] have "1 / 2 - 1 / 2 ^ 20 < of_int q - z" .
    then have "\<bar>of_int q - 1 - z\<bar> \<le> 1 / 2 + 1 / 2 ^ 20" using q(3) by linarith
    then show ?thesis using tie(1) by simp
  qed
qed

lemma double_exact:
  assumes "is_float (D B) (Num z)" "0 \<le> z" "z \<le> of_int (max_scaled B)"
  shows "fadd (D B) (Num z) (Num z) = Num (2 * z)"
proof -
  obtain m e where m: "z = of_int m * two e" "\<bar>m\<bar> < 2 ^ precision (D B)" "min_exp (D B) - low_bits (D B) \<le> e"
    using assms(1) by (auto simp: representable_def)
  have "z + z = of_int m * two (e + 1)" using m(1) by (simp add: two_add)
  then have "representable (D B) (z + z)" using m(2,3) by (intro representableI[of _ m "e + 1"]) simp_all
  moreover have "(of_int (max_scaled B) :: rat) \<le> 1000000000" by (cases B) simp_all
  then have "z + z < 2 ^ 100" using assms(3) by simp
  then have "z + z < two (max_exp (D B) + 1)" by (rule below_max)
  ultimately have "is_float (D B) (Num (z + z))" using assms(2) by simp
  then show ?thesis using fl_exact by simp
qed

lemma round_scaled_result:
  assumes "is_float (D B) (Num z)" "0 \<le> z" "0 \<le> n" "n \<le> max_scaled B"
    and "of_int (min_scaled B) \<le> of_int n + z" "of_int n + z \<le> of_int (max_scaled B)"
  shows "\<exists>N ex'. round_scaled B n (Num z) ex = Some (N, ex') \<and> min_scaled B \<le> N \<and> N < max_scaled B
    \<and> \<bar>ex'\<bar> \<le> \<bar>ex\<bar> + 1 \<and> \<bar>of_int N * 10 powi ex' - (of_int n + z) * 10 powi ex\<bar> \<le> (1 / 2 + 1 / 2 ^ 20) * 10 powi ex
    \<and> (z = 0 \<longrightarrow> of_int N * 10 powi ex' = (of_int n * 10 powi ex :: rat))"
proof -
  have zm: "z \<le> of_int (max_scaled B)" using assms(3,6) by (simp add: add_increasing le_diff_eq[symmetric])
  define q where "q = half_up z"
  define q' where "q' = (if odd q \<and> feq (fsub (D B) (of_int_fp (D B) q) (Num z)) (Num (1 / 2)) then q - 1 else q)"
  note t = tie_near[OF assms(2) zm, folded q_def, folded q'_def]
  have "\<lfloor>2 * z\<rfloor> \<le> 2 * max_scaled B" by (rule half_up_bounds(3)[OF assms(2) zm])
  moreover have "max_scaled B \<le> 1000000000" by (cases B) simp_all
  ultimately have r: "\<lfloor>2 * z\<rfloor> \<le> 2000000000" "0 \<le> \<lfloor>2 * z\<rfloor>" using assms(2) by linarith+
  have twice: "to_int32 (Num (2 * z)) = Some \<lfloor>2 * z\<rfloor>" "int32 (\<lfloor>2 * z\<rfloor> + 1) = Some (\<lfloor>2 * z\<rfloor> + 1)"
    using r assms(2) by (simp_all add: int32_def)
  have half: "(\<lfloor>2 * z\<rfloor> + 1) sdiv 2 = q" using r(2) by (simp add: nonneg_sdiv_smod q_def half_up_def)
  let ?N = "q' + n"
  have near: "\<bar>of_int ?N - (of_int n + z)\<bar> \<le> 1 / 2 + 1 / 2 ^ 20" using t(1) by simp
  have d: "of_int n + z - 1 < of_int ?N" "of_int ?N < of_int n + z + 1"
  proof -
    have "\<bar>of_int ?N - (of_int n + z)\<bar> < 1" using near by simp
    then show "of_int n + z - 1 < of_int ?N" "of_int ?N < of_int n + z + 1" by linarith+
  qed
  then have "(of_int (min_scaled B) :: rat) < of_int (?N + 1)" using assms(5) by simp
  then have low: "min_scaled B \<le> ?N" by (simp only: of_int_less_iff)
  have "(of_int ?N :: rat) < of_int (max_scaled B + 1)" using d(2) assms(6) by simp
  then have high: "?N \<le> max_scaled B" by (simp only: of_int_less_iff)
  have "int32 ?N = Some ?N" using low high max_scaled_pow[of B] scaled_small(2)[of B] by (simp add: int32_def)
  then have run: "round_scaled B n (Num z) ex =
      Some (if ?N \<ge> max_scaled B then (min_scaled B, ex + 1) else (?N, ex))"
    using double_exact[OF assms(1,2) zm] twice half by (simp add: round_scaled_def q'_def)
  have carry: "of_int (min_scaled B) * 10 powi (ex + 1) = of_int (max_scaled B) * (10 :: rat) powi ex"
    by (simp add: ten_scaled power_int_add)
  have e: "\<bar>of_int ?N * 10 powi ex - (of_int n + z) * 10 powi ex\<bar> \<le> (1 / 2 + 1 / 2 ^ 20) * 10 powi ex"
  proof -
    have "\<bar>of_int ?N * 10 powi ex - (of_int n + z) * 10 powi ex\<bar> = \<bar>of_int ?N - (of_int n + z)\<bar> * 10 powi ex"
      unfolding left_diff_distrib[symmetric] abs_mult by simp
    then show ?thesis using near by (simp only:) (rule mult_right_mono, simp_all)
  qed
  show ?thesis
  proof (cases "?N \<ge> max_scaled B")
    case True
    then have N: "?N = max_scaled B" using high by simp
    have "round_scaled B n (Num z) ex = Some (min_scaled B, ex + 1)" using run True by simp
    moreover have "\<bar>of_int (min_scaled B) * 10 powi (ex + 1) - (of_int n + z) * 10 powi ex\<bar>
        \<le> (1 / 2 + 1 / 2 ^ 20) * 10 powi ex"
      using e unfolding N carry .
    moreover have "z = 0 \<longrightarrow> of_int (min_scaled B) * 10 powi (ex + 1) = (of_int n * 10 powi ex :: rat)"
      using N t(4) by (auto simp: carry)
    moreover have "min_scaled B < max_scaled B" "\<bar>ex + 1\<bar> \<le> \<bar>ex\<bar> + 1"
      using scaled_small(2)[of B] by (simp_all add: ten_scaled)
    ultimately show ?thesis by blast
  next
    case False
    then have "round_scaled B n (Num z) ex = Some (?N, ex)" "?N < max_scaled B" using run by simp_all
    moreover have "z = 0 \<longrightarrow> of_int ?N * 10 powi ex = (of_int n * 10 powi ex :: rat)" using t(4) by simp
    moreover have "\<bar>ex\<bar> \<le> \<bar>ex\<bar> + 1" by simp
    ultimately show ?thesis using e low by blast
  qed
qed

end
