(* ===== verification/Unity_Float_Printing.thy ===== *)
theory Unity_Float_Printing
  imports Unity_Float_Scaling
begin

section \<open>Unity: the text of printed numbers\<close>

text \<open>
  The digits, the point and the exponent that \<open>UnityPrintFloat\<close> writes, a reader of such texts, and the
  accuracy of what is printed.
\<close>

subsection \<open>Printing the scaled number\<close>

text \<open>What a printed number stands for: a sign, digits with a point, an exponent.\<close>

definition read_mantissa :: "byte list \<Rightarrow> rat" where
  "read_mantissa s =
     (let whole = takeWhile (\<lambda>b. b \<noteq> 46) s; fraction = drop (length whole + 1) s
      in of_nat (value_of 0 (whole @ fraction)) / 10 ^ length fraction)"

definition read_float :: "byte list \<Rightarrow> rat" where
  "read_float s =
     (let negative = (take 1 s = str ''-''); s = (if negative then drop 1 s else s);
          m = takeWhile (\<lambda>b. b \<noteq> 101) s; e = drop (length m + 1) s;
          ex = (if e = [] then 0 else (if take 1 e = str ''-'' then - 1 else 1) * int (value_of 0 (drop 1 e)))
      in (if negative then - 1 else 1) * read_mantissa m * 10 powi ex)"

lemma value_of_snoc: "value_of acc (bs @ [b]) = 10 * value_of acc bs + unat (b - 48)"
  by (induction bs arbitrary: acc) simp_all

lemma buf_digit_char:
  assumes "0 \<le> n" "n < 10"
  shows "decimal (48 + of_int n)" "unat (48 + of_int n - 48 :: byte) = nat n"
proof -
  have of: "of_int n = (of_nat (nat n) :: byte)" using assms(1) by (metis int_nat_eq of_int_of_nat_eq)
  have u: "unat (of_nat (nat n) :: byte) = nat n" using assms by (simp add: unat_of_nat del: of_nat_nat)
  then show "unat (48 + of_int n - 48 :: byte) = nat n" unfolding of by (simp del: of_nat_nat)
  have "unat (48 + of_nat (nat n) :: byte) = 48 + nat n"
    using assms u by (subst unat_add_lem[THEN iffD1]) (simp_all del: of_nat_nat)
  then show "decimal (48 + of_int n)"
    using assms unfolding of by (simp add: decimal_def word_le_nat_alt del: of_nat_nat)
qed

lemma fill_buf_result:
  assumes "0 \<le> n" "n < 10 ^ a" "length buf + a \<le> 16" "limit \<le> 16"
  shows "\<exists>ds. fill_buf limit n buf = Some (buf @ ds) \<and> (\<forall>d \<in> set ds. decimal d)
    \<and> limit \<le> int (length (buf @ ds)) \<and> value_of 0 (rev ds) = nat n \<and> (n \<noteq> 0 \<longrightarrow> ds \<noteq> [])"
  using assms
proof (induction limit n buf arbitrary: a rule: fill_buf.induct)
  case (1 limit n buf)
  show ?case
  proof (cases "n \<noteq> 0 \<or> int (length buf) < limit")
    case False
    then show ?thesis using 1 by (subst fill_buf.simps) simp
  next
    case True
    have room: "length buf < 16"
    proof (cases "n = 0")
      case False
      then have "a \<noteq> 0" using 1(2,3) by (intro notI) simp
      then show ?thesis using 1(4) by simp
    qed (use True 1(5) in simp)
    let ?c = "48 + of_int (n smod 10) :: byte"
    have n10: "n sdiv 10 = n div 10" "n smod 10 = n mod 10" using 1(2) by (simp_all add: nonneg_sdiv_smod)
    have "n div 10 < 10 ^ (a - 1)"
      using 1(2,3) by (cases a) (simp_all add: div_less_iff_less_mult mult.commute)
    moreover have "n = 0 \<or> length buf + 1 + (a - 1) \<le> 16"
      using 1(2,3,4) by (cases a) simp_all
    ultimately obtain a' where a': "n div 10 < 10 ^ a'" "length (buf @ [?c]) + a' \<le> 16"
      using room by (cases "n = 0") (fastforce intro: that[of 0])+
    have "0 \<le> n div 10" using 1(2) by simp
    from 1(1)[OF True room, unfolded n10(1), OF this a' 1(5)] obtain ds where
      ds: "fill_buf limit (n div 10) (buf @ [?c]) = Some (buf @ [?c] @ ds)" "\<forall>d \<in> set ds. decimal d"
        "limit \<le> int (length (buf @ [?c] @ ds))" "value_of 0 (rev ds) = nat (n div 10)"
      by auto
    have c: "decimal ?c" "unat (?c - 48) = nat (n mod 10)" using buf_digit_char[of "n mod 10"] n10(2) by simp_all
    have "int (10 * nat (n div 10) + nat (n mod 10)) = n" using 1(2) by (simp add: pos_imp_zdiv_nonneg_iff)
    then have "nat n = 10 * nat (n div 10) + nat (n mod 10)" by (metis nat_int)
    then have "value_of 0 (rev (?c # ds)) = nat n" using ds(4) c(2) by (simp add: value_of_snoc)
    moreover have "fill_buf limit n buf = Some (buf @ ?c # ds)"
      using True room ds(1) n10(1) by (subst fill_buf.simps) simp
    ultimately show ?thesis using ds(2,3) c(1) by (intro exI[of _ "?c # ds"]) simp
  qed
qed

lemma strip_zeros_result:
  assumes "0 \<le> n" "0 \<le> decimals" "strip_zeros n decimals = (n', d)"
  shows "0 \<le> d \<and> d \<le> decimals \<and> 0 \<le> n' \<and> n' \<le> n \<and> n = n' * 10 ^ nat (decimals - d)"
  using assms
proof (induction n decimals rule: strip_zeros.induct)
  case (1 n decimals)
  show ?case
  proof (cases "decimals > 0 \<and> n smod 10 = 0")
    case False
    then show ?thesis using 1(2-4) by (subst (asm) strip_zeros.simps) auto
  next
    case True
    have n10: "n sdiv 10 = n div 10" "n mod 10 = 0" using True 1(2) by (simp_all add: nonneg_sdiv_smod)
    have run: "strip_zeros (n div 10) (decimals - 1) = (n', d)"
      using True 1(4) n10(1) by (subst (asm) strip_zeros.simps) simp
    have ih: "0 \<le> d" "d \<le> decimals - 1" "0 \<le> n'" "n' \<le> n div 10" "n div 10 = n' * 10 ^ nat (decimals - 1 - d)"
      using 1(1)[OF True, unfolded n10(1), OF _ _ run] 1(2) True by auto
    have "n = n div 10 * 10" using n10(2) by presburger
    also have "\<dots> = n' * 10 ^ nat (decimals - 1 - d) * 10" by (subst ih(5)) simp
    also have "\<dots> = n' * 10 ^ nat (decimals - d)"
    proof -
      have "nat (decimals - d) = Suc (nat (decimals - 1 - d))" using ih(2) by simp
      then show ?thesis by simp
    qed
    finally show ?thesis using ih by auto
  qed
qed

lemma put_digits_short: "length cs < d \<or> d = 0 \<Longrightarrow> put_digits (int d) cs = cs"
  by (induction cs) auto

lemma put_digits_point:
  "0 < d \<Longrightarrow> d \<le> length cs \<Longrightarrow>
     put_digits (int d) cs = take (length cs - d) cs @ str ''.'' @ drop (length cs - d) cs"
proof (induction cs)
  case (Cons c cs)
  show ?case
  proof (cases "d = length (c # cs)")
    case True
    then have "put_digits (int d) cs = cs" by (intro put_digits_short) simp
    then show ?thesis using True by simp
  next
    case False
    then have "length (c # cs) - d = Suc (length cs - d)" using Cons.prems by simp
    then show ?thesis using Cons False by simp
  qed
qed simp

text \<open>The characters of a printed number.\<close>

definition number_char :: "byte \<Rightarrow> bool" where
  "number_char b \<longleftrightarrow> decimal b \<or> b \<in> set (str ''-.e+'')"

lemma decimal_not: "decimal b \<Longrightarrow> b \<noteq> 46 \<and> b \<noteq> 101 \<and> b \<noteq> 45"
  by (auto simp: decimal_def word_le_nat_alt)

lemma read_mantissa_digits:
  assumes "\<forall>b \<in> set ds. decimal b" "d \<le> length ds"
  shows "read_mantissa (put_digits (int d) ds) = of_nat (value_of 0 ds) / 10 ^ d"
proof (cases "d = 0")
  case True
  have tw: "takeWhile (\<lambda>b. b \<noteq> 46) ds = ds" using assms(1) decimal_not by (simp add: takeWhile_eq_all_conv)
  have "put_digits (int d) ds = ds" using True by (intro put_digits_short) simp
  then show ?thesis unfolding read_mantissa_def using True by (simp only: Let_def tw) simp
next
  case False
  let ?w = "take (length ds - d) ds" and ?f = "drop (length ds - d) ds"
  have p: "put_digits (int d) ds = ?w @ 46 # ?f"
    using False assms(2) by (subst put_digits_point) (simp_all add: str_def)
  have "\<forall>b \<in> set ?w. b \<noteq> 46" using assms(1) decimal_not in_set_takeD by fastforce
  then have "takeWhile (\<lambda>b. b \<noteq> 46) (?w @ 46 # ?f) = ?w" by (simp add: takeWhile_append2)
  then show ?thesis using assms(2) unfolding p by (simp add: read_mantissa_def Let_def)
qed

lemma set_put_digits: "set (put_digits d ds) \<subseteq> set ds \<union> {46}"
  by (induction ds) (auto simp: str_def)

lemma hd_put_digits:
  assumes "int (length ds) \<noteq> d" "ds \<noteq> []"
  shows "hd (put_digits d ds) = hd ds"
  using assms by (cases ds) auto

lemma print_exponent_result:
  assumes "\<bar>ex\<bar> < 1000"
  shows "\<exists>e. print_exponent ex = Some (if ex = 0 then [] else 101 # e)
    \<and> (\<forall>b \<in> set e. number_char b) \<and> (ex \<noteq> 0 \<longrightarrow> ex = (if take 1 e = str ''-'' then - 1 else 1) * int (value_of 0 (drop 1 e)))"
proof (cases "ex = 0")
  case False
  let ?a = "if ex < 0 then - ex else ex"
  obtain ds where ds: "fill_buf 2 ?a [] = Some ds" "\<forall>d \<in> set ds. decimal d" "value_of 0 (rev ds) = nat ?a"
  proof -
    have "0 \<le> ?a" "?a < 10 ^ 3" using assms by auto
    from fill_buf_result[OF this, of "[]" 2] show ?thesis using that by auto
  qed
  let ?e = "(if ex < 0 then str ''-'' else str ''+'') @ rev ds"
  have "print_exponent ex = Some (101 # ?e)" using False ds(1) by (simp add: print_exponent_def str_def)
  moreover have "\<forall>b \<in> set ?e. number_char b" using ds(2) by (auto simp: number_char_def str_def)
  moreover have "ex = (if take 1 ?e = str ''-'' then - 1 else 1) * int (value_of 0 (drop 1 ?e))"
    using ds(3) by (simp add: str_def)
  ultimately show ?thesis using False by (intro exI[of _ ?e]) simp
qed (auto simp: print_exponent_def intro: exI[of _ "[]"])

lemma read_float_plain:
  assumes "\<forall>b \<in> set m. b \<noteq> 101" "m \<noteq> []" "hd m \<noteq> 45"
  shows "read_float (m @ (if ex = 0 then [] else 101 # e)) =
      read_mantissa m * 10 powi (if ex = 0 \<or> e = [] then 0 else (if take 1 e = str ''-'' then - 1 else 1) * int (value_of 0 (drop 1 e)))"
    and "read_float (45 # m @ (if ex = 0 then [] else 101 # e)) = - read_float (m @ (if ex = 0 then [] else 101 # e))"
proof -
  let ?s = "m @ (if ex = 0 then [] else 101 # e)"
  have tw: "takeWhile (\<lambda>b. b \<noteq> 101) ?s = m"
    using assms(1) by (simp add: takeWhile_append2 takeWhile_eq_all_conv)
  have plain: "(take 1 ?s = str ''-'') = False" using assms(2,3) by (cases m) (simp_all add: str_def)
  have minus: "(take 1 (45 # ?s) = str ''-'') = True" "drop 1 (45 # ?s) = ?s" by (simp_all add: str_def)
  have rest: "drop (length m + 1) ?s = (if ex = 0 then [] else e)" by simp
  show "read_float ?s =
      read_mantissa m * 10 powi (if ex = 0 \<or> e = [] then 0 else (if take 1 e = str ''-'' then - 1 else 1) * int (value_of 0 (drop 1 e)))"
    unfolding read_float_def Let_def plain if_False tw rest by simp
  show "read_float (45 # ?s) = - read_float ?s"
    unfolding read_float_def Let_def plain minus if_False if_True by simp
qed

lemma print_scaled_result:
  assumes "min_scaled B \<le> n" "n < max_scaled B" "\<bar>ex\<bar> \<le> 401"
  shows "\<exists>out. print_scaled B n ex = Some out \<and> read_float out = of_int n * 10 powi ex
    \<and> read_float (45 # out) = - (of_int n * 10 powi ex) \<and> (\<forall>b \<in> set out. number_char b)"
proof -
  define dec where "dec = (if ex \<le> 0 \<and> ex \<ge> - (sig_digits B + 3) then - ex else sig_digits B - 1)"
  have dec: "0 \<le> dec" "dec \<le> 12" by (cases B; auto simp: dec_def)+
  obtain n' d where st: "strip_zeros n dec = (n', d)" by (cases "strip_zeros n dec")
  have n0: "0 \<le> n" using assms(1) scaled_small(2)[of B] by simp
  note s = strip_zeros_result[OF n0 dec(1) st]
  have "n' < 10 ^ 9" using s assms(2) max_scaled_pow[of B] by linarith
  then obtain ds where ds: "fill_buf (d + 1) n' [] = Some ds" "\<forall>b \<in> set ds. decimal b" "d + 1 \<le> int (length ds)"
      "value_of 0 (rev ds) = nat n'"
    using fill_buf_result[of n' 9 "[]" "d + 1"] s dec(2) by auto
  have "\<bar>ex + dec\<bar> < 1000" using assms(3) dec by linarith
  from print_exponent_result[OF this] obtain e where
    e: "print_exponent (ex + dec) = Some (if ex + dec = 0 then [] else 101 # e)" "\<forall>b \<in> set e. number_char b"
      "ex + dec \<noteq> 0 \<longrightarrow> ex + dec = (if take 1 e = str ''-'' then - 1 else 1) * int (value_of 0 (drop 1 e))"
    by blast
  let ?m = "put_digits d (rev ds)"
  let ?out = "?m @ (if ex + dec = 0 then [] else 101 # e)"
  have run: "print_scaled B n ex = Some ?out"
    unfolding print_scaled_def Let_def dec_def[symmetric] using st ds(1) e(1) by simp
  have m101: "\<forall>b \<in> set ?m. b \<noteq> 101"
  proof
    fix b assume "b \<in> set ?m"
    then have "b \<in> set ds \<or> b = 46" using set_put_digits[of d "rev ds"] by auto
    then show "b \<noteq> 101" using ds(2) decimal_not by auto
  qed
  have ne: "?m \<noteq> []" "hd ?m \<noteq> 45"
  proof -
    have "rev ds \<noteq> []" using ds(3) s by auto
    then show "?m \<noteq> []" by (cases "rev ds") auto
    have "hd ?m = hd (rev ds)" using ds(3) \<open>rev ds \<noteq> []\<close> by (intro hd_put_digits) simp_all
    then show "hd ?m \<noteq> 45" using ds(2) \<open>rev ds \<noteq> []\<close> decimal_not hd_in_set[of "rev ds"] by force
  qed
  have "d = int (nat d)" using s by simp
  then have mant: "read_mantissa ?m = of_int n' / 10 ^ nat d"
    using read_mantissa_digits[of "rev ds" "nat d"] ds(2,3,4) s by simp
  have ex: "(if ex + dec = 0 \<or> e = [] then 0 else (if take 1 e = str ''-'' then - 1 else 1) * int (value_of 0 (drop 1 e)))
      = ex + dec"
    using e(3) by (cases "e = []") (auto simp: str_def)
  have val: "read_float ?out = of_int n * 10 powi ex"
  proof -
    have "read_float ?out = of_int n' / 10 ^ nat d * 10 powi (ex + dec)"
      using read_float_plain(1)[OF m101 ne, of "ex + dec" e] unfolding mant ex .
    also have "\<dots> = of_int n' * 10 powi (dec - d) * 10 powi ex"
    proof -
      have "(10 :: rat) ^ nat d = 10 powi d" using s by (simp add: power_int_def)
      then show ?thesis by (simp add: power_int_add power_int_diff)
    qed
    also have "(10 :: rat) powi (dec - d) = of_int (10 ^ nat (dec - d))" using s by (simp add: power_int_def)
    also have "of_int n' * of_int (10 ^ nat (dec - d)) = (of_int n :: rat)"
      using s by (metis of_int_mult)
    finally show ?thesis .
  qed
  have chars: "\<forall>b \<in> set ?out. number_char b"
    using set_put_digits[of d "rev ds"] ds(2) e(2) by (auto simp: number_char_def str_def)
  show ?thesis
    using run val read_float_plain(2)[OF m101 ne, of "ex + dec" e] chars by (intro exI[of _ ?out]) simp
qed

subsection \<open>The printer\<close>

lemma total_error:
  fixes x y p v :: rat
  assumes "\<bar>y - x / p\<bar> \<le> S * (x / p)" "\<bar>v - y * p\<bar> \<le> (1 / 2 + 1 / 2 ^ 20) * p" "m \<le> y" "0 < p" "0 < m" "0 < x" "0 \<le> S"
    and "(1 / 2 + 1 / 2 ^ 20) * (1 + S) + S * m \<le> 1"
  shows "\<bar>v - x\<bar> \<le> x / m"
proof -
  have a: "\<bar>y * p - x\<bar> \<le> S * x"
  proof -
    have "y * p - x = (y - x / p) * p" using assms(4) by (simp add: left_diff_distrib)
    then have "\<bar>y * p - x\<bar> = \<bar>y - x / p\<bar> * p" using assms(4) by (simp add: abs_mult)
    also have "\<dots> \<le> S * (x / p) * p" using assms(1,4) by (intro mult_right_mono) simp_all
    finally show ?thesis using assms(4) by simp
  qed
  have "m * p \<le> y * p" using assms(3,4) by simp
  also have "\<dots> \<le> x + S * x" using a by linarith
  finally have "p \<le> (1 + S) * x / m" using assms(5) by (simp add: pos_le_divide_eq algebra_simps)
  then have "(1 / 2 + 1 / 2 ^ 20) * p \<le> (1 / 2 + 1 / 2 ^ 20) * ((1 + S) * x / m)"
    by (intro mult_left_mono) simp_all
  moreover have "\<bar>v - x\<bar> \<le> \<bar>v - y * p\<bar> + \<bar>y * p - x\<bar>" by linarith
  ultimately have "\<bar>v - x\<bar> \<le> (1 / 2 + 1 / 2 ^ 20) * ((1 + S) * x / m) + S * x" using assms(2) a by linarith
  also have "\<dots> = ((1 / 2 + 1 / 2 ^ 20) * (1 + S) + S * m) * (x / m)"
    using assms(5) by (simp add: field_simps)
  also have "\<dots> \<le> 1 * (x / m)" using assms(5,6,8) by (intro mult_right_mono) simp_all
  finally show ?thesis by simp
qed

lemma error_budget:
  "(1 / 2 + 1 / 2 ^ 20) * (1 + of_nat (Suc (enlarge_passes B)) * slack (D B))
     + of_nat (Suc (enlarge_passes B)) * slack (D B) * of_int (min_scaled B) \<le> 1"
  by (cases B) (simp_all add: slack_def)

lemma scale_result:
  assumes "is_float (D B) (Num x)" "0 < x"
  shows "\<exists>n z ex. scale_number B (Num x) = Some (n, Num z, ex) \<and> is_float (D B) (Num z) \<and> 0 \<le> z \<and> 0 \<le> n
    \<and> n \<le> max_scaled B \<and> scaled_near B x (of_int n + z) ex
    \<and> (x = of_int \<lfloor>x\<rfloor> \<longrightarrow> x \<le> of_int (max_scaled B) \<longrightarrow> z = 0 \<and> of_int n = x * 10 powi (- ex))"
proof -
  have m: "0 \<le> max_scaled B" by (cases B) simp_all
  consider "x < 1" | "1 \<le> x" "x \<le> of_int (max_scaled B)" | "of_int (max_scaled B) < x" by linarith
  then show ?thesis
  proof cases
    case 1
    then have "x \<noteq> of_int \<lfloor>x\<rfloor>" using assms(2) by (metis less_irrefl of_int_0_less_iff of_int_less_1_iff zless_imp_add1_zle add_0 not_le)
    then show ?thesis using scale_small[OF assms 1] m by fastforce
  next
    case 2
    then show ?thesis using scale_middle[OF assms(1)] by blast
  next
    case 3
    then show ?thesis using scale_large[OF assms(1)] m by fastforce
  qed
qed

lemma powi_minus_divide: "x * 10 powi (- ex) = x / (10 :: rat) powi ex"
  by (simp add: power_int_minus field_simps)

lemma print_positive:
  assumes "is_float (D B) (Num x)" "0 < x"
  shows "\<exists>n z ex N ex' out. scale_number B (Num x) = Some (n, Num z, ex)
    \<and> round_scaled B n (Num z) ex = Some (N, ex') \<and> print_scaled B N ex' = Some out
    \<and> \<bar>read_float out - x\<bar> \<le> x / of_int (min_scaled B) \<and> read_float (45 # out) = - read_float out
    \<and> (\<forall>b \<in> set out. number_char b)
    \<and> (x = of_int \<lfloor>x\<rfloor> \<longrightarrow> x \<le> of_int (max_scaled B) \<longrightarrow> read_float out = x)"
proof -
  obtain n z ex where s: "scale_number B (Num x) = Some (n, Num z, ex)" "is_float (D B) (Num z)" "0 \<le> z" "0 \<le> n"
    "n \<le> max_scaled B" "scaled_near B x (of_int n + z) ex"
    "x = of_int \<lfloor>x\<rfloor> \<longrightarrow> x \<le> of_int (max_scaled B) \<longrightarrow> z = 0 \<and> of_int n = x * 10 powi (- ex)"
    using scale_result[OF assms] by blast
  have near: "approx (D B) (Suc (enlarge_passes B)) (of_int n + z) (x / 10 powi ex)"
    "of_int (min_scaled B) \<le> of_int n + z" "of_int n + z \<le> of_int (max_scaled B)" "\<bar>ex\<bar> \<le> 400"
    using s(6) by (simp_all only: scaled_near_def powi_minus_divide)
  from round_scaled_result[OF s(2,3,4,5) near(2,3), of ex] obtain N ex' where
    r: "round_scaled B n (Num z) ex = Some (N, ex')" "min_scaled B \<le> N" "N < max_scaled B" "\<bar>ex'\<bar> \<le> \<bar>ex\<bar> + 1"
      "\<bar>of_int N * 10 powi ex' - (of_int n + z) * 10 powi ex\<bar> \<le> (1 / 2 + 1 / 2 ^ 20) * 10 powi ex"
      "z = 0 \<longrightarrow> of_int N * 10 powi ex' = (of_int n * 10 powi ex :: rat)"
    by blast
  have "\<bar>ex'\<bar> \<le> 401" using r(4) near(4) by simp
  from print_scaled_result[OF r(2,3) this] obtain out where
    out: "print_scaled B N ex' = Some out" "read_float out = of_int N * 10 powi ex'"
      "read_float (45 # out) = - (of_int N * 10 powi ex')" "\<forall>b \<in> set out. number_char b"
    by blast
  have "\<bar>read_float out - x\<bar> \<le> x / of_int (min_scaled B)"
    unfolding out(2)
    using near(1) r(5) near(2) assms(2) scaled_pos(1)[of B] error_budget[of B]
    by (intro total_error[of "of_int n + z" x "10 powi ex" "of_nat (Suc (enlarge_passes B)) * slack (D B)"])
       (simp_all add: approx_def slack_def zero_less_power_int)
  moreover have "read_float out = x" if "x = of_int \<lfloor>x\<rfloor>" "x \<le> of_int (max_scaled B)"
    using that s(7) r(6) unfolding out(2) powi_minus_divide by simp
  ultimately show ?thesis using s(1) r(1) out by metis
qed

lemma UnityPrintFloat_nonzero:
  assumes "is_float (D B) (Num x)" "x \<noteq> 0"
  shows "\<exists>out. UnityPrintFloat B (Num x) = Some out \<and> \<bar>read_float out - x\<bar> \<le> \<bar>x\<bar> / of_int (min_scaled B)
    \<and> (\<forall>b \<in> set out. number_char b)
    \<and> (x = of_int \<lfloor>x\<rfloor> \<and> \<bar>x\<bar> \<le> of_int (max_scaled B) \<longrightarrow> read_float out = x)"
proof (cases "x < 0")
  case False
  then have pos: "0 < x" using assms(2) by simp
  from print_positive[OF assms(1) pos] obtain n z ex N ex' out where
    o: "scale_number B (Num x) = Some (n, Num z, ex)" "round_scaled B n (Num z) ex = Some (N, ex')"
      "print_scaled B N ex' = Some out" "\<bar>read_float out - x\<bar> \<le> x / of_int (min_scaled B)"
      "\<forall>b \<in> set out. number_char b" "x = of_int \<lfloor>x\<rfloor> \<longrightarrow> x \<le> of_int (max_scaled B) \<longrightarrow> read_float out = x" by blast
  have "UnityPrintFloat B (Num x) = Some out"
    using pos o(1-3) by (simp add: UnityPrintFloat_def)
  then show ?thesis using o(4-6) pos by (intro exI[of _ out]) simp
next
  case True
  then have pos: "0 < - x" "is_float (D B) (Num (- x))" using assms(1) by (simp_all add: representable_minus)
  from print_positive[OF pos(2,1)] obtain n z ex N ex' out where
    o: "scale_number B (Num (- x)) = Some (n, Num z, ex)" "round_scaled B n (Num z) ex = Some (N, ex')"
      "print_scaled B N ex' = Some out" "\<bar>read_float out - - x\<bar> \<le> - x / of_int (min_scaled B)"
      "read_float (45 # out) = - read_float out" "\<forall>b \<in> set out. number_char b"
      "- x = of_int \<lfloor>- x\<rfloor> \<longrightarrow> - x \<le> of_int (max_scaled B) \<longrightarrow> read_float out = - x" by blast
  have run: "UnityPrintFloat B (Num x) = Some (45 # out)"
    using True o(1-3) by (simp add: UnityPrintFloat_def str_def)
  have "\<bar>read_float (45 # out) - x\<bar> \<le> \<bar>x\<bar> / of_int (min_scaled B)" using o(4,5) True by simp
  moreover have "number_char 45" by (simp add: number_char_def str_def)
  moreover have "- x = of_int \<lfloor>- x\<rfloor>" if "x = of_int \<lfloor>x\<rfloor>"
    by (metis floor_of_int of_int_minus that)
  ultimately show ?thesis using run o(5-7) True by (intro exI[of _ "45 # out"]) auto
qed

lemma UnityPrintFloat_special:
  "UnityPrintFloat B (Num 0) = Some (str ''0'')" "UnityPrintFloat B NaN = Some (str ''nan'')"
  "UnityPrintFloat B (Inf s) = Some ((if s then str ''-'' else []) @ str ''inf'')"
proof -
  have "UnityPrint (Some (str ''0'')) = str ''0''" "UnityPrint (Some (str ''nan'')) = str ''nan''"
      "UnityPrint (Some (str ''inf'')) = str ''inf''"
    by (simp_all add: UnityPrint_def UnityPrintChar_def str_def)
  then show "UnityPrintFloat B (Num 0) = Some (str ''0'')" "UnityPrintFloat B NaN = Some (str ''nan'')"
      "UnityPrintFloat B (Inf s) = Some ((if s then str ''-'' else []) @ str ''inf'')"
    by (simp_all add: UnityPrintFloat_def)
qed

lemma UnityPrintFloat_defined: "is_float (D B) v \<Longrightarrow> \<exists>out. UnityPrintFloat B v = Some out"
proof (cases v)
  case (Num x)
  then show "is_float (D B) v \<Longrightarrow> ?thesis"
    using UnityPrintFloat_nonzero[of B x] UnityPrintFloat_special(1)[of B] by (cases "x = 0") auto
qed (simp_all add: UnityPrintFloat_special)

subsection \<open>Properties\<close>

text \<open>Property C15: every finite number is printed, in both builds. The text is made of digits, signs, a point
  and an exponent; the number that it denotes differs from the printed one by at most a millionth of
  it (a hundred-millionth with \<open>double\<close>). This is between one and ten units of the seventh (ninth)
  significant digit, which, as the comment in the code says, is not always right. Integers of up to
  seven (nine) digits are printed exactly.\<close>

theorem float_printed_accurately:
  assumes "is_float (UNITY_DOUBLE B) (Num x)"
  shows "\<exists>out. UnityPrintFloat B (Num x) = Some out
    \<and> \<bar>read_float out - x\<bar> \<le> \<bar>x\<bar> / of_int (min_scaled B)
    \<and> (\<forall>b \<in> set out. number_char b)
    \<and> (x = of_int \<lfloor>x\<rfloor> \<and> \<bar>x\<bar> \<le> of_int (max_scaled B) \<longrightarrow> read_float out = x)"
proof (cases "x = 0")
  case True
  have "read_float (str ''0'') = 0" by (simp add: read_float_def read_mantissa_def str_def Let_def)
  moreover have "\<forall>b \<in> set (str ''0''). number_char b" by (simp add: number_char_def decimal_def str_def)
  ultimately show ?thesis using True UnityPrintFloat_special(1)[of B] by simp
next
  case False
  then show ?thesis by (rule UnityPrintFloat_nonzero[OF assms])
qed

lemma sample_number: "is_float (D B) (Num 1234567)"
  using representable_of_int[of 1234567 "D B"] by (cases B) (simp_all add: max_exp_eq)

theorem float_printed_accurately_witness:
  "\<exists>out. UnityPrintFloat Without_double (Num 1234567) = Some out \<and> read_float out = 1234567"
  using float_printed_accurately[OF sample_number, of Without_double] by auto


end
