(* ===== verification/Unity_Args.thy ===== *)
theory Unity_Args
  imports Unity_Float_Printing "HOL-Library.Sublist"
begin

section \<open>Unity: command line options, filters and formatted messages\<close>

text \<open>
  The optional parts of \<^verbatim>\<open>assignment-autotest/Unity/src/unity.c\<close>: the options and test filters of
  \<open>UNITY_USE_COMMAND_LINE_ARGS\<close>, and the messages of \<open>UNITY_INCLUDE_PRINT_FORMATTED\<close>. A pointer into a string is the rest of the string, the empty
  rest being its terminator; a step beyond the terminator has no value.
\<close>

definition char_at :: "byte list \<Rightarrow> nat \<Rightarrow> byte" where
  "char_at s k = (if k < length s then s ! k else 0)"

lemma char_at_simps [simp]: "char_at [] k = 0" "char_at (c # s) 0 = c" "char_at (c # s) (Suc k) = char_at s k"
  by (simp_all add: char_at_def)

subsection \<open>Options\<close>

record options =
  UnityOptionIncludeNamed :: cstring
  UnityOptionExcludeNamed :: cstring
  UnityVerbosity :: int

text \<open>The loop over the arguments, with what it prints; 45 is the minus sign and 61 the equals sign.\<close>

fun parse_options :: "byte list list \<Rightarrow> options \<Rightarrow> int \<times> options \<times> byte list" where
  "parse_options [] opts = (0, opts, [])"
| "parse_options (arg # args) opts =
     (if char_at arg 0 = 45 then
        (if [char_at arg 1] = str ''l'' then (- 1, opts, [])
         else if [char_at arg 1] = str ''n'' \<or> [char_at arg 1] = str ''f'' then
           (if char_at arg 2 = 61 then parse_options args (opts\<lparr>UnityOptionIncludeNamed := Some (drop 3 arg)\<rparr>)
            else case args of
                   name # args' \<Rightarrow> parse_options args' (opts\<lparr>UnityOptionIncludeNamed := Some name\<rparr>)
                 | [] \<Rightarrow> (1, opts, UnityPrint (Some (str ''ERROR: No Test String to Include Matches For'')) @ EOL))
         else if [char_at arg 1] = str ''q'' then parse_options args (opts\<lparr>UnityVerbosity := 0\<rparr>)
         else if [char_at arg 1] = str ''v'' then parse_options args (opts\<lparr>UnityVerbosity := 2\<rparr>)
         else if [char_at arg 1] = str ''x'' then
           (if char_at arg 2 = 61 then parse_options args (opts\<lparr>UnityOptionExcludeNamed := Some (drop 3 arg)\<rparr>)
            else case args of
                   name # args' \<Rightarrow> parse_options args' (opts\<lparr>UnityOptionExcludeNamed := Some name\<rparr>)
                 | [] \<Rightarrow> (1, opts, UnityPrint (Some (str ''ERROR: No Test String to Exclude Matches For'')) @ EOL))
         else (1, opts, UnityPrint (Some (str ''ERROR: Unknown Option '')) @ [char_at arg 1] @ EOL))
      else parse_options args opts)"

definition UnityParseOptions :: "byte list list \<Rightarrow> options \<Rightarrow> int \<times> options \<times> byte list" where
  "UnityParseOptions argv opts =
     parse_options (tl argv) (opts\<lparr>UnityOptionIncludeNamed := None, UnityOptionExcludeNamed := None\<rparr>)"

subsection \<open>Matching names\<close>

text \<open>The characters that end a pattern: star, comma and the two quotes; the colon is 58.\<close>

abbreviation (input) ends_pattern :: "byte \<Rightarrow> bool" where
  "ends_pattern c \<equiv> c = 42 \<or> c = 44 \<or> c = 34 \<or> c = 39"

fun match_here :: "byte list \<Rightarrow> byte list \<Rightarrow> int option" where
  "match_here (l # lptr) (s # sptr) =
     (if l \<noteq> 0 \<and> s \<noteq> 0 \<and> l = s then
        (if ends_pattern (char_at sptr 0) then Some 1
         else if char_at sptr 0 = 58 then Some 2
         else if char_at sptr 0 = 0 then Some 1
         else match_here lptr sptr)
      else None)"
| "match_here _ _ = None"

fun match_anywhere :: "byte list \<Rightarrow> byte list \<Rightarrow> int" where
  "match_anywhere [] shortstring = 0"
| "match_anywhere (l # lptr) shortstring =
     (if l = 0 then 0
      else case match_here (l # lptr) shortstring of Some r \<Rightarrow> r | None \<Rightarrow> match_anywhere lptr shortstring)"

definition IsStringInBiggerString :: "cstring \<Rightarrow> byte list \<Rightarrow> int option" where
  "IsStringInBiggerString longstring shortstring =
     (if char_at shortstring 0 = 42 then Some 1
      else map_option (\<lambda>lptr. match_anywhere lptr shortstring) longstring)"

text \<open>The scan to the end of a partial pattern; it starts by stepping over a character.\<close>

fun next_partial :: "byte list \<Rightarrow> cstring \<Rightarrow> (byte list \<times> cstring) option" where
  "next_partial [] ptrf = None"
| "next_partial (c # ptr2) ptrf =
     (let ptrf = (if char_at ptr2 0 = 58 \<and> char_at ptr2 1 \<noteq> 0 then Some (tl ptr2) else ptrf) in
      if char_at ptr2 0 \<noteq> 0 \<and> char_at ptr2 0 \<noteq> 39 \<and> char_at ptr2 0 \<noteq> 34 \<and> char_at ptr2 0 \<noteq> 44
      then next_partial ptr2 ptrf else Some (ptr2, ptrf))"

lemma next_partial_shorter: "next_partial p f = Some (q, g) \<Longrightarrow> length q < length p"
  by (induction p f rule: next_partial.induct) (auto simp: Let_def split: if_splits)

function match_partials :: "unity \<Rightarrow> byte list \<Rightarrow> int option" where
  "match_partials u ptr1 =
     (if char_at ptr1 0 = 0 then Some 0
      else
        (let ptr1 = (if char_at ptr1 0 = 34 \<or> char_at ptr1 0 = 39 then tl ptr1 else ptr1) in
         case next_partial ptr1 None of
           None \<Rightarrow> None
         | Some (ptr2, ptrf) \<Rightarrow>
             (let ptr2 = dropWhile (\<lambda>c. c = 58 \<or> c = 39 \<or> c = 34 \<or> c = 44) ptr2 in
              case IsStringInBiggerString (TestFile u) ptr1 of
                None \<Rightarrow> None
              | Some retval \<Rightarrow>
                  if retval = 1 then Some 1
                  else
                    (case (if retval = 2 \<and> ptrf \<noteq> None
                           then IsStringInBiggerString (CurrentTestName u) (the ptrf) else Some 0) of
                       None \<Rightarrow> None
                     | Some after_colon \<Rightarrow>
                         if after_colon \<noteq> 0 then Some 1
                         else
                           (case IsStringInBiggerString (CurrentTestName u) ptr1 of
                              None \<Rightarrow> None
                            | Some r \<Rightarrow> if r = 1 then Some 1 else match_partials u ptr2)))))"
  by pat_completeness auto

lemma rest_shorter:
  assumes "next_partial p None = Some (q, g)" "length p \<le> n"
  shows "length (dropWhile P q) < n"
  using next_partial_shorter[OF assms(1)] length_dropWhile_le[of P q] assms(2) by linarith

termination match_partials
  by (relation "measure (\<lambda>(u, p). length p)") (auto simp: rest_shorter dest: rest_shorter)

declare match_partials.simps [simp del]

definition UnityStringArgumentMatches :: "byte list \<Rightarrow> unity \<Rightarrow> int option" where
  "UnityStringArgumentMatches s u = match_partials u s"

definition UnityTestMatches :: "options \<Rightarrow> unity \<Rightarrow> int option" where
  "UnityTestMatches opts u = do {
     retval \<leftarrow> (case UnityOptionIncludeNamed opts of
                 Some s \<Rightarrow> UnityStringArgumentMatches s u | None \<Rightarrow> Some 1);
     (case UnityOptionExcludeNamed opts of
        Some s \<Rightarrow> do { m \<leftarrow> UnityStringArgumentMatches s u; Some (if m \<noteq> 0 then 0 else retval) }
      | None \<Rightarrow> Some retval)
   }"

subsection \<open>Formatted messages\<close>

text \<open>A variable argument: 32 bits, a \<open>double\<close>, or a pointer to a string. One of the wrong kind, or none, has no value.\<close>

datatype va = Va_int u32 | Va_double fp | Va_string cstring

fun va_int :: "va list \<Rightarrow> (u32 \<times> va list) option" where
  "va_int (Va_int n # vas) = Some (n, vas)"
| "va_int _ = None"

fun va_double :: "va list \<Rightarrow> (fp \<times> va list) option" where
  "va_double (Va_double v # vas) = Some (v, vas)"
| "va_double _ = None"

fun va_string :: "va list \<Rightarrow> (cstring \<times> va list) option" where
  "va_string (Va_string s # vas) = Some (s, vas)"
| "va_string _ = None"

text \<open>
  The conversion behind a percent sign (37), with the remaining arguments. The mask of \<open>%b\<close> is all
  ones; \<open>%x\<close> prints eight digits.
\<close>

definition print_conversion :: "build \<Rightarrow> byte \<Rightarrow> va list \<Rightarrow> (byte list \<times> va list) option" where
  "print_conversion B ch vas =
     (if [ch] = str ''d'' \<or> [ch] = str ''i'' then do { (n, vas) \<leftarrow> va_int vas; Some (UnityPrintNumber (scast n), vas) }
      else if [ch] = str ''f'' \<or> [ch] = str ''g'' then
        do { (v, vas) \<leftarrow> va_double vas; out \<leftarrow> UnityPrintFloat B (convert (UNITY_DOUBLE B) v); Some (out, vas) }
      else if [ch] = str ''u'' then do { (n, vas) \<leftarrow> va_int vas; Some (UnityPrintNumberUnsigned (ucast n), vas) }
      else if [ch] = str ''b'' then
        do { (n, vas) \<leftarrow> va_int vas; Some (str ''0b'' @ UnityPrintMask (0 - 1) (ucast n), vas) }
      else if [ch] = str ''x'' \<or> [ch] = str ''X'' \<or> [ch] = str ''p'' then
        do { (n, vas) \<leftarrow> va_int vas; Some (str ''0x'' @ UnityPrintNumberHex (ucast n) 8, vas) }
      else if [ch] = str ''c'' then do { (n, vas) \<leftarrow> va_int vas; Some (UnityPrintChar (ucast n), vas) }
      else if [ch] = str ''s'' then do { (s, vas) \<leftarrow> va_string vas; Some (UnityPrint s, vas) }
      else if ch = 37 then Some (UnityPrintChar ch, vas)
      else Some (37 # UnityPrintChar ch, vas))"

text \<open>A percent sign in front of the terminator makes the loop step over the terminator.\<close>

fun UnityPrintFVA :: "build \<Rightarrow> byte list \<Rightarrow> va list \<Rightarrow> byte list option" where
  "UnityPrintFVA B [] vas = Some []"
| "UnityPrintFVA B (ch # pch) vas =
     (if ch = 0 then Some []
      else if ch = 37 then
        (case pch of
           [] \<Rightarrow> None
         | conv # pch' \<Rightarrow> do {
             (out, vas) \<leftarrow> print_conversion B conv vas;
             rest \<leftarrow> UnityPrintFVA B pch' vas;
             Some (out @ rest)
           })
      else map_option (\<lambda>rest. (if ch = 10 then EOL else UnityPrintChar ch) @ rest) (UnityPrintFVA B pch vas))"

definition UnityPrintF :: "build \<Rightarrow> u64 \<Rightarrow> cstring \<Rightarrow> va list \<Rightarrow> unity \<Rightarrow> unity option" where
  "UnityPrintF B line format vas u = do {
     let u = emit (UnityPrint (Some (str ''INFO''))) (UnityTestResultsBegin (TestFile u) line u);
     u \<leftarrow> (case format of
             None \<Rightarrow> Some u
           | Some pch \<Rightarrow> map_option (\<lambda>out. emit (UnityPrint (Some (str '': '')) @ out) u) (UnityPrintFVA B pch vas));
     Some (emit EOL u)
   }"

subsection \<open>The search\<close>

definition ends_partial :: "byte \<Rightarrow> bool" where
  "ends_partial c \<longleftrightarrow> c = 0 \<or> c = 58 \<or> ends_pattern c"

text \<open>The pattern: its first character, whatever it is, and those up to the next that ends it.\<close>

fun search_pattern :: "byte list \<Rightarrow> byte list" where
  "search_pattern [] = []"
| "search_pattern (c # cs) = c # takeWhile (\<lambda>c. \<not> ends_partial c) cs"

definition pattern_end :: "byte list \<Rightarrow> byte" where
  "pattern_end s = char_at (dropWhile (\<lambda>c. \<not> ends_partial c) (tl s)) 0"

lemma search_pattern_nonempty: "char_at s 0 \<noteq> 0 \<Longrightarrow> search_pattern s \<noteq> []"
  by (cases s) auto

lemma match_here_prefix:
  assumes "char_at s 0 \<noteq> 0"
  shows "match_here l s =
    (if prefix (search_pattern s) (contents l) then Some (if pattern_end s = 58 then 2 else 1) else None)"
  using assms
proof (induction l s rule: match_here.induct)
  case (1 l lptr s sptr)
  have "sptr = [] \<or> (\<exists>c cs. sptr = c # cs)" by (cases sptr) auto
  then show ?case
    using 1 by (auto simp: contents_def pattern_end_def ends_partial_def)
qed (auto simp: contents_def search_pattern_nonempty)

lemma match_anywhere_sublist:
  assumes "char_at s 0 \<noteq> 0"
  shows "match_anywhere l s =
    (if sublist (search_pattern s) (contents l) then if pattern_end s = 58 then 2 else 1 else 0)"
proof (induction l)
  case Nil
  have "search_pattern s \<noteq> []" using assms by (cases s) auto
  then show ?case by (simp add: contents_def)
next
  case (Cons c l)
  have "search_pattern s \<noteq> []" using assms by (cases s) auto
  then show ?case
    using Cons match_here_prefix[OF assms, of "c # l"]
    by (auto simp: sublist_Cons_right contents_def)
qed

subsection \<open>The loop over the partial patterns\<close>

lemma next_partial_defined: "p \<noteq> [] \<Longrightarrow> \<exists>q g. next_partial p f = Some (q, g)"
proof (induction p f rule: next_partial.induct)
  case (2 c ptr2 ptrf)
  then show ?case by (cases "ptr2 = []") (auto simp: Let_def)
qed simp

text \<open>What is left behind a partial pattern does not start with a quote, so only the filter itself
  can be a lone quote.\<close>

abbreviation lone_quote :: "byte list \<Rightarrow> bool" where
  "lone_quote p \<equiv> p = [34] \<or> p = [39]"

lemma rest_no_lone_quote: "\<not> lone_quote (dropWhile (\<lambda>c. c = 58 \<or> c = 39 \<or> c = 34 \<or> c = 44) q)"
  by (induction q) (auto split: if_splits)

lemma opened_nonempty:
  assumes "\<not> lone_quote p" "char_at p 0 \<noteq> 0"
  shows "(if char_at p 0 = 34 \<or> char_at p 0 = 39 then tl p else p) \<noteq> []"
proof (cases p)
  case (Cons c cs)
  show ?thesis using assms(1) unfolding Cons by (cases "cs = []") simp_all
qed (use assms(2) in simp)

lemma match_partials_defined:
  assumes "\<not> lone_quote p" "TestFile u \<noteq> None" "CurrentTestName u \<noteq> None"
  shows "\<exists>r. match_partials u p = Some r"
  using assms
proof (induction u p rule: match_partials.induct)
  case (1 u p)
  have defined: "\<exists>r. IsStringInBiggerString s t = Some r" if "s \<noteq> None" for s t
    using that by (auto simp: IsStringInBiggerString_def)
  let ?p = "if char_at p 0 = 34 \<or> char_at p 0 = 39 then tl p else p"
  show ?case
  proof (cases "char_at p 0 = 0")
    case True
    then show ?thesis by (simp add: match_partials.simps)
  next
    case False
    obtain q g where q: "next_partial ?p None = Some (q, g)"
      using next_partial_defined[OF opened_nonempty[OF "1.prems"(1) False], of None] by blast
    let ?q = "dropWhile (\<lambda>c. c = 58 \<or> c = 39 \<or> c = 34 \<or> c = 44) q"
    obtain a c where results: "IsStringInBiggerString (TestFile u) ?p = Some a"
        "IsStringInBiggerString (CurrentTestName u) ?p = Some c"
      using defined[OF "1.prems"(2)] defined[OF "1.prems"(3)] by metis
    obtain b where colon: "(if a = 2 \<and> g \<noteq> None
        then IsStringInBiggerString (CurrentTestName u) (the g) else Some 0) = Some b"
      using defined[OF "1.prems"(3), of "the g"] by (cases "a = 2 \<and> g \<noteq> None") auto
    have rest: "\<exists>r. match_partials u ?q = Some r" if "a \<noteq> 1" "\<not> b \<noteq> 0" "c \<noteq> 1"
      using "1.IH"[OF False refl q refl refl results(1) that(1) colon that(2) results(2) that(3)
          rest_no_lone_quote "1.prems"(2,3)] .
    have step: "match_partials u p = (if a = 1 then Some 1 else if b \<noteq> 0 then Some 1
        else if c = 1 then Some 1 else match_partials u ?q)"
      by (subst match_partials.simps)
        (simp only: Let_def False q results colon option.case prod.case if_False simp_thms cong: if_cong)
    show ?thesis unfolding step by (simp split: if_split) (use rest in blast)
  qed
qed

lemma lone_quote_undefined: "lone_quote p \<Longrightarrow> match_partials u p = None"
  by (subst match_partials.simps) auto

lemma format_ends_in_percent:
  assumes "37 \<notin> set s" "0 \<notin> set s"
  shows "UnityPrintFVA B (s @ [37]) vas = None"
  using assms by (induction s) auto

text \<open>The arguments are those that the format asks for.\<close>

fun fits :: "byte list \<Rightarrow> va list \<Rightarrow> bool" where
  "fits [] vas = True"
| "fits (ch # pch) vas =
     (if ch = 0 then True
      else if ch = 37 then
        (case pch of
           [] \<Rightarrow> False
         | conv # pch' \<Rightarrow>
             if [conv] = str ''f'' \<or> [conv] = str ''g'' then (\<exists>v vas'. vas = Va_double v # vas' \<and> fits pch' vas')
             else if [conv] = str ''s'' then (\<exists>s vas'. vas = Va_string s # vas' \<and> fits pch' vas')
             else if conv \<in> set (str ''diubxXpc'') then (\<exists>n vas'. vas = Va_int n # vas' \<and> fits pch' vas')
             else fits pch' vas)
      else fits pch vas)"

lemma print_conversion_fits:
  assumes "fits (37 # conv # pch) vas"
  shows "\<exists>out vas'. print_conversion B conv vas = Some (out, vas') \<and> fits pch vas'"
proof -
  obtain number where "\<And>v. UnityPrintFloat B (convert (UNITY_DOUBLE B) v) = Some (number v)"
    using UnityPrintFloat_defined[OF is_float_convert, of B] by metis
  then show ?thesis
    using assms by (auto simp: print_conversion_def str_def split: if_splits bind_splits)
qed

text \<open>Then the message is printed, whatever its numbers are.\<close>

lemma format_printed: "fits format vas \<Longrightarrow> \<exists>out. UnityPrintFVA B format vas = Some out"
proof (induction format arbitrary: vas rule: length_induct)
  case (1 format)
  show ?case
  proof (cases format)
    case (Cons ch pch)
    show ?thesis
    proof (cases "ch = 37")
      case True
      then obtain conv pch' where c: "pch = conv # pch'" using "1.prems" Cons by (cases pch) auto
      then obtain out vas' where "print_conversion B conv vas = Some (out, vas')" "fits pch' vas'"
        using print_conversion_fits "1.prems" unfolding Cons True c by blast
      moreover from this obtain rest where "UnityPrintFVA B pch' vas' = Some rest"
        using "1.IH" Cons c by force
      ultimately show ?thesis using Cons True c by simp
    next
      case False
      then show ?thesis using "1.IH" "1.prems" Cons by auto
    qed
  qed simp
qed

subsection \<open>Properties\<close>

text \<open>The filter search is a substring search: it answers 1 or 2 exactly if the pattern (up to
  the next star, comma, quote, colon or the end) occurs in the name, 2 if a colon ends it.\<close>

theorem filter_search_is_substring:
  assumes "char_at shortstring 0 \<noteq> 0" "char_at shortstring 0 \<noteq> 42"
  shows "IsStringInBiggerString (Some longstring) shortstring =
    Some (if sublist (search_pattern shortstring) (contents longstring)
          then if pattern_end shortstring = 58 then 2 else 1 else 0)"
  using assms by (simp add: IsStringInBiggerString_def match_anywhere_sublist)

theorem filter_search_is_substring_witness:
  "IsStringInBiggerString (Some (str ''aabaab'')) (str ''aba:x'') = Some 2
   \<and> IsStringInBiggerString (Some (str ''aabaab'')) (str ''abb'') = Some 0"
proof -
  have "sublist [97, 98, 97] ([97] @ [97, 98, 97] @ ([97, 98] :: byte list))" by (rule sublist_appendI)
  moreover have "\<not> sublist [97, 98, 98] ([97, 97, 98, 97, 97, 98] :: byte list)"
    by (simp add: sublist_Cons_right)
  ultimately show ?thesis
    using filter_search_is_substring[of "str ''aba:x''" "str ''aabaab''"]
      filter_search_is_substring[of "str ''abb''" "str ''aabaab''"]
    by (simp add: str_def contents_def pattern_end_def ends_partial_def)
qed

text \<open>Property C35: deciding whether a test is selected comes to an end with an answer whenever the
  file and the test have names, for all filters but a single quote character; such a filter makes
  the loop read past the end of the string, so that there is no answer.\<close>

theorem filters_decide:
  assumes "TestFile u \<noteq> None" "CurrentTestName u \<noteq> None"
  shows "UnityTestMatches opts u = None \<longleftrightarrow>
    (\<exists>s. (UnityOptionIncludeNamed opts = Some s \<or> UnityOptionExcludeNamed opts = Some s)
      \<and> (s = [34] \<or> s = [39]))"
proof -
  have some: "UnityStringArgumentMatches s u = None \<longleftrightarrow> lone_quote s" for s
    using match_partials_defined[of s u] lone_quote_undefined[of s u] assms
    unfolding UnityStringArgumentMatches_def by (metis option.distinct(1))
  have "(case UnityOptionIncludeNamed opts of
        Some s \<Rightarrow> UnityStringArgumentMatches s u | None \<Rightarrow> Some 1) = None \<longleftrightarrow>
      (\<exists>s. UnityOptionIncludeNamed opts = Some s \<and> lone_quote s)"
    using some by (auto split: option.split)
  moreover have "(case UnityOptionExcludeNamed opts of
        Some s \<Rightarrow> do { m \<leftarrow> UnityStringArgumentMatches s u; Some (if m \<noteq> 0 then 0 else retval) }
      | None \<Rightarrow> Some retval) = None \<longleftrightarrow>
      (\<exists>s. UnityOptionExcludeNamed opts = Some s \<and> lone_quote s)" for retval
    using some by (auto simp: bind_eq_None_conv split: option.split)
  ultimately show ?thesis
    unfolding UnityTestMatches_def by (auto simp: bind_eq_None_conv)
qed

theorem filters_decide_witness:
  "UnityTestMatches \<lparr>UnityOptionIncludeNamed = Some [34, 116, 34], UnityOptionExcludeNamed = Some (str ''t,u''),
     UnityVerbosity = 1\<rparr> sample_unity \<noteq> None
   \<and> UnityTestMatches \<lparr>UnityOptionIncludeNamed = None, UnityOptionExcludeNamed = Some [39],
     UnityVerbosity = 1\<rparr> sample_unity = None"
  using filters_decide[of sample_unity "\<lparr>UnityOptionIncludeNamed = Some [34, 116, 34],
      UnityOptionExcludeNamed = Some (str ''t,u''), UnityVerbosity = 1\<rparr>"]
    filters_decide[of sample_unity "\<lparr>UnityOptionIncludeNamed = None,
      UnityOptionExcludeNamed = Some [39], UnityVerbosity = 1\<rparr>"]
  by (auto simp: sample_unity_def str_def)

end
