(* ===== verification/Unity_Runner.thy ===== *)
theory Unity_Runner
  imports Unity_Macros "HOL-Library.Sublist"
begin

section \<open>Unity: running tests\<close>

text \<open>
  The control functions of \<^verbatim>\<open>assignment-autotest/Unity/src/unity.c\<close>: the default test runner with
  its two \<open>TEST_PROTECT\<close> blocks, and the beginning and end of a run. The fixture functions
  \<open>setUp\<close> and \<open>tearDown\<close> and the tests are code of the user: functions on the state that may
  return, leave the test, or have no value. The locale \<open>test_code\<close> is what the runner needs of
  them; everything that the assertions do meets it, \<open>TEST_PASS\<close> included, which leaves a test
  without a mark. The verdict of a test is read off the marks that its three functions leave.
\<close>

type_synonym test_function = "unity \<Rightarrow> flow option"

subsection \<open>The functions\<close>

definition UNITY_CLR_DETAILS :: "unity \<Rightarrow> unity" where
  "UNITY_CLR_DETAILS u = u\<lparr>CurrentDetail1 := None, CurrentDetail2 := None\<rparr>"

definition UNITY_SET_DETAIL :: "cstring \<Rightarrow> unity \<Rightarrow> unity" where
  "UNITY_SET_DETAIL d1 u = u\<lparr>CurrentDetail1 := d1, CurrentDetail2 := None\<rparr>"

definition UNITY_SET_DETAILS :: "cstring \<Rightarrow> cstring \<Rightarrow> unity \<Rightarrow> unity" where
  "UNITY_SET_DETAILS d1 d2 u = u\<lparr>CurrentDetail1 := d1, CurrentDetail2 := d2\<rparr>"

text \<open>\<open>if (TEST_PROTECT()) { ... }\<close>: a jump out of the block ends it.\<close>

definition TEST_PROTECT :: "('s \<Rightarrow> ('s + 's) option) \<Rightarrow> 's \<Rightarrow> 's option" where
  "TEST_PROTECT block u = (case block u of None \<Rightarrow> None | Some (Inl u') \<Rightarrow> Some u' | Some (Inr u') \<Rightarrow> Some u')"

definition sequence ::
  "('s \<Rightarrow> ('s + 's) option) \<Rightarrow> ('s \<Rightarrow> ('s + 's) option) \<Rightarrow> 's \<Rightarrow> ('s + 's) option" where
  "sequence f g u = (case f u of None \<Rightarrow> None | Some (Inl u') \<Rightarrow> Some (Inl u') | Some (Inr u') \<Rightarrow> g u')"

definition UnityDefaultTestRun ::
  "test_function \<Rightarrow> test_function \<Rightarrow> test_function \<Rightarrow> cstring \<Rightarrow> u32 \<Rightarrow> unity \<Rightarrow> unity option" where
  "UnityDefaultTestRun setUp tearDown Fn FuncName FuncLineNum u = do {
     let u = u\<lparr>CurrentTestName := FuncName, CurrentTestLineNumber := scast FuncLineNum,
               NumberOfTests := NumberOfTests u + 1\<rparr>;
     let u = UNITY_CLR_DETAILS u;
     u \<leftarrow> TEST_PROTECT (sequence setUp Fn) u;
     u \<leftarrow> TEST_PROTECT tearDown u;
     Some (UnityConcludeTest u)
   }"

definition UnitySetTestFile :: "cstring \<Rightarrow> unity \<Rightarrow> unity" where
  "UnitySetTestFile filename u = u\<lparr>TestFile := filename\<rparr>"

definition UnityBegin :: "cstring \<Rightarrow> unity \<Rightarrow> unity" where
  "UnityBegin filename u =
     UNITY_CLR_DETAILS (u\<lparr>TestFile := filename, CurrentTestName := None, CurrentTestLineNumber := 0,
       NumberOfTests := 0, TestFailures := 0, TestIgnores := 0, CurrentTestFailed := 0,
       CurrentTestIgnored := 0\<rparr>)"

definition UnityEnd :: "unity \<Rightarrow> u32 \<times> unity" where
  "UnityEnd u =
     (ucast (TestFailures u),
      emit (EOL @ UnityPrint (Some UnityStrBreaker) @ EOL
        @ UnityPrintNumber (NumberOfTests u) @ UnityPrint (Some UnityStrResultsTests)
        @ UnityPrintNumber (TestFailures u) @ UnityPrint (Some UnityStrResultsFailures)
        @ UnityPrintNumber (TestIgnores u) @ UnityPrint (Some UnityStrResultsIgnored) @ EOL
        @ (if TestFailures u = 0 then UnityPrint (Some UnityStrOk) else UnityPrint (Some UnityStrFail))
        @ EOL) u)"

text \<open>A runner calls \<open>RUN_TEST\<close> for each test: its name, line and function.\<close>

fun run_tests ::
  "test_function \<Rightarrow> test_function \<Rightarrow> (cstring \<times> u32 \<times> test_function) list \<Rightarrow> unity \<Rightarrow> unity option" where
  "run_tests setUp tearDown [] u = Some u"
| "run_tests setUp tearDown ((name, line, func) # tests) u = do {
     u \<leftarrow> UnityDefaultTestRun setUp tearDown func name line u;
     run_tests setUp tearDown tests u
   }"

subsection \<open>The contract of test code\<close>

text \<open>What code in a test leaves alone, and that it only adds to the report.\<close>

definition keeps :: "unity \<Rightarrow> unity \<Rightarrow> bool" where
  "keeps u u' \<longleftrightarrow>
     NumberOfTests u' = NumberOfTests u \<and> TestFailures u' = TestFailures u \<and> TestIgnores u' = TestIgnores u
     \<and> CurrentTestName u' = CurrentTestName u \<and> CurrentTestLineNumber u' = CurrentTestLineNumber u
     \<and> TestFile u' = TestFile u \<and> prefix (printed u) (printed u')"

lemma keeps_refl [simp]: "keeps u u"
  by (simp add: keeps_def)

lemma keeps_trans: "keeps u u' \<Longrightarrow> keeps u' u'' \<Longrightarrow> keeps u u''"
  by (auto simp: keeps_def)

text \<open>A mark is never taken away.\<close>

definition keeps_marks :: "unity \<Rightarrow> unity \<Rightarrow> bool" where
  "keeps_marks u u' \<longleftrightarrow> (CurrentTestFailed u \<noteq> 0 \<longrightarrow> CurrentTestFailed u' \<noteq> 0)
     \<and> (CurrentTestIgnored u \<noteq> 0 \<longrightarrow> CurrentTestIgnored u' \<noteq> 0)"

lemma keeps_marks_refl [simp]: "keeps_marks u u"
  by (simp add: keeps_marks_def)

lemma keeps_marks_trans: "keeps_marks u u' \<Longrightarrow> keeps_marks u' u'' \<Longrightarrow> keeps_marks u u''"
  by (auto simp: keeps_marks_def)

text \<open>
  Code of a test may return or leave, marked or not. The second contract says that it also always
  has a value, the third that it does not catch the jumps of its own assertions: it returns only
  with the marks it found.
\<close>

locale test_code =
  fixes code :: test_function
  assumes leaves: "code u = Some (Inl u') \<Longrightarrow> keeps u u' \<and> keeps_marks u u'"
    and returns: "code u = Some (Inr u') \<Longrightarrow> keeps u u' \<and> keeps_marks u u'"
begin

lemma protected:
  assumes "TEST_PROTECT code u = Some u'"
  shows "keeps u u' \<and> keeps_marks u u'"
  using assms leaves returns by (auto simp: TEST_PROTECT_def split: option.splits sum.splits)

end

locale plain_code = test_code +
  assumes unmarked: "code u = Some (Inr u') \<Longrightarrow> bailed u' \<longleftrightarrow> bailed u"

locale total_test_code = test_code +
  assumes total: "\<exists>r. code u = Some r"
begin

lemma protected_total: "\<exists>u'. TEST_PROTECT code u = Some u'"
  using total[of u] by (auto simp: TEST_PROTECT_def split: sum.splits)

end

text \<open>Code followed by code.\<close>

locale test_pair = fst: total_test_code f + snd: total_test_code g
  for f g

sublocale test_pair \<subseteq> seq: total_test_code "sequence f g"
proof
  fix u u'
  assume "sequence f g u = Some (Inl u')"
  then consider "f u = Some (Inl u')" | v where "f u = Some (Inr v)" "g v = Some (Inl u')"
    by (auto simp: sequence_def split: option.splits sum.splits)
  then show "keeps u u' \<and> keeps_marks u u'"
    using fst.leaves fst.returns snd.leaves keeps_trans keeps_marks_trans by cases blast+
next
  fix u u'
  assume "sequence f g u = Some (Inr u')"
  then obtain v where "f u = Some (Inr v)" "g v = Some (Inr u')"
    by (auto simp: sequence_def split: option.splits sum.splits)
  then show "keeps u u' \<and> keeps_marks u u'"
    using fst.returns snd.returns keeps_trans keeps_marks_trans by blast
next
  fix u
  show "\<exists>r. sequence f g u = Some r"
    using fst.total[of u] snd.total by (auto simp: sequence_def split: sum.splits)
qed

subsection \<open>One test\<close>

datatype verdict = Passed | Failed | Ignored

definition verdict_of :: "unity \<Rightarrow> verdict" where
  "verdict_of u = (if CurrentTestIgnored u \<noteq> 0 then Ignored else if CurrentTestFailed u \<noteq> 0 then Failed else Passed)"

lemma verdict_Passed: "verdict_of u = Passed \<longleftrightarrow> \<not> bailed u"
  by (auto simp: verdict_of_def bailed_def)

definition counted :: "verdict \<Rightarrow> unity \<Rightarrow> unity \<Rightarrow> bool" where
  "counted v u u' \<longleftrightarrow>
     NumberOfTests u' = NumberOfTests u + 1
     \<and> TestFailures u' = TestFailures u + (if v = Failed then 1 else 0)
     \<and> TestIgnores u' = TestIgnores u + (if v = Ignored then 1 else 0)
     \<and> TestFile u' = TestFile u \<and> prefix (printed u) (printed u')"

text \<open>The state in which a test starts.\<close>

definition prepared :: "cstring \<Rightarrow> u32 \<Rightarrow> unity \<Rightarrow> unity" where
  "prepared name line u =
     UNITY_CLR_DETAILS (u\<lparr>CurrentTestName := name, CurrentTestLineNumber := scast line,
       NumberOfTests := NumberOfTests u + 1\<rparr>)"

lemma conclude_verdict:
  "UnityConcludeTest u =
     emit ((if verdict_of u = Passed
            then report_line (CurrentTestLineNumber u) (UnityPrint (Some UnityStrPass)) u else []) @ EOL)
       (u\<lparr>TestFailures := TestFailures u + (if verdict_of u = Failed then 1 else 0),
          TestIgnores := TestIgnores u + (if verdict_of u = Ignored then 1 else 0),
          CurrentTestFailed := 0, CurrentTestIgnored := 0\<rparr>)"
  by (simp add: UnityConcludeTest_def verdict_of_def results_begin Let_def emit_def
      report_line_append[of _ "UnityPrint _"])

lemma conclude_counted:
  assumes "keeps (prepared name line u) u'"
  shows "counted (verdict_of u') u (UnityConcludeTest u') \<and> \<not> bailed (UnityConcludeTest u')"
proof -
  have "prefix (printed u) (printed u' @ s)" for s
    using assms by (auto simp: keeps_def prepared_def UNITY_CLR_DETAILS_def prefix_def)
  then show ?thesis
    using assms
    by (simp add: conclude_verdict counted_def keeps_def prepared_def UNITY_CLR_DETAILS_def bailed_def)
qed

text \<open>All three functions return.\<close>

definition all_return ::
  "('s \<Rightarrow> ('s + 's) option) \<Rightarrow> ('s \<Rightarrow> ('s + 's) option) \<Rightarrow> ('s \<Rightarrow> ('s + 's) option) \<Rightarrow> 's \<Rightarrow> bool" where
  "all_return setUp func tearDown u \<longleftrightarrow>
     (case sequence (sequence setUp func) tearDown u of Some (Inr _) \<Rightarrow> True | _ \<Rightarrow> False)"

text \<open>The state that the functions of a test leave: the body runs if the set-up returned, the tear-down
  in any case.\<close>

definition left_by ::
  "('s \<Rightarrow> ('s + 's) option) \<Rightarrow> ('s \<Rightarrow> ('s + 's) option) \<Rightarrow> ('s \<Rightarrow> ('s + 's) option) \<Rightarrow> 's \<Rightarrow> 's option" where
  "left_by setUp func tearDown u = do {
     r \<leftarrow> setUp u;
     u \<leftarrow> (case r of Inl u \<Rightarrow> Some u | Inr u \<Rightarrow> map_option (case_sum (\<lambda>x. x) (\<lambda>x. x)) (func u));
     map_option (case_sum (\<lambda>x. x) (\<lambda>x. x)) (tearDown u)
   }"

lemma left_by_protect:
  "left_by setUp func tearDown u = do { u \<leftarrow> TEST_PROTECT (sequence setUp func) u; TEST_PROTECT tearDown u }"
proof -
  have "TEST_PROTECT f u = map_option (case_sum (\<lambda>x. x) (\<lambda>x. x)) (f u)" for f :: "'a \<Rightarrow> ('a + 'a) option" and u
    by (auto simp: TEST_PROTECT_def split: option.splits sum.splits)
  then show ?thesis
    by (cases "setUp u") (auto simp: left_by_def sequence_def split: sum.splits)
qed

lemma left_by_returns:
  assumes "all_return setUp func tearDown u"
  obtains a b c where "setUp u = Some (Inr a)" "func a = Some (Inr b)" "tearDown b = Some (Inr c)"
    "left_by setUp func tearDown u = Some c"
proof -
  obtain a b c where "setUp u = Some (Inr a)" "func a = Some (Inr b)" "tearDown b = Some (Inr c)"
    using assms by (auto simp: all_return_def sequence_def split: option.splits sum.splits)
  then show thesis using that by (simp add: left_by_def)
qed

locale test_fixture = body: test_pair setUp func + teardown: total_test_code tearDown
  for setUp func tearDown
begin

lemma run_one:
  "\<exists>w u'. left_by setUp func tearDown (prepared name line u) = Some w
    \<and> UnityDefaultTestRun setUp tearDown func name line u = Some u' \<and> counted (verdict_of w) u u' \<and> \<not> bailed u'"
proof -
  let ?u = "prepared name line u"
  obtain u1 where u1: "TEST_PROTECT (sequence setUp func) ?u = Some u1" using body.seq.protected_total by blast
  obtain u2 where u2: "TEST_PROTECT tearDown u1 = Some u2" using teardown.protected_total by blast
  have "left_by setUp func tearDown ?u = Some u2"
    using u1 u2 by (simp add: left_by_protect)
  moreover have "UnityDefaultTestRun setUp tearDown func name line u = Some (UnityConcludeTest u2)"
    using u1 u2 by (simp add: UnityDefaultTestRun_def prepared_def Let_def)
  moreover have "keeps ?u u2"
    using body.seq.protected[OF u1] teardown.protected[OF u2] keeps_trans by blast
  ultimately show ?thesis using conclude_counted by blast
qed

end

subsection \<open>Code that meets the contract\<close>

lemma assertion_code:
  assumes "\<And>u r. code u = Some r \<Longrightarrow> assertion_outcome u r"
  shows "plain_code code"
proof
  fix u u'
  assume "code u = Some (Inl u')"
  then have "assertion_outcome u (Inl u')" by (rule assms)
  then show "keeps u u' \<and> keeps_marks u u'"
    by (auto simp: marked_def keeps_def keeps_marks_def)
next
  fix u u'
  assume "code u = Some (Inr u')"
  then have "assertion_outcome u (Inr u')" by (rule assms)
  then show "keeps u u' \<and> keeps_marks u u'" "bailed u' \<longleftrightarrow> bailed u"
    by auto
qed

lemma total_assertion_code: "total_test_code (\<lambda>u. Some (assertion ok report u))"
  by (intro total_test_code.intro plain_code.axioms(1) assertion_code total_test_code_axioms.intro)
    (auto intro: assertion_outcome)

interpretation int_arrays: plain_code "UnityAssertEqualIntArray m expected actual num msg line style flags"
  for m expected actual num msg line style flags
  by (rule assertion_code) (rule int_array_outcome)

interpretation within_arrays: plain_code "UnityAssertNumbersArrayWithin m delta expected actual num msg line style flags"
  for m delta expected actual num msg line style flags
  by (rule assertion_code) (rule within_array_outcome)

interpretation string_arrays: plain_code "UnityAssertEqualStringArray m expected actual num msg line flags"
  for m expected actual num msg line flags
  by (rule assertion_code) (rule string_array_outcome)

interpretation areas: plain_code "UnityAssertEqualMemory m expected actual len num msg line flags"
  for m expected actual len num msg line flags
  by (rule assertion_code) (rule memory_outcome)

interpretation bits: total_test_code "\<lambda>u. Some (UnityAssertBits msk expected actual msg line u)"
  for msk expected actual msg line
  unfolding assert_bits by (rule total_assertion_code)

interpretation equal_numbers: total_test_code "\<lambda>u. Some (UnityAssertEqualNumber expected actual msg line style u)"
  for expected actual msg line style
  unfolding assert_equal_number by (rule total_assertion_code)

interpretation comparisons: total_test_code
  "\<lambda>u. Some (UnityAssertGreaterOrLessOrEqualNumber threshold actual compare msg line style u)"
  for threshold actual compare msg line style
  unfolding assert_compare by (rule total_assertion_code)

interpretation tolerances: total_test_code "\<lambda>u. Some (UnityAssertNumbersWithin delta expected actual msg line style u)"
  for delta expected actual msg line style
  unfolding assert_within by (rule total_assertion_code)

interpretation strings: total_test_code "\<lambda>u. Some (UnityAssertEqualString expected actual msg line u)"
  for expected actual msg line
  unfolding assert_equal_string by (rule total_assertion_code)

interpretation failing: total_test_code "\<lambda>u. Some (UnityFail msg line u)" for msg line
  unfolding fail_always by (rule total_assertion_code)

interpretation ignoring: total_test_code "\<lambda>u. Some (UnityIgnore msg line u)" for msg line
  by unfold_locales (auto simp: ignore_always keeps_def keeps_marks_def split: if_splits)

interpretation messages: total_test_code "\<lambda>u. Some (Inr (UnityMessage msg line u))" for msg line
  by unfold_locales (auto simp: message_always keeps_def keeps_marks_def)

interpretation nothing: total_test_code "\<lambda>u. Some (Inr u)"
  by unfold_locales auto

interpretation passing: total_test_code "\<lambda>u. Some (TEST_PASS u)"
  by unfold_locales (auto simp: TEST_PASS_def)

interpretation passing_with_message: total_test_code "\<lambda>u. Some (TEST_PASS_MESSAGE message line u)" for message line
  by unfold_locales (auto simp: TEST_PASS_MESSAGE_def message_always keeps_def keeps_marks_def)

interpretation two_assertions: test_pair
  "\<lambda>u. Some (UnityAssertEqualNumber expected actual msg line style u)"
  "\<lambda>u. Some (UnityAssertEqualString expected' actual' msg' line' u)"
  for expected actual msg line style expected' actual' msg' line'
  by unfold_locales

interpretation plain_fixture: test_fixture "\<lambda>u. Some (Inr u)"
  "sequence (\<lambda>u. Some (UnityAssertEqualNumber expected actual msg line style u))
     (\<lambda>u. Some (UnityAssertEqualString expected' actual' msg' line' u))"
  "\<lambda>u. Some (Inr u)"
  for expected actual msg line style expected' actual' msg' line'
  by unfold_locales

subsection \<open>A run of tests\<close>

text \<open>A list of verdicts explains a run: every test starts without a mark, and its verdict is that of
  the marks that its set-up, body and tear-down leave.\<close>

fun explained ::
  "test_function \<Rightarrow> test_function \<Rightarrow> (cstring \<times> u32 \<times> test_function) list \<Rightarrow> unity \<Rightarrow> verdict list \<Rightarrow> unity \<Rightarrow> bool"
where
  "explained setUp tearDown [] u [] u' = (u' = u)"
| "explained setUp tearDown ((name, line, func) # tests) u (v # vs) u' =
     (\<exists>l w. left_by setUp func tearDown (prepared name line u) = Some l \<and> v = verdict_of l
       \<and> \<not> bailed (prepared name line u)
       \<and> UnityDefaultTestRun setUp tearDown func name line u = Some w
       \<and> explained setUp tearDown tests w vs u')"
| "explained setUp tearDown _ u _ u' = False"

definition all_fixtures :: "test_function \<Rightarrow> test_function \<Rightarrow> (cstring \<times> u32 \<times> test_function) list \<Rightarrow> bool" where
  "all_fixtures setUp tearDown tests \<longleftrightarrow> (\<forall>(name, line, func) \<in> set tests. test_fixture setUp func tearDown)"

lemma run_tests_counted:
  assumes "all_fixtures setUp tearDown tests" "\<not> bailed u"
  shows "\<exists>vs u'. run_tests setUp tearDown tests u = Some u' \<and> explained setUp tearDown tests u vs u'
    \<and> length vs = length tests \<and> \<not> bailed u' \<and> TestFile u' = TestFile u \<and> prefix (printed u) (printed u')
    \<and> NumberOfTests u' = NumberOfTests u + of_nat (length tests)
    \<and> TestFailures u' = TestFailures u + of_nat (count_list vs Failed)
    \<and> TestIgnores u' = TestIgnores u + of_nat (count_list vs Ignored)"
  using assms
proof (induction tests arbitrary: u)
  case Nil
  then show ?case by (intro exI[of _ "[]"] exI[of _ u]) simp
next
  case (Cons t tests)
  obtain name line func where t: "t = (name, line, func)" by (cases t)
  have fixture: "test_fixture setUp func tearDown" and rest: "all_fixtures setUp tearDown tests"
    using Cons.prems(1) t by (auto simp: all_fixtures_def)
  obtain l w where w: "UnityDefaultTestRun setUp tearDown func name line u = Some w" "counted (verdict_of l) u w"
      "\<not> bailed w" "left_by setUp func tearDown (prepared name line u) = Some l"
    using test_fixture.run_one[OF fixture] by blast
  have start: "\<not> bailed (prepared name line u)"
    using Cons.prems(2) by (simp add: bailed_def prepared_def UNITY_CLR_DETAILS_def)
  obtain vs u' where u': "run_tests setUp tearDown tests w = Some u'" "explained setUp tearDown tests w vs u'"
      "length vs = length tests" "\<not> bailed u'" "TestFile u' = TestFile w" "prefix (printed w) (printed u')"
      "NumberOfTests u' = NumberOfTests w + of_nat (length tests)"
      "TestFailures u' = TestFailures w + of_nat (count_list vs Failed)"
      "TestIgnores u' = TestIgnores w + of_nat (count_list vs Ignored)"
    using Cons.IH[OF rest w(3)] by blast
  have "prefix (printed u) (printed u')" using u'(6) w(2) by (auto simp: counted_def)
  then show ?case
    using u' w t start
    by (intro exI[of _ "verdict_of l # vs"] exI[of _ u']) (cases "verdict_of l"; simp add: counted_def)
qed

lemma begin_state:
  "\<not> bailed (UnityBegin filename u)" "NumberOfTests (UnityBegin filename u) = 0"
  "TestFailures (UnityBegin filename u) = 0" "TestIgnores (UnityBegin filename u) = 0"
  "TestFile (UnityBegin filename u) = filename"
  by (simp_all add: UnityBegin_def UNITY_CLR_DETAILS_def bailed_def)

subsection \<open>Properties\<close>

text \<open>Property C16: a run of tests never stops early and counts exactly: from a fresh beginning every
  test is run, each starting without a mark, the number of tests is the length of the list, and each
  test gets the verdict of the marks that its set-up, body and tear-down leave: ignored if it is
  marked as ignored, else failed if it is marked as failed, else passed, as a test that ends with
  \<open>TEST_PASS\<close> is. The counters of failures and of ignored tests are the numbers of these verdicts,
  and the number of failures is the result. Test code may return or leave in any way; it does not
  touch the counters or take a mark away.\<close>

theorem report_counts_are_exact:
  assumes "all_fixtures setUp tearDown tests" "length tests < 2 ^ 64"
  shows "\<exists>vs u'. run_tests setUp tearDown tests (UnityBegin filename u) = Some u'
    \<and> explained setUp tearDown tests (UnityBegin filename u) vs u'
    \<and> length vs = length tests \<and> unat (NumberOfTests u') = length tests
    \<and> unat (TestFailures u') = count_list vs Failed \<and> unat (TestIgnores u') = count_list vs Ignored
    \<and> fst (UnityEnd u') = of_nat (count_list vs Failed)
    \<and> (TestFailures u' = 0 \<longleftrightarrow> Failed \<notin> set vs)"
proof -
  obtain vs u' where u': "run_tests setUp tearDown tests (UnityBegin filename u) = Some u'"
      "explained setUp tearDown tests (UnityBegin filename u) vs u'" "length vs = length tests"
      "NumberOfTests u' = of_nat (length tests)" "TestFailures u' = of_nat (count_list vs Failed)"
      "TestIgnores u' = of_nat (count_list vs Ignored)"
    using run_tests_counted[OF assms(1) begin_state(1), of filename u] by (auto simp: begin_state)
  have "count_list vs x < 2 ^ 64" for x
    using count_le_length[of vs x] u'(3) assms(2) by linarith
  then have counts: "unat (NumberOfTests u') = length tests" "unat (TestFailures u') = count_list vs Failed"
      "unat (TestIgnores u') = count_list vs Ignored"
    using u'(4-6) assms(2) by (simp_all only: unat_of_nat_64)
  then have "TestFailures u' = 0 \<longleftrightarrow> Failed \<notin> set vs"
    by (metis count_notin count_list_0_iff unat_0 word_unat_eq_iff)
  moreover have "fst (UnityEnd u') = of_nat (count_list vs Failed)"
    using counts(2) by (metis UnityEnd_def fst_conv of_nat_unat)
  ultimately show ?thesis using u' counts by blast
qed

text \<open>Three tests: one with an assertion that holds, one with an assertion that does not, and one that
  stops as passed before it.\<close>

definition no_fixture :: test_function where
  "no_fixture u = Some (Inr u)"

definition comparing :: "u64 \<Rightarrow> u64 \<Rightarrow> test_function" where
  "comparing a b u = Some (UnityAssertEqualNumber a b None 7 UNITY_DISPLAY_STYLE_INT u)"

definition stopping :: "test_function \<Rightarrow> test_function" where
  "stopping rest = sequence (\<lambda>u. Some (TEST_PASS u)) rest"

definition sample_tests :: "(cstring \<times> u32 \<times> test_function) list" where
  "sample_tests = [(Some (str ''good''), 5, comparing 1 1), (Some (str ''bad''), 6, comparing 1 2),
     (Some (str ''short''), 7, stopping (comparing 1 2))]"

interpretation sample_fixture: test_fixture no_fixture "comparing a b" no_fixture for a b
  using nothing.total_test_code_axioms equal_numbers.total_test_code_axioms[of a b None 7 UNITY_DISPLAY_STYLE_INT]
  by (simp add: test_fixture_def test_pair_def no_fixture_def[abs_def] comparing_def[abs_def])

interpretation short_body: test_pair "\<lambda>u. Some (TEST_PASS u)" "comparing a b" for a b
  by unfold_locales

interpretation short_fixture: test_fixture no_fixture "stopping (comparing a b)" no_fixture for a b
  using short_body.seq.total_test_code_axioms[of a b] sample_fixture.test_fixture_axioms
  by (simp add: test_fixture_def test_pair_def stopping_def)

lemma sample_tests_ok: "all_fixtures no_fixture no_fixture sample_tests"
  using sample_fixture.test_fixture_axioms short_fixture.test_fixture_axioms
  by (simp add: all_fixtures_def sample_tests_def)

lemma sample_verdicts:
  "explained no_fixture no_fixture sample_tests u vs u' \<Longrightarrow> vs = [Passed, Failed, Passed]"
proof -
  have one: "left_by no_fixture (comparing a b) no_fixture u = Some l \<Longrightarrow> \<not> bailed u \<Longrightarrow>
      verdict_of l = (if a = b then Passed else Failed)" for a b u l
    by (auto simp: left_by_def no_fixture_def comparing_def assert_equal_number assertion_def bailed_def
        verdict_of_def split: if_splits)
  have "left_by no_fixture (stopping f) no_fixture u = Some l \<Longrightarrow> \<not> bailed u \<Longrightarrow> verdict_of l = Passed" for f u l
    by (auto simp: left_by_def no_fixture_def stopping_def sequence_def TEST_PASS_def verdict_Passed)
  then show "explained no_fixture no_fixture sample_tests u vs u' \<Longrightarrow> vs = [Passed, Failed, Passed]"
    using one by (cases vs; cases "tl vs"; cases "tl (tl vs)"; cases "tl (tl (tl vs))")
      (fastforce simp: sample_tests_def)+
qed

theorem report_counts_are_exact_witness:
  "\<exists>u'. run_tests no_fixture no_fixture sample_tests (UnityBegin (Some (str ''t.c'')) sample_unity) = Some u'
    \<and> unat (NumberOfTests u') = 3 \<and> unat (TestFailures u') = 1 \<and> unat (TestIgnores u') = 0"
proof -
  have n: "length sample_tests = 3" by (simp add: sample_tests_def)
  obtain vs u' where u': "run_tests no_fixture no_fixture sample_tests (UnityBegin (Some (str ''t.c'')) sample_unity) = Some u'"
      "explained no_fixture no_fixture sample_tests (UnityBegin (Some (str ''t.c'')) sample_unity) vs u'"
      "unat (NumberOfTests u') = 3" "unat (TestFailures u') = count_list vs Failed"
      "unat (TestIgnores u') = count_list vs Ignored"
    using report_counts_are_exact[OF sample_tests_ok, of "Some (str ''t.c'')" sample_unity]
    unfolding n by auto
  then show ?thesis using sample_verdicts[OF u'(2)] by auto
qed

text \<open>A single test whose set-up, body and tear-down return passes (neither counter moves), if they
  do not catch the jumps of their own assertions.\<close>

theorem test_passes_if_nothing_leaves:
  assumes "plain_code setUp" "plain_code func" "plain_code tearDown" "\<not> bailed u"
    and "all_return setUp func tearDown (prepared name line u)"
  shows "\<exists>u'. UnityDefaultTestRun setUp tearDown func name line u = Some u'
    \<and> TestFailures u' = TestFailures u \<and> TestIgnores u' = TestIgnores u \<and> \<not> bailed u'"
proof -
  obtain a b c where r: "setUp (prepared name line u) = Some (Inr a)" "func a = Some (Inr b)"
      "tearDown b = Some (Inr c)"
    using left_by_returns[OF assms(5)] by metis
  have "\<not> bailed (prepared name line u)"
    using assms(4) by (simp add: bailed_def prepared_def UNITY_CLR_DETAILS_def)
  then have "verdict_of c = Passed"
    unfolding verdict_Passed
    using plain_code.unmarked[OF assms(1) r(1)] plain_code.unmarked[OF assms(2) r(2)]
      plain_code.unmarked[OF assms(3) r(3)] by simp
  moreover have "keeps (prepared name line u) c"
    using test_code.returns[OF plain_code.axioms(1)[OF assms(1)] r(1)]
      test_code.returns[OF plain_code.axioms(1)[OF assms(2)] r(2)]
      test_code.returns[OF plain_code.axioms(1)[OF assms(3)] r(3)] keeps_trans by blast
  moreover have "UnityDefaultTestRun setUp tearDown func name line u = Some (UnityConcludeTest c)"
    using r by (simp add: UnityDefaultTestRun_def prepared_def TEST_PROTECT_def sequence_def Let_def)
  ultimately show ?thesis
    using conclude_counted by (fastforce simp: counted_def)
qed

theorem test_passes_if_nothing_leaves_witness:
  "\<exists>u'. UnityDefaultTestRun no_fixture no_fixture (comparing 1 1) None 6 sample_unity = Some u'
    \<and> TestFailures u' = TestFailures sample_unity"
proof -
  have "plain_code (comparing 1 1)"
    by (rule assertion_code) (auto simp: comparing_def assert_equal_number intro: assertion_outcome)
  moreover have "plain_code no_fixture"
    by unfold_locales (auto simp: no_fixture_def)
  moreover have "all_return no_fixture (comparing 1 1) no_fixture (prepared None 6 sample_unity)"
    by (simp add: all_return_def sequence_def no_fixture_def comparing_def assert_equal_number assertion_def
        prepared_def UNITY_CLR_DETAILS_def sample_unity_def bailed_def)
  ultimately show ?thesis
    using test_passes_if_nothing_leaves[OF _ _ _ sample_unity_runs] by blast
qed

end
