(* ===== verification/Unity_Config.thy ===== *)
theory Unity_Config
  imports Unity_Macros Unity_Runner Unity_Float "HOL-Library.Signed_Division"
begin

section \<open>Unity: what the headers derive from the platform\<close>

text \<open>
  The part of \<^verbatim>\<open>assignment-autotest/Unity/src/unity_internals.h\<close> that is computed by the preprocessor:
  the widths of the integer types, the types of \<open>UNITY_INT\<close> and of pointers, the macros for numbers of
  64 bits and for floating-point numbers in all builds, the time measurement, and \<open>RUN_TEST\<close>. What the
  system headers and the user have defined is a parameter. A result \<open>None\<close> is a build that does not
  compile.
\<close>

subsection \<open>Widths\<close>

text \<open>The limits, if the headers define them, and the definitions of the user.\<close>

record platform =
  UINT_MAX :: "nat option"
  ULONG_MAX :: "nat option"
  UINTPTR_MAX :: "nat option"
  user_int_width :: "nat option"
  user_long_width :: "nat option"
  user_pointer_width :: "nat option"
  user_support_64 :: bool

text \<open>The chain that both \<open>UNITY_INT_WIDTH\<close> and \<open>UNITY_LONG_WIDTH\<close> have; \<open>None\<close> is a macro left undefined.\<close>

definition width_of_limit :: "nat \<Rightarrow> nat option" where
  "width_of_limit limit =
     (if limit = 0xFFFF then Some 16
      else if limit = 0xFFFFFFFF then Some 32
      else if limit = 0xFFFFFFFFFFFFFFFF then Some 64
      else None)"

definition UNITY_INT_WIDTH :: "platform \<Rightarrow> nat option" where
  "UNITY_INT_WIDTH P =
     (case user_int_width P of Some w \<Rightarrow> Some w
      | None \<Rightarrow> (case UINT_MAX P of Some limit \<Rightarrow> width_of_limit limit | None \<Rightarrow> Some 32))"

definition UNITY_LONG_WIDTH :: "platform \<Rightarrow> nat option" where
  "UNITY_LONG_WIDTH P =
     (case user_long_width P of Some w \<Rightarrow> Some w
      | None \<Rightarrow> (case ULONG_MAX P of Some limit \<Rightarrow> width_of_limit limit | None \<Rightarrow> Some 32))"

definition UNITY_POINTER_WIDTH :: "platform \<Rightarrow> nat option" where
  "UNITY_POINTER_WIDTH P =
     (case user_pointer_width P of Some w \<Rightarrow> Some w
      | None \<Rightarrow> (case UINTPTR_MAX P of
          Some limit \<Rightarrow>
            (if limit \<le> 0xFFFF then Some 16
             else if limit \<le> 0xFFFFFFFF then Some 32
             else if limit \<le> 0xFFFFFFFFFFFFFFFF then Some 64
             else None)
        | None \<Rightarrow> UNITY_LONG_WIDTH P))"

subsection \<open>Types\<close>

text \<open>The types of C; the signed ones have the widths of the unsigned ones.\<close>

datatype c_type = C_char | C_short | C_int | C_long | C_long_long

text \<open>The types of \<open>UNITY_INT8\<close>, \<open>UNITY_INT16\<close> and \<open>UNITY_INT32\<close>.\<close>

definition UNITY_INT_types :: "platform \<Rightarrow> (c_type \<times> c_type \<times> c_type) option" where
  "UNITY_INT_types P =
     (if UNITY_INT_WIDTH P = Some 32 then Some (C_char, C_short, C_int)
      else if UNITY_INT_WIDTH P = Some 16 then Some (C_char, C_int, C_long)
      else None)"

definition UNITY_SUPPORT_64 :: "platform \<Rightarrow> bool" where
  "UNITY_SUPPORT_64 P \<longleftrightarrow>
     user_support_64 P \<or> UNITY_LONG_WIDTH P = Some 64 \<or> UNITY_POINTER_WIDTH P = Some 64"

text \<open>The types \<open>UNITY_INT\<close> and \<open>UNITY_UINT\<close>, and the digits of the latter in base 16.\<close>

definition UNITY_INT_type :: "platform \<Rightarrow> (c_type \<times> nat) option" where
  "UNITY_INT_type P = do {
     (_, _, int32) \<leftarrow> UNITY_INT_types P;
     if \<not> UNITY_SUPPORT_64 P then Some (int32, 8)
     else if UNITY_LONG_WIDTH P = Some 32 then Some (C_long_long, 16)
     else if UNITY_LONG_WIDTH P = Some 64 then Some (C_long, 16)
     else None
   }"

text \<open>The type that pointers are converted to (\<open>UNITY_INT64\<close> only exists with 64-bit support), and their style.\<close>

definition UNITY_PTR_TO_INT :: "platform \<Rightarrow> (c_type \<times> UNITY_DISPLAY_STYLE_T) option" where
  "UNITY_PTR_TO_INT P = do {
     (_, int16, int32) \<leftarrow> UNITY_INT_types P;
     (int64, _) \<leftarrow> UNITY_INT_type P;
     if UNITY_POINTER_WIDTH P = Some 32 then Some (int32, UNITY_DISPLAY_STYLE_HEX32)
     else if UNITY_POINTER_WIDTH P = Some 64 then Some (int64, UNITY_DISPLAY_STYLE_HEX64)
     else if UNITY_POINTER_WIDTH P = Some 16 then Some (int16, UNITY_DISPLAY_STYLE_HEX16)
     else None
   }"

subsection \<open>The macros for numbers of 64 bits\<close>

datatype style_64 = INT64 | UINT64 | HEX64

fun style_of_64 :: "style_64 \<Rightarrow> UNITY_DISPLAY_STYLE_T" where
  "style_of_64 INT64 = UNITY_DISPLAY_STYLE_INT64"
| "style_of_64 UINT64 = UNITY_DISPLAY_STYLE_UINT64"
| "style_of_64 HEX64 = UNITY_DISPLAY_STYLE_HEX64"

text \<open>A call of one of the macros \<open>UNITY_TEST_ASSERT_...64\<close>, with its arguments up to the line.\<close>

datatype macro_64 =
    EQUAL style_64 u64 u64
  | EQUAL_ARRAY style_64 ptr ptr u32
  | EACH_EQUAL style_64 u64 ptr u32
  | WITHIN style_64 u64 u64 u64
  | NOT_EQUAL style_64 u64 u64
  | GREATER_THAN style_64 u64 u64
  | GREATER_OR_EQUAL style_64 u64 u64
  | SMALLER_THAN style_64 u64 u64
  | SMALLER_OR_EQUAL style_64 u64 u64
  | ARRAY_WITHIN style_64 u64 ptr ptr u32

definition UnityStrErr64 :: "byte list" where "UnityStrErr64 = str ''Unity 64-bit Support Disabled''"

text \<open>With 64-bit support.\<close>

fun assert_64 :: "memory \<Rightarrow> macro_64 \<Rightarrow> u64 \<Rightarrow> cstring \<Rightarrow> unity \<Rightarrow> flow option" where
  "assert_64 m (EQUAL s expected actual) line message u =
     Some (UnityAssertEqualNumber expected actual message line (style_of_64 s) u)"
| "assert_64 m (EQUAL_ARRAY s expected actual num_elements) line message u =
     UnityAssertEqualIntArray m expected actual num_elements message line (style_of_64 s) UNITY_ARRAY_TO_ARRAY u"
| "assert_64 m (EACH_EQUAL s expected actual num_elements) line message u = do {
     (p, m) \<leftarrow> UnityNumToPtr expected 8 m;
     UnityAssertEqualIntArray m p actual num_elements message line (style_of_64 s) UNITY_ARRAY_TO_VAL u
   }"
| "assert_64 m (WITHIN s delta expected actual) line message u =
     Some (UnityAssertNumbersWithin delta expected actual message line (style_of_64 s) u)"
| "assert_64 m (NOT_EQUAL s threshold actual) line message u =
     Some (UnityAssertGreaterOrLessOrEqualNumber threshold actual UNITY_NOT_EQUAL message line (style_of_64 s) u)"
| "assert_64 m (GREATER_THAN s threshold actual) line message u =
     Some (UnityAssertGreaterOrLessOrEqualNumber threshold actual UNITY_GREATER_THAN message line (style_of_64 s) u)"
| "assert_64 m (GREATER_OR_EQUAL s threshold actual) line message u =
     Some (UnityAssertGreaterOrLessOrEqualNumber threshold actual UNITY_GREATER_OR_EQUAL message line (style_of_64 s) u)"
| "assert_64 m (SMALLER_THAN s threshold actual) line message u =
     Some (UnityAssertGreaterOrLessOrEqualNumber threshold actual UNITY_SMALLER_THAN message line (style_of_64 s) u)"
| "assert_64 m (SMALLER_OR_EQUAL s threshold actual) line message u =
     Some (UnityAssertGreaterOrLessOrEqualNumber threshold actual UNITY_SMALLER_OR_EQUAL message line (style_of_64 s) u)"
| "assert_64 m (ARRAY_WITHIN s delta expected actual num_elements) line message u =
     UnityAssertNumbersArrayWithin m delta expected actual num_elements message line (style_of_64 s) UNITY_ARRAY_TO_ARRAY u"

text \<open>Without it; the macros \<open>EACH_EQUAL\<close> and \<open>NOT_EQUAL\<close> are not defined then.\<close>

fun refuse_64 :: "macro_64 \<Rightarrow> u64 \<Rightarrow> unity \<Rightarrow> flow option" where
  "refuse_64 (EACH_EQUAL s expected actual num_elements) line u = None"
| "refuse_64 (NOT_EQUAL s threshold actual) line u = None"
| "refuse_64 _ line u = Some (UnityFail (Some UnityStrErr64) line u)"

definition UNITY_TEST_ASSERT_64 ::
  "platform \<Rightarrow> memory \<Rightarrow> macro_64 \<Rightarrow> u64 \<Rightarrow> cstring \<Rightarrow> unity \<Rightarrow> flow option" where
  "UNITY_TEST_ASSERT_64 P m macro line message u =
     (if UNITY_SUPPORT_64 P then assert_64 m macro line message u else refuse_64 macro line u)"

subsection \<open>Support for floating-point numbers\<close>

text \<open>The macros that the user defines or not, and what the headers make of them.\<close>

record float_config =
  UNITY_EXCLUDE_FLOAT :: bool
  UNITY_EXCLUDE_DOUBLE :: bool
  UNITY_INCLUDE_DOUBLE :: bool
  UNITY_EXCLUDE_FLOAT_PRINT :: bool

definition float_support :: "float_config \<Rightarrow> float_config" where
  "float_support C =
     (let C = (if UNITY_EXCLUDE_FLOAT C then C\<lparr>UNITY_EXCLUDE_DOUBLE := True, UNITY_EXCLUDE_FLOAT_PRINT := True\<rparr> else C) in
      if UNITY_EXCLUDE_DOUBLE C \<or> \<not> UNITY_INCLUDE_DOUBLE C
      then (if \<not> UNITY_EXCLUDE_DOUBLE C then C\<lparr>UNITY_EXCLUDE_DOUBLE := True\<rparr> else C\<lparr>UNITY_INCLUDE_DOUBLE := False\<rparr>)
      else C)"

definition UnityStrErrFloat :: "byte list" where "UnityStrErrFloat = str ''Unity Floating Point Disabled''"

text \<open>The macros for \<open>float\<close> in a build without it.\<close>

definition UNITY_TEST_FAIL_FLOAT :: "u64 \<Rightarrow> unity \<Rightarrow> flow option" where
  "UNITY_TEST_FAIL_FLOAT line u = Some (UnityFail (Some UnityStrErrFloat) line u)"

datatype float_macro =
    FLOAT_WITHIN fp fp fp
  | EQUAL_FLOAT fp fp
  | EQUAL_FLOAT_ARRAY ptr ptr u32
  | EACH_EQUAL_FLOAT u32 ptr u32
  | FLOAT_IS UNITY_FLOAT_TRAIT_T fp

datatype double_macro =
    DOUBLE_WITHIN fp fp fp
  | EQUAL_DOUBLE fp fp
  | EQUAL_DOUBLE_ARRAY ptr ptr u32
  | EACH_EQUAL_DOUBLE u64 ptr u32
  | DOUBLE_IS UNITY_FLOAT_TRAIT_T fp

fun assert_float :: "build \<Rightarrow> memory \<Rightarrow> float_macro \<Rightarrow> u64 \<Rightarrow> cstring \<Rightarrow> unity \<Rightarrow> flow option" where
  "assert_float B m (FLOAT_WITHIN delta e a) = UNITY_TEST_ASSERT_FLOAT_WITHIN B delta e a"
| "assert_float B m (EQUAL_FLOAT e a) = UNITY_TEST_ASSERT_EQUAL_FLOAT B e a"
| "assert_float B m (EQUAL_FLOAT_ARRAY e a n) = UNITY_TEST_ASSERT_EQUAL_FLOAT_ARRAY B m e a n"
| "assert_float B m (EACH_EQUAL_FLOAT e a n) = UNITY_TEST_ASSERT_EACH_EQUAL_FLOAT B m e a n"
| "assert_float B m (FLOAT_IS style a) = UNITY_TEST_ASSERT_FLOAT_IS B style a"

fun assert_double :: "build \<Rightarrow> memory \<Rightarrow> double_macro \<Rightarrow> u64 \<Rightarrow> cstring \<Rightarrow> unity \<Rightarrow> flow option" where
  "assert_double B m (DOUBLE_WITHIN delta e a) = UNITY_TEST_ASSERT_DOUBLE_WITHIN B delta e a"
| "assert_double B m (EQUAL_DOUBLE e a) = UNITY_TEST_ASSERT_EQUAL_DOUBLE B e a"
| "assert_double B m (EQUAL_DOUBLE_ARRAY e a n) = UNITY_TEST_ASSERT_EQUAL_DOUBLE_ARRAY B m e a n"
| "assert_double B m (EACH_EQUAL_DOUBLE e a n) = UNITY_TEST_ASSERT_EACH_EQUAL_DOUBLE B m e a n"
| "assert_double B m (DOUBLE_IS style a) = UNITY_TEST_ASSERT_DOUBLE_IS B style a"

text \<open>The macros as a user's settings make them.\<close>

definition build_of :: "float_config \<Rightarrow> build" where
  "build_of C = (if UNITY_EXCLUDE_DOUBLE (float_support C) then Without_double else With_double)"

definition UNITY_TEST_ASSERT_FLOAT ::
  "float_config \<Rightarrow> memory \<Rightarrow> float_macro \<Rightarrow> u64 \<Rightarrow> cstring \<Rightarrow> unity \<Rightarrow> flow option" where
  "UNITY_TEST_ASSERT_FLOAT C m macro line message u =
     (if UNITY_EXCLUDE_FLOAT (float_support C) then UNITY_TEST_FAIL_FLOAT line u
      else assert_float (build_of C) m macro line message u)"

definition UNITY_TEST_ASSERT_DOUBLE ::
  "float_config \<Rightarrow> memory \<Rightarrow> double_macro \<Rightarrow> u64 \<Rightarrow> cstring \<Rightarrow> unity \<Rightarrow> flow option" where
  "UNITY_TEST_ASSERT_DOUBLE C m macro line message u = assert_double (build_of C) m macro line message u"

subsection \<open>The time of a test\<close>

record timespec =
  tv_sec :: int
  tv_nsec :: int

text \<open>Arithmetic in \<open>long\<close>.\<close>

definition long_value :: "int \<Rightarrow> int option" where
  "long_value x = (if - (2 ^ 63) \<le> x \<and> x < 2 ^ 63 then Some x else None)"

text \<open>The times printed: from a counter of milliseconds, and from the clock of Unix.\<close>

definition exec_time_clock :: "u64 \<Rightarrow> u64 \<Rightarrow> u64" where
  "exec_time_clock start stop = stop - start"

definition exec_time_unix :: "timespec \<Rightarrow> timespec \<Rightarrow> u64 option" where
  "exec_time_unix start stop = do {
     seconds \<leftarrow> long_value (tv_sec stop - tv_sec start);
     ms \<leftarrow> long_value (seconds * 1000);
     let execTimeMs = of_int ms;
     nanoseconds \<leftarrow> long_value (tv_nsec stop - tv_nsec start);
     Some (execTimeMs + of_int (nanoseconds sdiv 1000000))
   }"

definition UNITY_PRINT_EXEC_TIME :: "u64 \<Rightarrow> byte list" where
  "UNITY_PRINT_EXEC_TIME execTimeMs =
     UnityPrint (Some (str '' ('')) @ UnityPrintNumberUnsigned execTimeMs @ UnityPrint (Some (str '' ms)''))"

subsection \<open>Running a test\<close>

text \<open>\<open>RUN_TEST(func)\<close> and \<open>RUN_TEST(func, num)\<close>: the text of the argument is the name, and the line is
  the one given, or that of the call.\<close>

definition RUN_TEST ::
  "test_function \<Rightarrow> test_function \<Rightarrow> u32 \<Rightarrow> test_function \<Rightarrow> byte list \<Rightarrow> u32 option \<Rightarrow> unity \<Rightarrow> unity option" where
  "RUN_TEST setUp tearDown here func name num u =
     UnityDefaultTestRun setUp tearDown func (Some name) (case num of None \<Rightarrow> here | Some line \<Rightarrow> line) u"

subsection \<open>Conforming platforms\<close>

text \<open>A platform of C: the bits of its types, and headers that state them.\<close>

record data_model =
  bits :: "c_type \<Rightarrow> nat"
  pointer_bits :: nat

definition conforms :: "data_model \<Rightarrow> platform \<Rightarrow> bool" where
  "conforms D P \<longleftrightarrow>
     bits D C_char = 8 \<and> bits D C_short = 16 \<and> bits D C_long_long = 64
   \<and> (bits D C_int = 32 \<and> (bits D C_long = 32 \<or> bits D C_long = 64) \<or> bits D C_int = 16 \<and> bits D C_long = 32)
   \<and> pointer_bits D \<le> 64
   \<and> UINT_MAX P = Some (2 ^ bits D C_int - 1) \<and> ULONG_MAX P = Some (2 ^ bits D C_long - 1)
   \<and> UINTPTR_MAX P = Some (2 ^ pointer_bits D - 1)
   \<and> user_int_width P = None \<and> user_long_width P = None \<and> user_pointer_width P = None"

lemma conforming_widths:
  assumes "conforms D P"
  shows "UNITY_INT_WIDTH P = Some (bits D C_int)" "UNITY_LONG_WIDTH P = Some (bits D C_long)"
    "UNITY_POINTER_WIDTH P = Some (if pointer_bits D \<le> 16 then 16 else if pointer_bits D \<le> 32 then 32 else 64)"
proof -
  have limits: "width_of_limit (2 ^ 16 - 1) = Some 16" "width_of_limit (2 ^ 32 - 1) = Some 32" "width_of_limit (2 ^ 64 - 1) = Some 64"
    by (simp_all add: width_of_limit_def)
  show "UNITY_INT_WIDTH P = Some (bits D C_int)"
    using assms limits(1,2) unfolding conforms_def UNITY_INT_WIDTH_def by (elim conjE disjE) (simp_all only: option.case)
  show "UNITY_LONG_WIDTH P = Some (bits D C_long)"
    using assms limits(2,3) unfolding conforms_def UNITY_LONG_WIDTH_def by (elim conjE disjE) (simp_all only: option.case)
  have "(2 :: nat) ^ pointer_bits D - 1 \<le> 2 ^ k - 1 \<longleftrightarrow> pointer_bits D \<le> k" for k
    using one_le_power[of "2 :: nat" "pointer_bits D"] one_le_power[of "2 :: nat" k]
    by (simp add: le_diff_conv power_increasing_iff)
  from this[of 16] this[of 32] this[of 64]
  have "2 ^ pointer_bits D - 1 \<le> (0xFFFF :: nat) \<longleftrightarrow> pointer_bits D \<le> 16"
    "2 ^ pointer_bits D - 1 \<le> (0xFFFFFFFF :: nat) \<longleftrightarrow> pointer_bits D \<le> 32"
    "2 ^ pointer_bits D - 1 \<le> (0xFFFFFFFFFFFFFFFF :: nat) \<longleftrightarrow> pointer_bits D \<le> 64" by simp_all
  then show "UNITY_POINTER_WIDTH P = Some (if pointer_bits D \<le> 16 then 16 else if pointer_bits D \<le> 32 then 32 else 64)"
    using assms unfolding conforms_def UNITY_POINTER_WIDTH_def by (simp only: option.case if_True split: if_split) simp
qed

text \<open>Property C24: on every conforming platform whose headers define the limits the derived types are right:
  the build compiles, the types of 8, 16 and 32 bits have these widths, \<open>UNITY_INT\<close> holds every \<open>int\<close>, \<open>long\<close> and
  pointer and its digits in base 16 fill it, the type for pointers holds them, and the style in which they
  are printed and compared has its length.\<close>

theorem detected_types_fit:
  assumes "conforms D P"
  shows "\<exists>int8 int16 int32 t nibbles pt style. UNITY_INT_types P = Some (int8, int16, int32)
    \<and> bits D int8 = 8 \<and> bits D int16 = 16 \<and> bits D int32 = 32
    \<and> UNITY_INT_type P = Some (t, nibbles) \<and> bits D t = 4 * nibbles
    \<and> bits D C_int \<le> bits D t \<and> bits D C_long \<le> bits D t
    \<and> UNITY_PTR_TO_INT P = Some (pt, style) \<and> pointer_bits D \<le> bits D pt \<and> bits D pt \<le> bits D t
    \<and> bits D pt = 8 * unat (style_length style)"
proof -
  note w = conforming_widths[OF assms]
  have lengths: "unat (style_length UNITY_DISPLAY_STYLE_HEX16) = 2" "unat (style_length UNITY_DISPLAY_STYLE_HEX32) = 4"
      "unat (style_length UNITY_DISPLAY_STYLE_HEX64) = 8" by (simp_all add: style_length_def)
  show ?thesis
    using assms unfolding conforms_def
    by (auto simp: UNITY_INT_types_def UNITY_INT_type_def UNITY_PTR_TO_INT_def UNITY_SUPPORT_64_def w lengths split: if_splits)
qed

text \<open>The platform of this development.\<close>

definition LP64 :: platform where
  "LP64 = \<lparr>UINT_MAX = Some 0xFFFFFFFF, ULONG_MAX = Some 0xFFFFFFFFFFFFFFFF, UINTPTR_MAX = Some 0xFFFFFFFFFFFFFFFF,
     user_int_width = None, user_long_width = None, user_pointer_width = None, user_support_64 = False\<rparr>"

definition LP64_types :: data_model where
  "LP64_types = \<lparr>bits = (\<lambda>t. case t of C_char \<Rightarrow> 8 | C_short \<Rightarrow> 16 | C_int \<Rightarrow> 32 | _ \<Rightarrow> 64), pointer_bits = 64\<rparr>"

lemma LP64_conforms: "conforms LP64_types LP64"
  by (simp add: conforms_def LP64_types_def LP64_def)

theorem detected_types_fit_witness:
  "conforms LP64_types LP64 \<and> UNITY_SUPPORT_64 LP64
   \<and> (\<exists>t nibbles. UNITY_INT_type LP64 = Some (t, nibbles) \<and> bits LP64_types t = 64 \<and> nibbles = 16)"
proof -
  have "UNITY_INT_type LP64 = Some (C_long, 16)" "UNITY_SUPPORT_64 LP64"
    by (simp_all add: UNITY_INT_type_def UNITY_INT_types_def UNITY_SUPPORT_64_def UNITY_INT_WIDTH_def
        UNITY_LONG_WIDTH_def width_of_limit_def LP64_def)
  then show ?thesis using detected_types_fit[OF LP64_conforms] LP64_conforms by auto
qed

text \<open>Without the limits the widths are guessed as 32 bits, so where \<open>UINTPTR_MAX\<close> is missing too, pointers of
  64 bits are compared by half.\<close>

lemma guessed_pointer_width:
  assumes "P = LP64\<lparr>UINT_MAX := None, ULONG_MAX := None, UINTPTR_MAX := None\<rparr>"
  shows "UNITY_PTR_TO_INT P = Some (C_int, UNITY_DISPLAY_STYLE_HEX32)" "bits LP64_types C_int < pointer_bits LP64_types"
  by (simp_all add: assms LP64_def LP64_types_def UNITY_PTR_TO_INT_def UNITY_INT_type_def UNITY_INT_types_def
      UNITY_SUPPORT_64_def UNITY_INT_WIDTH_def UNITY_LONG_WIDTH_def UNITY_POINTER_WIDTH_def)

subsection \<open>The macros for numbers of 64 bits in both builds\<close>

text \<open>What a macro for single numbers says.\<close>

fun states_64 :: "macro_64 \<Rightarrow> bool option" where
  "states_64 (EQUAL s expected actual) = Some (actual = expected)"
| "states_64 (WITHIN s delta expected actual) =
     Some (\<bar>typed_value (style_of_64 s) expected - typed_value (style_of_64 s) actual\<bar> \<le> uint delta)"
| "states_64 (NOT_EQUAL s threshold actual) = Some (actual \<noteq> threshold)"
| "states_64 (GREATER_THAN s threshold actual) =
     Some (typed_value (style_of_64 s) actual > typed_value (style_of_64 s) threshold)"
| "states_64 (GREATER_OR_EQUAL s threshold actual) =
     Some (typed_value (style_of_64 s) actual \<ge> typed_value (style_of_64 s) threshold)"
| "states_64 (SMALLER_THAN s threshold actual) =
     Some (typed_value (style_of_64 s) actual < typed_value (style_of_64 s) threshold)"
| "states_64 (SMALLER_OR_EQUAL s threshold actual) =
     Some (typed_value (style_of_64 s) actual \<le> typed_value (style_of_64 s) threshold)"
| "states_64 _ = None"

lemma number_value_64: "number_value (style_of_64 s) v = typed_value (style_of_64 s) v"
  by (cases s) (simp_all add: number_value_def int_range_styles)

lemma typed_value_64_eq: "typed_value (style_of_64 s) v = typed_value (style_of_64 s) w \<longleftrightarrow> v = w"
  by (cases s) (simp_all add: sint_eq_iff word_uint_eq_iff[symmetric])

lemma refuse_64_fails: "\<not> bailed u \<Longrightarrow> refuse_64 macro line u = Some r \<Longrightarrow> decides False u r"
  by (cases macro) (auto simp: decides_def fail_always assertion_def marked_def)

text \<open>In a build with 64-bit support the macros for single numbers of 64 bits pass without effect
  exactly if what they say holds of the numbers, read as signed or unsigned; in a build without it no macro
  for numbers of 64 bits ever passes, whatever its arguments: it leaves the test with a failure, or is not
  defined (\<open>EACH_EQUAL\<close> and \<open>NOT_EQUAL\<close>).\<close>

theorem macros_64_in_both_builds:
  assumes "\<not> bailed u" "UNITY_TEST_ASSERT_64 P m macro line message u = Some r"
  shows "if UNITY_SUPPORT_64 P then (\<forall>ok. states_64 macro = Some ok \<longrightarrow> decides ok u r) else decides False u r"
proof (cases "UNITY_SUPPORT_64 P")
  case True
  then have run: "assert_64 m macro line message u = Some r" using assms(2) by (simp add: UNITY_TEST_ASSERT_64_def)
  have "decides ok u r" if "states_64 macro = Some ok" for ok
    using run that assertion_decides[OF assms(1)]
    by (cases macro) (auto simp: assert_equal_number assert_compare assert_within number_value_64 typed_value_64_eq)
  then show ?thesis using True by simp
next
  case False
  then show ?thesis using refuse_64_fails[OF assms(1)] assms(2) by (simp add: UNITY_TEST_ASSERT_64_def)
qed

text \<open>A 16-bit platform has no 64-bit support.\<close>

theorem macros_64_in_both_builds_witness:
  "\<exists>r text. UNITY_TEST_ASSERT_64 (LP64\<lparr>UINT_MAX := Some 0xFFFF, ULONG_MAX := Some 0xFFFFFFFF, UINTPTR_MAX := Some 0xFFFF\<rparr>)
      Map.empty (EQUAL INT64 1 1) 7 None sample_unity = Some r \<and> r = Inl (marked sample_unity text)"
proof -
  let ?P = "LP64\<lparr>UINT_MAX := Some 0xFFFF, ULONG_MAX := Some 0xFFFFFFFF, UINTPTR_MAX := Some 0xFFFF\<rparr>"
  have no: "\<not> UNITY_SUPPORT_64 ?P"
    by (simp add: UNITY_SUPPORT_64_def UNITY_LONG_WIDTH_def UNITY_POINTER_WIDTH_def width_of_limit_def LP64_def)
  then obtain r where r: "UNITY_TEST_ASSERT_64 ?P Map.empty (EQUAL INT64 1 1) 7 None sample_unity = Some r"
    by (simp add: UNITY_TEST_ASSERT_64_def)
  then show ?thesis using macros_64_in_both_builds[OF sample_unity_runs r] no by (auto simp: decides_def)
qed

subsection \<open>The macros for floating-point numbers in all builds\<close>

lemma float_support_cases:
  "UNITY_EXCLUDE_FLOAT (float_support C) \<longleftrightarrow> UNITY_EXCLUDE_FLOAT C"
  "UNITY_EXCLUDE_DOUBLE (float_support C) \<longleftrightarrow> UNITY_EXCLUDE_FLOAT C \<or> UNITY_EXCLUDE_DOUBLE C \<or> \<not> UNITY_INCLUDE_DOUBLE C"
  "UNITY_EXCLUDE_FLOAT_PRINT (float_support C) \<longleftrightarrow> UNITY_EXCLUDE_FLOAT C \<or> UNITY_EXCLUDE_FLOAT_PRINT C"
  by (simp_all add: float_support_def Let_def)

lemma refused: "\<not> bailed u \<Longrightarrow> Some (UnityFail (Some text) line u) = Some r \<Longrightarrow> decides False u r"
  by (auto simp: decides_def fail_always assertion_def marked_def)

text \<open>However the user's settings contradict each other, there is \<open>double\<close> only where there is \<open>float\<close> and it
  was asked for; a macro for a type that the build lacks never passes, whatever its arguments.\<close>

theorem excluded_types_never_pass:
  assumes "\<not> bailed u"
  shows "UNITY_EXCLUDE_FLOAT C \<Longrightarrow> UNITY_TEST_ASSERT_FLOAT C m macro line message u = Some r \<Longrightarrow> decides False u r"
    and "UNITY_EXCLUDE_FLOAT C \<or> UNITY_EXCLUDE_DOUBLE C \<or> \<not> UNITY_INCLUDE_DOUBLE C \<Longrightarrow>
      UNITY_TEST_ASSERT_DOUBLE C m dmacro line message u = Some r \<Longrightarrow> decides False u r"
proof -
  show "UNITY_EXCLUDE_FLOAT C \<Longrightarrow> UNITY_TEST_ASSERT_FLOAT C m macro line message u = Some r \<Longrightarrow> decides False u r"
    using refused[OF assms] by (auto simp: UNITY_TEST_ASSERT_FLOAT_def UNITY_TEST_FAIL_FLOAT_def float_support_cases)
  show "UNITY_EXCLUDE_FLOAT C \<or> UNITY_EXCLUDE_DOUBLE C \<or> \<not> UNITY_INCLUDE_DOUBLE C \<Longrightarrow>
      UNITY_TEST_ASSERT_DOUBLE C m dmacro line message u = Some r \<Longrightarrow> decides False u r"
    using refused[OF assms]
    by (cases dmacro) (auto simp: UNITY_TEST_ASSERT_DOUBLE_def build_of_def float_support_cases UNITY_TEST_FAIL_DOUBLE_def
        UNITY_TEST_ASSERT_DOUBLE_WITHIN_def UNITY_TEST_ASSERT_EQUAL_DOUBLE_def UNITY_TEST_ASSERT_EQUAL_DOUBLE_ARRAY_def
        UNITY_TEST_ASSERT_EACH_EQUAL_DOUBLE_def UNITY_TEST_ASSERT_DOUBLE_IS_def)
qed

subsection \<open>The time printed\<close>

definition elapsed_ns :: "timespec \<Rightarrow> timespec \<Rightarrow> int" where
  "elapsed_ns start stop = (tv_sec stop * 10 ^ 9 + tv_nsec stop) - (tv_sec start * 10 ^ 9 + tv_nsec start)"

definition valid_time :: "timespec \<Rightarrow> bool" where
  "valid_time t \<longleftrightarrow> 0 \<le> tv_sec t \<and> tv_sec t < 2 ^ 53 \<and> 0 \<le> tv_nsec t \<and> tv_nsec t < 10 ^ 9"

lemma uint_of_int_small: "0 \<le> z \<Longrightarrow> z < 2 ^ 64 \<Longrightarrow> uint (of_int z :: u64) = z"
  by (simp add: unsigned_of_int take_bit_int_eq_self)

lemma sdiv_parts:
  obtains q r where "n = q * 1000000 + r" "n sdiv 1000000 = q" "\<bar>r\<bar> < (1000000 :: int)"
    "0 \<le> n \<Longrightarrow> 0 \<le> r" "n \<le> 0 \<Longrightarrow> r \<le> 0"
proof
  show "n = n sdiv 1000000 * 1000000 + n smod 1000000" by (simp add: sdiv_mult_smod_eq)
  show "\<bar>n smod 1000000\<bar> < 1000000" "0 \<le> n \<Longrightarrow> 0 \<le> n smod 1000000" "n \<le> 0 \<Longrightarrow> n smod 1000000 \<le> 0"
    using smod_int_compares(1-4)[of n 1000000] by (cases "0 \<le> n"; simp)+
qed simp

text \<open>The time printed behind a test is never off by a millisecond or more: for two valid times of
  the Unix clock, the second not before the first, the computation does not overflow, although the
  nanoseconds are subtracted and divided separately and the division rounds towards zero.\<close>

theorem exec_time_within_a_millisecond:
  assumes "valid_time start" "valid_time stop" "0 \<le> elapsed_ns start stop"
  shows "\<exists>ms. exec_time_unix start stop = Some ms \<and> \<bar>uint ms * 10 ^ 6 - elapsed_ns start stop\<bar> < 10 ^ 6"
proof -
  define d n where "d = tv_sec stop - tv_sec start" and "n = tv_nsec stop - tv_nsec start"
  obtain q r where q: "n = q * 1000000 + r" "n sdiv 1000000 = q" "\<bar>r\<bar> < 1000000" "0 \<le> n \<Longrightarrow> 0 \<le> r" "n \<le> 0 \<Longrightarrow> r \<le> 0"
    using sdiv_parts[of n] by blast
  have e: "elapsed_ns start stop = d * 1000000000 + n" by (simp add: elapsed_ns_def d_def n_def algebra_simps)
  have n: "\<bar>n\<bar> < 1000000000" and "d < 2 ^ 53" using assms(1,2) by (auto simp: valid_time_def n_def d_def)
  have "0 \<le> d" using assms(3) n unfolding e by linarith
  have range: "0 \<le> d * 1000 + q" "d * 1000 + q < 2 ^ 64"
  proof -
    show "0 \<le> d * 1000 + q" using assms(3) n q unfolding e by (cases "0 \<le> n"; linarith)
    have "q \<le> 1001" using n q(1,3) by linarith
    then show "d * 1000 + q < 2 ^ 64" using \<open>d < 2 ^ 53\<close> by simp
  qed
  have "long_value d = Some d" "long_value (d * 1000) = Some (d * 1000)" "long_value n = Some n"
    using \<open>0 \<le> d\<close> \<open>d < 2 ^ 53\<close> n by (simp_all add: long_value_def abs_less_iff)
  then have "exec_time_unix start stop = Some (of_int (d * 1000 + q))"
    using q(2) by (simp add: exec_time_unix_def flip: d_def n_def)
  moreover have "uint (of_int (d * 1000 + q) :: u64) = d * 1000 + q"
    by (rule uint_of_int_small[OF range])
  moreover have "\<bar>(d * 1000 + q) * 10 ^ 6 - elapsed_ns start stop\<bar> < 10 ^ 6" using q(1,3) unfolding e by simp
  ultimately show ?thesis by auto
qed

theorem exec_time_within_a_millisecond_witness:
  "\<exists>ms. exec_time_unix \<lparr>tv_sec = 5, tv_nsec = 999999999\<rparr> \<lparr>tv_sec = 7, tv_nsec = 1\<rparr> = Some ms
    \<and> \<bar>uint ms * 10 ^ 6 - 1000000002\<bar> < 10 ^ 6"
  using exec_time_within_a_millisecond[of "\<lparr>tv_sec = 5, tv_nsec = 999999999\<rparr>" "\<lparr>tv_sec = 7, tv_nsec = 1\<rparr>"]
  by (simp add: valid_time_def elapsed_ns_def)

end
