(* ===== verification/Unity_Memory.thy ===== *)
theory Unity_Memory
  imports Unity_Core
begin

section \<open>Unity: the checking allocator\<close>

text \<open>
  \<^verbatim>\<open>assignment-autotest/Unity/extras/memory/src/unity_memory.c\<close>, built over the allocator of the
  C library. A block is the header \<open>Guard\<close> and the bytes behind it; a pointer names a live block
  and stands for the address behind the header, and \<open>None\<close> is \<open>NULL\<close>. Whether \<open>malloc\<close> succeeds and
  what a new block contains are parameters. The use of a freed block, and accesses outside a block,
  have no value. A failed check leaves the test: the result is \<open>Inl\<close> the state at the jump.
\<close>

record guard =
  size :: u64
  guard_space :: u64
  bytes :: "byte list"

record test_heap =
  malloc_count :: int
  malloc_fail_countdown :: int
  blocks :: "nat \<Rightarrow> guard option"
  new_block :: nat
  unity :: unity

type_synonym pointer = "nat option"

record allocator =
  alloc_ok :: "nat \<Rightarrow> u64 \<Rightarrow> bool"
  junk :: "nat \<Rightarrow> nat \<Rightarrow> byte"

abbreviation (input) MALLOC_DONT_FAIL :: int where "MALLOC_DONT_FAIL \<equiv> - 1"
abbreviation (input) UNITY_MALLOC_ALIGNMENT :: u64 where "UNITY_MALLOC_ALIGNMENT \<equiv> 8"
abbreviation (input) sizeof_Guard :: u64 where "sizeof_Guard \<equiv> 16"
abbreviation (input) sizeof_end :: u64 where "sizeof_end \<equiv> 4"

text \<open>\<open>"END"\<close> with its terminator.\<close>

definition end_marker :: "byte list" where
  "end_marker = [0x45, 0x4E, 0x44, 0]"

definition UnityMalloc_StartTest :: "test_heap \<Rightarrow> test_heap" where
  "UnityMalloc_StartTest h = h\<lparr>malloc_count := 0, malloc_fail_countdown := MALLOC_DONT_FAIL\<rparr>"

text \<open>\<open>UNITY_TEST_FAIL(Unity.CurrentTestLineNumber, ...)\<close>, then the rest of the function.\<close>

definition test_fail :: "byte list \<Rightarrow> test_heap \<Rightarrow> test_heap + test_heap" where
  "test_fail msg h =
     map_sum (\<lambda>u. h\<lparr>unity := u\<rparr>) (\<lambda>u. h\<lparr>unity := u\<rparr>)
       (UnityFail (Some msg) (CurrentTestLineNumber (unity h)) (unity h))"

definition UnityMalloc_EndTest :: "test_heap \<Rightarrow> test_heap + test_heap" where
  "UnityMalloc_EndTest h =
     (let h = h\<lparr>malloc_fail_countdown := MALLOC_DONT_FAIL\<rparr> in
      if malloc_count h \<noteq> 0 then test_fail (str ''This test leaks!'') h else Inr h)"

definition UnityMalloc_MakeMallocFailAfterCount :: "int \<Rightarrow> test_heap \<Rightarrow> test_heap" where
  "UnityMalloc_MakeMallocFailAfterCount countdown h = h\<lparr>malloc_fail_countdown := countdown\<rparr>"

definition unity_size_round_up :: "u64 \<Rightarrow> u64" where
  "unity_size_round_up sz =
     ((sz + UNITY_MALLOC_ALIGNMENT - 1) div UNITY_MALLOC_ALIGNMENT) * UNITY_MALLOC_ALIGNMENT"

text \<open>A copy of \<open>src\<close> over the bytes from the position \<open>i\<close>.\<close>

definition memcpy_at :: "byte list \<Rightarrow> nat \<Rightarrow> byte list \<Rightarrow> byte list option" where
  "memcpy_at dst i src =
     (if i + length src \<le> length dst then Some (take i dst @ src @ drop (i + length src) dst) else None)"

text \<open>The new block gets its header and the end marker; both must lie in it.\<close>

definition unity_malloc :: "allocator \<Rightarrow> u64 \<Rightarrow> test_heap \<Rightarrow> (pointer \<times> test_heap) option" where
  "unity_malloc A sz h =
     (let total_size = sizeof_Guard + unity_size_round_up (sz + sizeof_end) in
      if malloc_fail_countdown h \<noteq> MALLOC_DONT_FAIL \<and> malloc_fail_countdown h = 0 then Some (None, h)
      else
        (let h = (if malloc_fail_countdown h \<noteq> MALLOC_DONT_FAIL
                  then h\<lparr>malloc_fail_countdown := malloc_fail_countdown h - 1\<rparr> else h) in
         if sz = 0 then Some (None, h)
         else
           (let b = new_block h in
            if \<not> alloc_ok A b total_size then Some (None, h)
            else if total_size < sizeof_Guard then None
            else do {
              mem \<leftarrow> memcpy_at (map (junk A b) [0..<unat (total_size - sizeof_Guard)]) (unat sz) end_marker;
              Some (Some b, h\<lparr>malloc_count := malloc_count h + 1, new_block := b + 1,
                blocks := (blocks h)(b \<mapsto> \<lparr>size = sz, guard_space = 0, bytes = mem\<rparr>)\<rparr>)
            })))"

text \<open>\<open>strcmp(..., end) != 0\<close> on the bytes from a position.\<close>

fun strcmp_end :: "byte list \<Rightarrow> byte list \<Rightarrow> bool option" where
  "strcmp_end (b # bs) (e # es) =
     (if b \<noteq> e then Some True else if e = 0 then Some False else strcmp_end bs es)"
| "strcmp_end _ _ = None"

definition isOverrun :: "nat \<Rightarrow> test_heap \<Rightarrow> bool option" where
  "isOverrun mem h = do {
     g \<leftarrow> blocks h mem;
     if guard_space g \<noteq> 0 then Some True else strcmp_end (drop (unat (size g)) (bytes g)) end_marker
   }"

definition release_memory :: "nat \<Rightarrow> test_heap \<Rightarrow> test_heap option" where
  "release_memory mem h = do {
     g \<leftarrow> blocks h mem;
     Some (h\<lparr>malloc_count := malloc_count h - 1, blocks := (blocks h)(mem := None)\<rparr>)
   }"

definition unity_free :: "pointer \<Rightarrow> test_heap \<Rightarrow> (test_heap + test_heap) option" where
  "unity_free mem h =
     (case mem of
        None \<Rightarrow> Some (Inr h)
      | Some p \<Rightarrow> do {
          overrun \<leftarrow> isOverrun p h;
          h \<leftarrow> release_memory p h;
          Some (if overrun then test_fail (str ''Buffer overrun detected during free()'') h else Inr h)
        })"

definition unity_calloc :: "allocator \<Rightarrow> u64 \<Rightarrow> u64 \<Rightarrow> test_heap \<Rightarrow> (pointer \<times> test_heap) option" where
  "unity_calloc A num sz h = do {
     (mem, h) \<leftarrow> unity_malloc A (num * sz) h;
     (case mem of
        None \<Rightarrow> Some (None, h)
      | Some p \<Rightarrow> do {
          g \<leftarrow> blocks h p;
          zeroed \<leftarrow> memcpy_at (bytes g) 0 (replicate (unat (num * sz)) 0);
          Some (Some p, h\<lparr>blocks := (blocks h)(p \<mapsto> g\<lparr>bytes := zeroed\<rparr>)\<rparr>)
        })
   }"

text \<open>
  The result of \<open>realloc\<close> is the pointer and the state, or the state at a jump. A larger block is
  made by \<open>unity_malloc\<close>, and the old one is kept if that fails.
\<close>

definition unity_realloc :: "allocator \<Rightarrow> pointer \<Rightarrow> u64 \<Rightarrow> test_heap \<Rightarrow> (test_heap + (pointer \<times> test_heap)) option" where
  "unity_realloc A oldMem sz h =
     (case oldMem of
        None \<Rightarrow> map_option Inr (unity_malloc A sz h)
      | Some p \<Rightarrow> do {
          overrun \<leftarrow> isOverrun p h;
          g \<leftarrow> blocks h p;
          if overrun then do {
            h \<leftarrow> release_memory p h;
            (case test_fail (str ''Buffer overrun detected during realloc()'') h of
               Inl h \<Rightarrow> Some (Inl h)
             | Inr h \<Rightarrow> None)
          } else if sz = 0 then do {
            h \<leftarrow> release_memory p h;
            Some (Inr (None, h))
          } else if size g \<ge> sz then Some (Inr (oldMem, h))
          else do {
            (newMem, h) \<leftarrow> unity_malloc A sz h;
            (case newMem of
               None \<Rightarrow> Some (Inr (None, h))
             | Some q \<Rightarrow> do {
                 g' \<leftarrow> blocks h q;
                 (if unat (size g) \<le> length (bytes g) then Some () else None);
                 copied \<leftarrow> memcpy_at (bytes g') 0 (take (unat (size g)) (bytes g));
                 h \<leftarrow> release_memory p (h\<lparr>blocks := (blocks h)(q \<mapsto> g'\<lparr>bytes := copied\<rparr>)\<rparr>);
                 Some (Inr (Some q, h))
               })
          }
        })"

subsection \<open>Sizes\<close>

lemma round_up:
  assumes "unat sz + 7 < 2 ^ 64"
  shows "unat (unity_size_round_up sz) = (unat sz + 7) div 8 * 8"
proof -
  define q where "q = (sz + 7) div 8"
  have "unat (sz + 7) = unat sz + 7" using unat_add_64[of sz 7] assms by simp
  then have q: "unat q = (unat sz + 7) div 8" by (simp only: q_def unat_div) simp
  have "unity_size_round_up sz = q * 8" by (simp add: unity_size_round_up_def q_def add.commute)
  moreover have "(unat sz + 7) div 8 * 8 < 2 ^ 64" using assms by linarith
  then have "unat (q * 8) = unat q * 8" by (subst unat_mult_lem[THEN iffD1]) (simp_all add: q)
  ultimately show ?thesis by (simp add: q)
qed

lemma round_up_bounds:
  assumes "unat sz + 7 < 2 ^ 64"
  shows "unat sz \<le> unat (unity_size_round_up sz)" "unat (unity_size_round_up sz) < unat sz + 8"
    "8 dvd unat (unity_size_round_up sz)"
  by (simp_all add: round_up[OF assms])

text \<open>The size of a block that is not too large for the computation of its size.\<close>

lemma total_size:
  assumes "unat sz + 27 < 2 ^ 64"
  shows "\<not> sizeof_Guard + unity_size_round_up (sz + sizeof_end) < sizeof_Guard"
    and "unat (sizeof_Guard + unity_size_round_up (sz + sizeof_end) - sizeof_Guard) = unat (unity_size_round_up (sz + sizeof_end))"
    and "unat sz + 4 \<le> unat (unity_size_round_up (sz + sizeof_end))"
proof -
  have s: "unat (sz + sizeof_end) = unat sz + 4" using unat_add_64[of sz 4] assms by simp
  then show "unat sz + 4 \<le> unat (unity_size_round_up (sz + sizeof_end))"
    using round_up_bounds(1)[of "sz + sizeof_end"] assms by simp
  have "unat (unity_size_round_up (sz + sizeof_end)) < unat sz + 12"
    using round_up_bounds(2)[of "sz + sizeof_end"] s assms by simp
  then have "unat (sizeof_Guard + unity_size_round_up (sz + sizeof_end)) = 16 + unat (unity_size_round_up (sz + sizeof_end))"
    using unat_add_64[of sizeof_Guard "unity_size_round_up (sz + sizeof_end)"] assms by simp
  then show "\<not> sizeof_Guard + unity_size_round_up (sz + sizeof_end) < sizeof_Guard"
    by (simp add: word_less_nat_alt)
  show "unat (sizeof_Guard + unity_size_round_up (sz + sizeof_end) - sizeof_Guard) = unat (unity_size_round_up (sz + sizeof_end))"
    by simp
qed

subsection \<open>Blocks\<close>

definition sized :: "guard \<Rightarrow> bool" where
  "sized g \<longleftrightarrow> unat (size g) + 4 \<le> length (bytes g)"

definition intact :: "guard \<Rightarrow> bool" where
  "intact g \<longleftrightarrow> guard_space g = 0 \<and> take 4 (drop (unat (size g)) (bytes g)) = end_marker"

lemma strcmp_end_marker:
  assumes "4 \<le> length bs"
  shows "strcmp_end bs end_marker = Some (take 4 bs \<noteq> end_marker)"
proof -
  obtain a b c d cs where "bs = a # b # c # d # cs"
    using assms by (auto simp: Suc_le_length_iff numeral_eq_Suc)
  then show ?thesis by (auto simp: end_marker_def)
qed

lemma overrun_intact: "blocks h p = Some g \<Longrightarrow> sized g \<Longrightarrow> isOverrun p h = Some (\<not> intact g)"
  by (auto simp: isOverrun_def intact_def sized_def strcmp_end_marker)

lemma memcpy_at_length: "memcpy_at dst i src = Some r \<Longrightarrow> length r = length dst"
  by (auto simp: memcpy_at_def split: if_splits)

lemma memcpy_at_marker:
  "memcpy_at dst i end_marker = Some r \<Longrightarrow> i + 4 \<le> length r \<and> take 4 (drop i r) = end_marker"
  by (auto simp: memcpy_at_def end_marker_def split: if_splits)

text \<open>What a call of \<open>unity_malloc\<close> does.\<close>

lemma malloc_cases:
  assumes "unity_malloc A sz h = Some (mem, h')"
  obtains (null) c where "mem = None" "h' = h\<lparr>malloc_fail_countdown := c\<rparr>"
  | (block) c g where "mem = Some (new_block h)" "sized g" "intact g" "size g = sz"
      "h' = h\<lparr>malloc_count := malloc_count h + 1, malloc_fail_countdown := c, new_block := new_block h + 1,
        blocks := (blocks h)(new_block h \<mapsto> g)\<rparr>"
proof -
  let ?h = "if malloc_fail_countdown h \<noteq> - 1 then h\<lparr>malloc_fail_countdown := malloc_fail_countdown h - 1\<rparr> else h"
  have c: "\<exists>c. ?h = h\<lparr>malloc_fail_countdown := c\<rparr>"
    by (rule exI[of _ "if malloc_fail_countdown h \<noteq> - 1 then malloc_fail_countdown h - 1 else malloc_fail_countdown h"]) simp
  then obtain c where c: "?h = h\<lparr>malloc_fail_countdown := c\<rparr>" by blast
  show thesis
  proof (cases "mem")
    case None
    then show thesis
      using assms null[of "malloc_fail_countdown h"] null[of c] c
      by (auto simp: unity_malloc_def Let_def split: if_splits bind_splits)
  next
    case (Some p)
    then obtain m where m: "memcpy_at (map (junk A (new_block h)) [0..<unat (sizeof_Guard + unity_size_round_up (sz + sizeof_end) - sizeof_Guard)])
          (unat sz) end_marker = Some m"
        "p = new_block h" "h' = ?h\<lparr>malloc_count := malloc_count h + 1, new_block := new_block h + 1,
           blocks := (blocks h)(new_block h \<mapsto> \<lparr>size = sz, guard_space = 0, bytes = m\<rparr>)\<rparr>"
      using assms by (auto simp: unity_malloc_def Let_def split: if_splits bind_splits)
    let ?g = "\<lparr>size = sz, guard_space = 0, bytes = m\<rparr>"
    have "sized ?g" "intact ?g" using memcpy_at_marker[OF m(1)] by (auto simp: sized_def intact_def)
    then show thesis using block[of ?g c] m(2,3) Some unfolding c by simp
  qed
qed

lemma malloc_defined:
  assumes "unat sz + 27 < 2 ^ 64"
  shows "\<exists>r. unity_malloc A sz h = Some r"
  using total_size[OF assms] by (auto simp: unity_malloc_def memcpy_at_def end_marker_def Let_def)

subsection \<open>The count of live blocks\<close>

definition heap_inv :: "test_heap \<Rightarrow> bool" where
  "heap_inv h \<longleftrightarrow> finite (dom (blocks h)) \<and> malloc_count h = int (card (dom (blocks h)))
     \<and> (\<forall>p g. blocks h p = Some g \<longrightarrow> p < new_block h \<and> sized g)"

lemma heap_inv_unity [simp]: "heap_inv (h\<lparr>unity := u\<rparr>) = heap_inv h"
  by (simp add: heap_inv_def)

lemma heap_inv_countdown [simp]: "heap_inv (h\<lparr>malloc_fail_countdown := c\<rparr>) = heap_inv h"
  by (simp add: heap_inv_def)

lemma test_fail_inv: "heap_inv h \<Longrightarrow> heap_inv (case_sum id id (test_fail msg h))"
  by (cases "UnityFail (Some msg) (CurrentTestLineNumber (unity h)) (unity h)") (simp_all add: test_fail_def)

lemma heap_inv_fresh: "heap_inv h \<Longrightarrow> blocks h (new_block h) = None"
  by (auto simp: heap_inv_def) (metis less_irrefl option.exhaust)

lemma malloc_inv:
  assumes "heap_inv h" "unity_malloc A sz h = Some (mem, h')"
  shows "heap_inv h'"
  using assms(2)
proof (cases rule: malloc_cases)
  case (null c)
  then show ?thesis using assms(1) by simp
next
  case (block c g)
  have "new_block h \<notin> dom (blocks h)" using heap_inv_fresh[OF assms(1)] by auto
  then show ?thesis using assms(1) block by (auto simp: heap_inv_def less_Suc_eq)
qed

lemma release_inv:
  assumes "heap_inv h" "release_memory p h = Some h'"
  shows "heap_inv h'"
proof -
  obtain g where g: "blocks h p = Some g"
      "h' = h\<lparr>malloc_count := malloc_count h - 1, blocks := (blocks h)(p := None)\<rparr>"
    using assms(2) by (auto simp: release_memory_def split: bind_splits)
  then have "p \<in> dom (blocks h)" by blast
  then have "0 < card (dom (blocks h))" "card (dom (blocks h) - {p}) = card (dom (blocks h)) - 1"
    using assms(1) by (auto simp: heap_inv_def card_gt_0_iff)
  then show ?thesis using assms(1) g(2) by (auto simp: heap_inv_def)
qed

lemma store_inv:
  assumes "heap_inv h" "blocks h p = Some g" "size g' = size g" "length (bytes g') = length (bytes g)"
  shows "heap_inv (h\<lparr>blocks := (blocks h)(p \<mapsto> g')\<rparr>)"
  using assms by (auto simp: heap_inv_def insert_absorb domI sized_def)

lemma free_inv:
  assumes "heap_inv h" "unity_free mem h = Some r"
  shows "heap_inv (case_sum id id r)"
proof (cases mem)
  case (Some p)
  then obtain overrun h' where "release_memory p h = Some h'"
      "r = (if overrun then test_fail (str ''Buffer overrun detected during free()'') h' else Inr h')"
    using assms(2) by (auto simp: unity_free_def split: bind_splits)
  then show ?thesis using release_inv[OF assms(1)] test_fail_inv by auto
qed (use assms in \<open>auto simp: unity_free_def\<close>)

lemma calloc_cases:
  assumes "unity_calloc A num sz h = Some (mem, h')"
  obtains "unity_malloc A (num * sz) h = Some (None, h')" "mem = None"
  | p h1 g z where "unity_malloc A (num * sz) h = Some (Some p, h1)" "mem = Some p" "blocks h1 p = Some g"
      "memcpy_at (bytes g) 0 (replicate (unat (num * sz)) 0) = Some z"
      "h' = h1\<lparr>blocks := (blocks h1)(p \<mapsto> g\<lparr>bytes := z\<rparr>)\<rparr>"
  using assms by (auto simp: unity_calloc_def split: bind_splits option.splits)

lemma calloc_inv:
  assumes "heap_inv h" "unity_calloc A num sz h = Some (mem, h')"
  shows "heap_inv h'"
  using assms(2)
proof (cases rule: calloc_cases)
  case 1
  then show ?thesis using malloc_inv[OF assms(1)] by blast
next
  case (2 p h1 g z)
  then show ?thesis using malloc_inv[OF assms(1) 2(1)] memcpy_at_length[OF 2(4)] by (simp add: store_inv)
qed

lemma realloc_cases:
  assumes "unity_realloc A (Some p) sz h = Some r"
  obtains (overrun) h' where "isOverrun p h = Some True" "release_memory p h = Some h'"
      "r = Inl (case_sum id id (test_fail (str ''Buffer overrun detected during realloc()'') h'))"
  | (gone) h' where "isOverrun p h = Some False" "sz = 0" "release_memory p h = Some h'" "r = Inr (None, h')"
  | (fits) g where "isOverrun p h = Some False" "blocks h p = Some g" "sz \<noteq> 0" "sz \<le> size g" "r = Inr (Some p, h)"
  | (failed) g h' where "isOverrun p h = Some False" "blocks h p = Some g" "sz \<noteq> 0" "size g < sz"
      "unity_malloc A sz h = Some (None, h')" "r = Inr (None, h')"
  | (moved) g q h1 g' c h' where "isOverrun p h = Some False" "blocks h p = Some g" "sz \<noteq> 0" "size g < sz"
      "unity_malloc A sz h = Some (Some q, h1)" "blocks h1 q = Some g'"
      "memcpy_at (bytes g') 0 (take (unat (size g)) (bytes g)) = Some c"
      "release_memory p (h1\<lparr>blocks := (blocks h1)(q \<mapsto> g'\<lparr>bytes := c\<rparr>)\<rparr>) = Some h'"
      "r = Inr (Some q, h')"
  using assms
  by (auto simp: unity_realloc_def not_le split: bind_splits option.splits if_splits sum.splits)

lemma realloc_inv:
  assumes "heap_inv h" "unity_realloc A mem sz h = Some r"
  shows "heap_inv (case_sum id snd r)"
proof (cases mem)
  case None
  then show ?thesis
    using assms malloc_inv[OF assms(1)] by (auto simp: unity_realloc_def)
next
  case (Some p)
  from assms(2)[unfolded Some] show ?thesis
  proof (cases rule: realloc_cases)
    case (overrun h')
    then show ?thesis using release_inv[OF assms(1)] test_fail_inv by auto
  next
    case (gone h')
    then show ?thesis using release_inv[OF assms(1)] by auto
  next
    case (fits g)
    then show ?thesis using assms(1) by simp
  next
    case (failed g h')
    then show ?thesis using malloc_inv[OF assms(1)] by auto
  next
    case (moved g q h1 g' c h')
    have "heap_inv (h1\<lparr>blocks := (blocks h1)(q \<mapsto> g'\<lparr>bytes := c\<rparr>)\<rparr>)"
      using malloc_inv[OF assms(1) moved(5)] moved(6) memcpy_at_length[OF moved(7)] by (simp add: store_inv)
    then show ?thesis using release_inv[OF _ moved(8)] moved(9) by simp
  qed
qed

text \<open>
  What happens in a test: calls, also ones that leave it, and stores of the test's own code. Those
  may overwrite the bytes of a live block, past its size too, and the guard space before it.
\<close>

inductive heap_step :: "allocator \<Rightarrow> test_heap \<Rightarrow> test_heap \<Rightarrow> bool" for A where
  malloc: "unity_malloc A sz h = Some (mem, h') \<Longrightarrow> heap_step A h h'"
| calloc: "unity_calloc A num sz h = Some (mem, h') \<Longrightarrow> heap_step A h h'"
| realloc: "unity_realloc A mem sz h = Some r \<Longrightarrow> heap_step A h (case_sum id snd r)"
| free: "unity_free mem h = Some r \<Longrightarrow> heap_step A h (case_sum id id r)"
| fail_after: "heap_step A h (UnityMalloc_MakeMallocFailAfterCount countdown h)"
| store: "blocks h p = Some g \<Longrightarrow> length bs = length (bytes g) \<Longrightarrow>
    heap_step A h (h\<lparr>blocks := (blocks h)(p \<mapsto> g\<lparr>bytes := bs, guard_space := x\<rparr>)\<rparr>)"

inductive heap_steps :: "allocator \<Rightarrow> test_heap \<Rightarrow> test_heap \<Rightarrow> bool" for A where
  none: "heap_steps A h h"
| step: "heap_steps A h h' \<Longrightarrow> heap_step A h' h'' \<Longrightarrow> heap_steps A h h''"

lemma heap_step_inv: "heap_step A h h' \<Longrightarrow> heap_inv h \<Longrightarrow> heap_inv h'"
proof (induction rule: heap_step.induct)
  case (store h p g bs x)
  then show ?case by (intro store_inv) simp_all
qed (auto intro: malloc_inv calloc_inv dest: realloc_inv free_inv simp: UnityMalloc_MakeMallocFailAfterCount_def)

lemma heap_steps_inv: "heap_steps A h h' \<Longrightarrow> heap_inv h \<Longrightarrow> heap_inv h'"
  by (induction rule: heap_steps.induct) (auto dest: heap_step_inv)

lemma test_fail_jumps: "\<exists>h'. test_fail msg h = Inl h' \<and> blocks h' = blocks h \<and> bailed (unity h')"
  by (auto simp: test_fail_def fail_always assertion_def bailed_def)

subsection \<open>Properties\<close>

text \<open>Property C21: the leak check is exact: after any calls and stores of a test that began without
  blocks, the end of the test succeeds exactly if no block is live, and leaves the test otherwise.\<close>

theorem leak_check_is_exact:
  assumes "blocks h = Map.empty" "heap_steps A (UnityMalloc_StartTest h) h'"
  shows "(blocks h' = Map.empty \<longrightarrow> UnityMalloc_EndTest h' = Inr (h'\<lparr>malloc_fail_countdown := - 1\<rparr>))
    \<and> (blocks h' \<noteq> Map.empty \<longrightarrow> (\<exists>h''. UnityMalloc_EndTest h' = Inl h'' \<and> bailed (unity h'')))"
proof -
  have "heap_inv (UnityMalloc_StartTest h)" using assms(1) by (simp add: heap_inv_def UnityMalloc_StartTest_def)
  then have inv: "heap_inv h'" using heap_steps_inv[OF assms(2)] by blast
  then have "malloc_count h' = 0 \<longleftrightarrow> blocks h' = Map.empty"
    by (auto simp: heap_inv_def card_eq_0_iff)
  then show ?thesis
    using test_fail_jumps[of "str ''This test leaks!''" "h'\<lparr>malloc_fail_countdown := - 1\<rparr>"]
    by (auto simp: UnityMalloc_EndTest_def Let_def)
qed

definition sample_heap :: test_heap where
  "sample_heap = \<lparr>malloc_count = 5, malloc_fail_countdown = 3, blocks = Map.empty, new_block = 0, unity = sample_unity\<rparr>"

definition sample_allocator :: allocator where
  "sample_allocator = \<lparr>alloc_ok = (\<lambda>_ _. True), junk = (\<lambda>_ _. 0xAA)\<rparr>"

definition sample_block :: guard where
  "sample_block = \<lparr>size = 2, guard_space = 0, bytes = [0xAA, 0xAA, 0x45, 0x4E, 0x44, 0, 0xAA, 0xAA]\<rparr>"

lemma sample_malloc:
  "unity_malloc sample_allocator 2 (UnityMalloc_StartTest sample_heap) =
     Some (Some 0, sample_heap\<lparr>malloc_count := 1, malloc_fail_countdown := - 1, new_block := 1,
       blocks := [0 \<mapsto> sample_block]\<rparr>)"
  by (simp add: unity_malloc_def UnityMalloc_StartTest_def sample_heap_def sample_allocator_def
      sample_block_def unity_size_round_up_def memcpy_at_def end_marker_def upt_rec Let_def)

theorem leak_check_is_exact_witness:
  "\<exists>h'. heap_steps sample_allocator (UnityMalloc_StartTest sample_heap) h'
    \<and> (\<exists>h''. UnityMalloc_EndTest h' = Inl h'' \<and> bailed (unity h''))"
proof -
  let ?h = "sample_heap\<lparr>malloc_count := 1, malloc_fail_countdown := - 1, new_block := 1, blocks := [0 \<mapsto> sample_block]\<rparr>"
  have run: "heap_steps sample_allocator (UnityMalloc_StartTest sample_heap) ?h"
    by (rule heap_steps.step[OF heap_steps.none heap_step.malloc[OF sample_malloc]])
  have "blocks sample_heap = Map.empty" by (simp add: sample_heap_def)
  moreover have "blocks ?h \<noteq> Map.empty" by simp
  ultimately have "\<exists>h''. UnityMalloc_EndTest ?h = Inl h'' \<and> bailed (unity h'')"
    using leak_check_is_exact[OF _ run] by blast
  with run show ?thesis by blast
qed

text \<open>Property C32: freeing a live block always releases it, and reports an overrun exactly if the end
  marker behind its size or the guard space before it has changed; a block from \<open>unity_malloc\<close> has
  both, and room for its size.\<close>

theorem overrun_check_is_exact:
  assumes "heap_inv h" "blocks h p = Some g"
  shows "(if intact g then \<exists>h'. unity_free (Some p) h = Some (Inr h') \<and> blocks h' = (blocks h)(p := None)
      else \<exists>h'. unity_free (Some p) h = Some (Inl h') \<and> blocks h' = (blocks h)(p := None) \<and> bailed (unity h'))
    \<and> (unity_malloc A sz h = Some (Some q, h') \<longrightarrow>
         (\<exists>g'. blocks h' q = Some g' \<and> intact g' \<and> size g' = sz \<and> unat sz \<le> length (bytes g')
           \<and> blocks h q = None))"
proof -
  have "sized g" using assms by (auto simp: heap_inv_def)
  then have "isOverrun p h = Some (\<not> intact g)" by (rule overrun_intact[OF assms(2)])
  moreover have "\<exists>g'. blocks h' q = Some g' \<and> intact g' \<and> size g' = sz \<and> unat sz \<le> length (bytes g')
      \<and> blocks h q = None" if "unity_malloc A sz h = Some (Some q, h')"
    using that
  proof (cases rule: malloc_cases)
    case (block c g)
    then show ?thesis using heap_inv_fresh[OF assms(1)] by (auto simp: sized_def)
  qed simp
  ultimately show ?thesis
    using assms(2) test_fail_jumps[of "str ''Buffer overrun detected during free()''"
        "h\<lparr>malloc_count := malloc_count h - 1, blocks := (blocks h)(p := None)\<rparr>"]
    by (auto simp: unity_free_def release_memory_def)
qed

theorem overrun_check_is_exact_witness:
  "\<exists>h'. unity_free (Some 0) (sample_heap\<lparr>malloc_count := 1, new_block := 1,
      blocks := [0 \<mapsto> sample_block\<lparr>bytes := [1, 2, 3, 0x4E, 0x44, 0, 0xAA, 0xAA]\<rparr>]\<rparr>) = Some (Inl h')
    \<and> bailed (unity h')"
proof -
  let ?g = "sample_block\<lparr>bytes := [1, 2, 3, 0x4E, 0x44, 0, 0xAA, 0xAA]\<rparr>"
  let ?h = "sample_heap\<lparr>malloc_count := 1, new_block := 1, blocks := [0 \<mapsto> ?g]\<rparr>"
  have "heap_inv ?h" by (simp add: heap_inv_def sized_def sample_block_def)
  moreover have "blocks ?h 0 = Some ?g" by simp
  moreover have "\<not> intact ?g" by (simp add: intact_def sample_block_def end_marker_def)
  ultimately show ?thesis
    using overrun_check_is_exact[of ?h 0 ?g] by (simp only: if_False) blast
qed

text \<open>\<open>unity_realloc\<close> of a live block keeps its contents: if it returns a block, that has
  room for the new size and starts with the old contents (up to the smaller size), and an old
  block that was moved is released.\<close>

theorem realloc_keeps_contents:
  assumes "heap_inv h" "blocks h p = Some g" "unity_realloc A (Some p) sz h = Some (Inr (Some q, h'))"
  shows "\<exists>g'. blocks h' q = Some g' \<and> unat sz \<le> unat (size g') \<and> sized g'
    \<and> take (unat (min (size g) sz)) (bytes g') = take (unat (min (size g) sz)) (bytes g)
    \<and> (q \<noteq> p \<longrightarrow> blocks h' p = None)"
proof -
  have g: "sized g" using assms(1,2) by (auto simp: heap_inv_def)
  from assms(3) show ?thesis
  proof (cases rule: realloc_cases)
    case (fits g')
    then show ?thesis using g assms(2) by (auto simp: word_le_nat_alt)
  next
    case (moved g0 r h1 g1 c h2)
    have [simp]: "g0 = g" "r = q" "h2 = h'" using moved assms(2) by auto
    from moved(5) obtain k where m: "q = new_block h" "sized g1" "size g1 = sz"
        "blocks h1 = (blocks h)(new_block h \<mapsto> g1)"
      using moved(6) by (cases rule: malloc_cases) auto
    have ne: "q \<noteq> p" using m(1) heap_inv_fresh[OF assms(1)] assms(2) by auto
    have h': "blocks h' = (blocks h1)(q \<mapsto> g1\<lparr>bytes := c\<rparr>, p := None)"
      using moved(8) by (auto simp: release_memory_def split: bind_splits)
    have "length c = length (bytes g1)" using memcpy_at_length[OF moved(7)] .
    moreover have "take (unat (size g)) c = take (unat (size g)) (bytes g)"
      using moved(7) g by (auto simp: memcpy_at_def sized_def split: if_splits)
    moreover have "min (size g) sz = size g" using less_imp_le[OF moved(4)] by (simp add: min_absorb1)
    ultimately show ?thesis using h' ne m(2,3) by (simp add: sized_def)
  qed auto
qed

theorem realloc_keeps_contents_witness:
  "\<exists>q h' g'. unity_realloc sample_allocator (Some 0)
      3 (sample_heap\<lparr>malloc_count := 1, malloc_fail_countdown := - 1, new_block := 1, blocks := [0 \<mapsto> sample_block]\<rparr>)
      = Some (Inr (Some q, h'))
    \<and> blocks h' q = Some g' \<and> take 2 (bytes g') = [0xAA, 0xAA] \<and> (q \<noteq> 0 \<longrightarrow> blocks h' 0 = None)"
proof -
  let ?h = "sample_heap\<lparr>malloc_count := 1, malloc_fail_countdown := - 1, new_block := 1, blocks := [0 \<mapsto> sample_block]\<rparr>"
  have "\<exists>h'. unity_realloc sample_allocator (Some 0) 3 ?h = Some (Inr (Some 1, h'))"
    by (simp add: unity_realloc_def isOverrun_def unity_malloc_def release_memory_def sample_heap_def sample_allocator_def
        sample_block_def unity_size_round_up_def memcpy_at_def end_marker_def upt_rec Let_def)
  then obtain h' where run: "unity_realloc sample_allocator (Some 0) 3 ?h = Some (Inr (Some 1, h'))" by blast
  have "heap_inv ?h" by (simp add: heap_inv_def sample_heap_def sized_def sample_block_def)
  from realloc_keeps_contents[OF this _ run, of sample_block] run show ?thesis
    by (auto simp: sample_block_def)
qed

text \<open>The product in \<open>unity_calloc\<close> wraps around: for numbers whose product does not fit
  64 bits the block returned has only the wrapped size.\<close>

theorem calloc_wraps_around:
  assumes "unity_calloc A num sz h = Some (Some p, h')" "2 ^ 64 \<le> unat num * unat sz"
  shows "\<exists>g. blocks h' p = Some g \<and> unat (size g) = unat num * unat sz mod 2 ^ 64
    \<and> unat (size g) < unat num * unat sz"
  using assms(1)
proof (cases rule: calloc_cases)
  case (2 q h1 g z)
  from 2(1) have "size g = num * sz" using 2(2,3) by (cases rule: malloc_cases) auto
  moreover have "unat (num * sz) = unat num * unat sz mod 2 ^ 64" by (simp add: unat_word_ariths)
  moreover have "unat num * unat sz mod 2 ^ 64 < 2 ^ 64" by simp
  ultimately show ?thesis using 2 assms(2) by auto
qed simp

theorem calloc_wraps_around_witness:
  "\<exists>h' g. unity_calloc sample_allocator 0x8000000000000001 2 (UnityMalloc_StartTest sample_heap) = Some (Some 0, h')
    \<and> blocks h' 0 = Some g \<and> size g = 2"
proof -
  have "\<exists>h'. unity_calloc sample_allocator 0x8000000000000001 2 (UnityMalloc_StartTest sample_heap) = Some (Some 0, h')"
  proof -
    have "0x8000000000000001 * 2 = (2 :: u64)" by (simp add: word_unat_eq_iff unat_word_ariths)
    then show ?thesis
      by (simp only: unity_calloc_def sample_malloc) (simp add: sample_block_def memcpy_at_def)
  qed
  then obtain h' where run: "unity_calloc sample_allocator 0x8000000000000001 2 (UnityMalloc_StartTest sample_heap) = Some (Some 0, h')"
    by blast
  obtain g where "blocks h' 0 = Some g" "unat (size g) = 2"
    using calloc_wraps_around[OF run] by auto
  then have "size g = 2" by (simp add: word_unat_eq_iff)
  with run \<open>blocks h' 0 = Some g\<close> show ?thesis by blast
qed

end
