(* ===== verification/Unity_Static_Heap.thy ===== *)
theory Unity_Static_Heap
  imports Unity_Memory Unity_Arrays
begin

section \<open>Unity: the checking allocator with a static heap\<close>

text \<open>
  The build of \<^verbatim>\<open>assignment-autotest/Unity/extras/memory/src/unity_memory.c\<close> with
  \<open>UNITY_EXCLUDE_STDLIB_MALLOC\<close>: blocks are cut off the array \<open>unity_heap\<close> one behind the other, and only
  the last one can be given back. The array is modelled byte by byte, headers and end markers included; a
  pointer is its index in the array, and \<open>None\<close> is \<open>NULL\<close>. Accesses outside the array have no value.
  The \<open>int\<close> that counts blocks is an integer here: the array holds at most ten blocks.
\<close>

text \<open>\<open>UNITY_INTERNAL_HEAP_SIZE_BYTES\<close> of \<^verbatim>\<open>unity_memory.h\<close>.\<close>

definition UNITY_INTERNAL_HEAP_SIZE_BYTES :: nat where
  "UNITY_INTERNAL_HEAP_SIZE_BYTES = 256"

record static_heap =
  unity_heap :: "byte list"
  heap_index :: u64
  malloc_count :: int
  malloc_fail_countdown :: int
  unity :: unity

text \<open>A \<open>size_t\<close> in the array, and the header of a block of size \<open>sz\<close>.\<close>

definition load_size :: "byte list \<Rightarrow> nat \<Rightarrow> u64 option" where
  "load_size mem i = (if i + 8 \<le> length mem then Some (of_nat (le_value (take 8 (drop i mem)))) else None)"

definition guard_bytes :: "u64 \<Rightarrow> byte list" where
  "guard_bytes sz = le_bytes 8 sz @ le_bytes 8 0"

text \<open>Cutting off a block: the header, the end marker, the pointer behind the header.\<close>

definition cut_block :: "u64 \<Rightarrow> u64 \<Rightarrow> static_heap \<Rightarrow> (pointer \<times> static_heap) option" where
  "cut_block sz total_size h = do {
     let guard = unat (heap_index h);
     let h = h\<lparr>heap_index := heap_index h + total_size, malloc_count := malloc_count h + 1\<rparr>;
     mem \<leftarrow> memcpy_at (unity_heap h) guard (guard_bytes sz);
     mem \<leftarrow> memcpy_at mem (guard + 16 + unat sz) end_marker;
     Some (Some (guard + 16), h\<lparr>unity_heap := mem\<rparr>)
   }"

definition count_down :: "static_heap \<Rightarrow> static_heap" where
  "count_down h =
     (if malloc_fail_countdown h \<noteq> MALLOC_DONT_FAIL
      then h\<lparr>malloc_fail_countdown := malloc_fail_countdown h - 1\<rparr> else h)"

definition static_malloc :: "u64 \<Rightarrow> static_heap \<Rightarrow> (pointer \<times> static_heap) option" where
  "static_malloc sz h =
     (let total_size = sizeof_Guard + unity_size_round_up (sz + sizeof_end) in
      if malloc_fail_countdown h \<noteq> MALLOC_DONT_FAIL \<and> malloc_fail_countdown h = 0 then Some (None, h)
      else
        (let h = count_down h in
         if sz = 0 then Some (None, h)
         else if unat (heap_index h + total_size) > UNITY_INTERNAL_HEAP_SIZE_BYTES then Some (None, h)
         else cut_block sz total_size h))"

text \<open>The members of the header in front of \<open>p\<close>.\<close>

definition guard_size :: "nat \<Rightarrow> static_heap \<Rightarrow> u64 option" where
  "guard_size p h = (if 16 \<le> p then load_size (unity_heap h) (p - 16) else None)"

definition guard_space_of :: "nat \<Rightarrow> static_heap \<Rightarrow> u64 option" where
  "guard_space_of p h = (if 16 \<le> p then load_size (unity_heap h) (p - 8) else None)"

definition static_overrun :: "nat \<Rightarrow> static_heap \<Rightarrow> bool option" where
  "static_overrun p h = do {
     space \<leftarrow> guard_space_of p h;
     if space \<noteq> 0 then Some True
     else do { sz \<leftarrow> guard_size p h; strcmp_end (drop (p + unat sz) (unity_heap h)) end_marker }
   }"

text \<open>The end of the heap minus a size, as the pointer that \<open>mem\<close> is compared with.\<close>

definition before_end :: "u64 \<Rightarrow> static_heap \<Rightarrow> nat option" where
  "before_end sz h = (if sz \<le> heap_index h then Some (unat (heap_index h - sz)) else None)"

definition static_release :: "nat \<Rightarrow> static_heap \<Rightarrow> static_heap option" where
  "static_release p h = do {
     let h = h\<lparr>malloc_count := malloc_count h - 1\<rparr>;
     sz \<leftarrow> guard_size p h;
     let block_size = unity_size_round_up (sz + sizeof_end);
     last \<leftarrow> before_end block_size h;
     Some (if p = last then h\<lparr>heap_index := heap_index h - (sizeof_Guard + block_size)\<rparr> else h)
   }"

text \<open>\<open>UNITY_TEST_FAIL(Unity.CurrentTestLineNumber, ...)\<close>, then the rest of the function.\<close>

definition static_fail :: "byte list \<Rightarrow> static_heap \<Rightarrow> static_heap + static_heap" where
  "static_fail msg h =
     map_sum (\<lambda>u. h\<lparr>unity := u\<rparr>) (\<lambda>u. h\<lparr>unity := u\<rparr>)
       (UnityFail (Some msg) (CurrentTestLineNumber (unity h)) (unity h))"

definition static_free :: "pointer \<Rightarrow> static_heap \<Rightarrow> (static_heap + static_heap) option" where
  "static_free mem h =
     (case mem of
        None \<Rightarrow> Some (Inr h)
      | Some p \<Rightarrow> do {
          overrun \<leftarrow> static_overrun p h;
          h \<leftarrow> static_release p h;
          Some (if overrun then static_fail (str ''Buffer overrun detected during free()'') h else Inr h)
        })"

definition static_calloc :: "u64 \<Rightarrow> u64 \<Rightarrow> static_heap \<Rightarrow> (pointer \<times> static_heap) option" where
  "static_calloc num sz h = do {
     (mem, h) \<leftarrow> static_malloc (num * sz) h;
     (case mem of
        None \<Rightarrow> Some (None, h)
      | Some p \<Rightarrow> do {
          zeroed \<leftarrow> memcpy_at (unity_heap h) p (replicate (unat (num * sz)) 0);
          Some (Some p, h\<lparr>unity_heap := zeroed\<rparr>)
        })
   }"

text \<open>A last block that can grow is released and allocated again, in the same place.\<close>

definition static_realloc :: "pointer \<Rightarrow> u64 \<Rightarrow> static_heap \<Rightarrow> (static_heap + (pointer \<times> static_heap)) option" where
  "static_realloc oldMem sz h =
     (case oldMem of
        None \<Rightarrow> map_option Inr (static_malloc sz h)
      | Some p \<Rightarrow> do {
          overrun \<leftarrow> static_overrun p h;
          if overrun then do {
            h \<leftarrow> static_release p h;
            (case static_fail (str ''Buffer overrun detected during realloc()'') h of
               Inl h \<Rightarrow> Some (Inl h)
             | Inr h \<Rightarrow> None)
          } else if sz = 0 then do {
            h \<leftarrow> static_release p h;
            Some (Inr (None, h))
          } else do {
            old_size \<leftarrow> guard_size p h;
            if old_size \<ge> sz then Some (Inr (oldMem, h))
            else do {
              let old_total_size = unity_size_round_up (old_size + sizeof_end);
              last \<leftarrow> before_end old_total_size h;
              if p = last \<and> unat (heap_index h - old_total_size + unity_size_round_up (sz + sizeof_end))
                    \<le> UNITY_INTERNAL_HEAP_SIZE_BYTES
              then do {
                h \<leftarrow> static_release p h;
                map_option Inr (static_malloc sz h)
              } else do {
                (newMem, h) \<leftarrow> static_malloc sz h;
                (case newMem of
                   None \<Rightarrow> Some (Inr (None, h))
                 | Some q \<Rightarrow> do {
                     (if p + unat old_size \<le> length (unity_heap h) then Some () else None);
                     copied \<leftarrow> memcpy_at (unity_heap h) q (take (unat old_size) (drop p (unity_heap h)));
                     h \<leftarrow> static_release p (h\<lparr>unity_heap := copied\<rparr>);
                     Some (Inr (Some q, h))
                   })
              }
            }
          }
        })"

subsection \<open>Bytes in the array\<close>

lemma memcpy_at_nth:
  assumes "memcpy_at dst i src = Some r"
  shows "length r = length dst" "i + length src \<le> length dst"
    "k < length dst \<Longrightarrow> r ! k = (if i \<le> k \<and> k < i + length src then src ! (k - i) else dst ! k)"
  using assms by (auto simp: memcpy_at_def nth_append nth_Cons' split: if_splits)

lemma memcpy_at_defined: "i + length src \<le> length dst \<Longrightarrow> \<exists>r. memcpy_at dst i src = Some r"
  by (simp add: memcpy_at_def)

lemma length_guard_bytes [simp]: "length (guard_bytes sz) = 16" "length end_marker = 4"
  by (simp_all add: guard_bytes_def end_marker_def)

text \<open>The bytes from \<open>i\<close> on are those of a list.\<close>

definition bytes_at :: "byte list \<Rightarrow> nat \<Rightarrow> byte list \<Rightarrow> bool" where
  "bytes_at mem i bs \<longleftrightarrow> i + length bs \<le> length mem \<and> (\<forall>k < length bs. mem ! (i + k) = bs ! k)"

lemma bytes_at_iff: "bytes_at mem i bs \<longleftrightarrow> i + length bs \<le> length mem \<and> take (length bs) (drop i mem) = bs"
  by (auto simp: bytes_at_def list_eq_iff_nth_eq)

lemma bytes_at_take: "bytes_at mem i bs \<Longrightarrow> take (length bs) (drop i mem) = bs"
  by (simp add: bytes_at_iff)

lemma bytes_at_append: "bytes_at mem i (bs @ cs) \<longleftrightarrow> bytes_at mem i bs \<and> bytes_at mem (i + length bs) cs"
  by (auto simp: bytes_at_iff take_add add.commute add.assoc)

lemma bytes_at_copied: "memcpy_at dst i src = Some r \<Longrightarrow> bytes_at r i src"
  using memcpy_at_nth[of dst i src r] by (auto simp: bytes_at_def)

text \<open>Memory that is the same from \<open>i\<close> up to \<open>j\<close>.\<close>

definition same_on :: "nat \<Rightarrow> nat \<Rightarrow> byte list \<Rightarrow> byte list \<Rightarrow> bool" where
  "same_on i j mem mem' \<longleftrightarrow> length mem' = length mem \<and> (\<forall>k. i \<le> k \<longrightarrow> k < j \<longrightarrow> k < length mem \<longrightarrow> mem' ! k = mem ! k)"

lemma bytes_at_same: "bytes_at mem i bs \<Longrightarrow> same_on a b mem mem' \<Longrightarrow> a \<le> i \<Longrightarrow> i + length bs \<le> b \<Longrightarrow> bytes_at mem' i bs"
  by (auto simp: bytes_at_def same_on_def)

lemma same_on_copied:
  "memcpy_at dst i src = Some r \<Longrightarrow> b \<le> i \<or> i + length src \<le> a \<Longrightarrow> same_on a b dst r"
  using memcpy_at_nth[of dst i src r] by (auto simp: same_on_def)

lemma same_on_trans: "same_on a b x y \<Longrightarrow> same_on a b y z \<Longrightarrow> same_on a b x z"
  by (auto simp: same_on_def)

lemma same_on_refl [simp]: "same_on a b x x"
  by (simp add: same_on_def)

lemma load_size_at:
  assumes "bytes_at mem i (le_bytes 8 w)"
  shows "load_size mem i = Some w"
proof -
  have "take 8 (drop i mem) = le_bytes 8 w" using bytes_at_take[OF assms] by simp
  moreover have "le_value (le_bytes 8 w) = unat w" using unat_lt_64[of w] by (simp add: le_bytes_value)
  ultimately show ?thesis using assms by (simp add: load_size_def bytes_at_def)
qed

subsection \<open>Blocks\<close>

text \<open>The bytes of a block behind its header, and a block as \<open>unity_malloc\<close> leaves it.\<close>

definition room :: "u64 \<Rightarrow> nat" where
  "room sz = unat (unity_size_round_up (sz + sizeof_end))"

definition fits_size :: "u64 \<Rightarrow> bool" where
  "fits_size sz \<longleftrightarrow> unat sz + 27 < 2 ^ 64"

definition block_at :: "byte list \<Rightarrow> nat \<Rightarrow> u64 \<Rightarrow> bool" where
  "block_at mem p sz \<longleftrightarrow> 16 \<le> p \<and> bytes_at mem (p - 16) (guard_bytes sz) \<and> bytes_at mem (p + unat sz) end_marker"

lemma room: "fits_size sz \<Longrightarrow> unat sz + 4 \<le> room sz"
  using total_size(3)[of sz] by (simp add: room_def fits_size_def)

lemma block_guard:
  assumes "block_at (unity_heap h) p sz"
  shows "guard_size p h = Some sz" "guard_space_of p h = Some 0" "static_overrun p h = Some False"
proof -
  have p: "16 \<le> p" and parts: "bytes_at (unity_heap h) (p - 16) (le_bytes 8 sz)" "bytes_at (unity_heap h) (p - 16 + 8) (le_bytes 8 0)"
    using assms by (auto simp: block_at_def guard_bytes_def bytes_at_append)
  have "p - 16 + 8 = p - 8" using p by simp
  then show g: "guard_size p h = Some sz" "guard_space_of p h = Some 0"
    using load_size_at[OF parts(1)] load_size_at[OF parts(2)] p by (simp_all add: guard_size_def guard_space_of_def)
  have "bytes_at (unity_heap h) (p + unat sz) end_marker" using assms by (simp add: block_at_def)
  then have "take 4 (drop (p + unat sz) (unity_heap h)) = end_marker" "4 \<le> length (drop (p + unat sz) (unity_heap h))"
    using bytes_at_take[of "unity_heap h" "p + unat sz" end_marker] by (auto simp: bytes_at_def)
  then show "static_overrun p h = Some False" using g by (simp add: static_overrun_def strcmp_end_marker)
qed

lemma block_at_same:
  assumes "block_at mem p sz" "same_on (p - 16) p mem mem'" "same_on (p + unat sz) (p + unat sz + 4) mem mem'"
  shows "block_at mem' p sz"
  using assms bytes_at_same[of mem "p - 16" "guard_bytes sz" "p - 16" p mem']
    bytes_at_same[of mem "p + unat sz" end_marker "p + unat sz" "p + unat sz + 4" mem']
  by (auto simp: block_at_def)

subsection \<open>The blocks of the heap\<close>

text \<open>Blocks, live ones and ones that were given back too early, fill the heap from \<open>i\<close> to \<open>j\<close>.\<close>

fun tiled :: "nat \<Rightarrow> (nat \<times> u64) list \<Rightarrow> nat \<Rightarrow> bool" where
  "tiled i [] j \<longleftrightarrow> i = j"
| "tiled i ((p, sz) # L) j \<longleftrightarrow> p = i + 16 \<and> fits_size sz \<and> tiled (p + room sz) L j"

lemma tiled_append: "tiled i (L @ M) j \<longleftrightarrow> (\<exists>k. tiled i L k \<and> tiled k M j)"
  by (induction L arbitrary: i) auto

lemma tiled_le: "tiled i L j \<Longrightarrow> i \<le> j"
  by (induction L arbitrary: i) fastforce+

lemma tiled_bounds: "tiled i L j \<Longrightarrow> (p, sz) \<in> set L \<Longrightarrow> i + 16 \<le> p \<and> p + room sz \<le> j \<and> fits_size sz"
  by (induction i L j rule: tiled.induct) (auto dest: tiled_le)

lemma tiled_apart:
  "tiled i L j \<Longrightarrow> (p, m) \<in> set L \<Longrightarrow> (q, n) \<in> set L \<Longrightarrow> p + room m + 16 \<le> q \<or> q + room n + 16 \<le> p \<or> (p, m) = (q, n)"
proof (induction L arbitrary: i)
  case (Cons b L)
  obtain r k where b: "b = (r, k)" by (cases b)
  then have "tiled (r + room k) L j" using Cons.prems(1) by auto
  then show ?case using Cons.IH Cons.prems(2,3) tiled_bounds b by fastforce
qed simp

lemma tiled_last:
  assumes "tiled i L j" "(p, sz) \<in> set L" "p + room sz = j"
  obtains L0 where "L = L0 @ [(p, sz)]" "tiled i L0 (p - 16)"
proof -
  obtain L0 L1 where L: "L = L0 @ (p, sz) # L1" using split_list[OF assms(2)] by blast
  then obtain k where k: "tiled i L0 k" "p = k + 16" "tiled j L1 j" using assms(1,3) by (auto simp: tiled_append)
  have "L1 = []"
  proof (cases L1)
    case (Cons b L2)
    then show ?thesis using k(3) tiled_bounds[of j L1 j "fst b" "snd b"] by (simp, linarith)
  qed
  then show thesis using that L k by simp
qed

lemma count_down: "\<exists>c. count_down h = h\<lparr>malloc_fail_countdown := c\<rparr>"
  by (cases "malloc_fail_countdown h = - 1")
    (auto simp: count_down_def intro: exI[of _ "malloc_fail_countdown h"] exI[of _ "malloc_fail_countdown h - 1"])

lemma cut_block_result:
  assumes "cut_block sz (sizeof_Guard + unity_size_round_up (sz + sizeof_end)) h = Some (mem, h')"
    and "length (unity_heap h) = 256" "unat (heap_index h) \<le> 256"
  obtains p where "mem = Some p" "p = unat (heap_index h) + 16" "fits_size sz"
      "unat (heap_index h') = p + room sz" "unat (heap_index h + (sizeof_Guard + unity_size_round_up (sz + sizeof_end))) = p + room sz"
      "malloc_count h' = malloc_count h + 1" "unity h' = unity h"
      "block_at (unity_heap h') p sz" "length (unity_heap h') = 256"
      "same_on 0 (unat (heap_index h)) (unity_heap h) (unity_heap h')"
      "same_on p (p + unat sz) (unity_heap h) (unity_heap h')"
proof -
  let ?i = "unat (heap_index h)" and ?t = "sizeof_Guard + unity_size_round_up (sz + sizeof_end)" and ?p = "unat (heap_index h) + 16"
  obtain m m' where m: "memcpy_at (unity_heap h) ?i (guard_bytes sz) = Some m" "memcpy_at m (?p + unat sz) end_marker = Some m'"
      "mem = Some ?p" "h' = h\<lparr>heap_index := heap_index h + ?t, malloc_count := malloc_count h + 1, unity_heap := m'\<rparr>"
    using assms(1) by (auto simp: cut_block_def Let_def split: bind_splits)
  have top: "?p + unat sz + 4 \<le> 256"
    using memcpy_at_nth(1,2)[OF m(1)] memcpy_at_nth(2)[OF m(2)] assms(2) by simp
  then have fits: "fits_size sz" by (simp add: fits_size_def)
  have small: "room sz < unat sz + 12"
    using round_up_bounds(2)[of "sz + sizeof_end"] unat_add_64[of sz 4] top by (simp add: room_def)
  then have "unat ?t = 16 + room sz" using unat_add_64[of sizeof_Guard "unity_size_round_up (sz + sizeof_end)"] top by (simp add: room_def)
  then have idx: "unat (heap_index h + ?t) = ?p + room sz"
    using unat_add_64[of "heap_index h" ?t] small top by simp
  have "bytes_at m' ?i (guard_bytes sz)"
    using bytes_at_same[OF bytes_at_copied[OF m(1)] same_on_copied[OF m(2), of ?p 0]] by simp
  then have block: "block_at m' ?p sz" using bytes_at_copied[OF m(2)] by (simp add: block_at_def)
  have same: "same_on 0 ?i (unity_heap h) m'" "same_on ?p (?p + unat sz) (unity_heap h) m'"
    using same_on_trans[OF same_on_copied[OF m(1)] same_on_copied[OF m(2)]] by simp_all
  have len: "length m' = 256" using memcpy_at_nth(1)[OF m(1)] memcpy_at_nth(1)[OF m(2)] assms(2) by simp
  show thesis by (rule that[OF m(3) refl fits]) (use idx block same len in \<open>simp_all add: m(4)\<close>)
qed

lemma static_malloc_cases:
  assumes "static_malloc sz h = Some (mem, h')" "length (unity_heap h) = 256" "unat (heap_index h) \<le> 256"
  obtains (null) c where "mem = None" "h' = h\<lparr>malloc_fail_countdown := c\<rparr>"
  | (block) p where "mem = Some p" "p = unat (heap_index h) + 16" "sz \<noteq> 0" "fits_size sz" "p + room sz \<le> 256"
      "unat (heap_index h') = p + room sz" "malloc_count h' = malloc_count h + 1" "unity h' = unity h"
      "block_at (unity_heap h') p sz" "length (unity_heap h') = 256"
      "same_on 0 (unat (heap_index h)) (unity_heap h) (unity_heap h')"
      "same_on p (p + unat sz) (unity_heap h) (unity_heap h')"
proof -
  let ?t = "sizeof_Guard + unity_size_round_up (sz + sizeof_end)"
  obtain c where c: "count_down h = h\<lparr>malloc_fail_countdown := c\<rparr>" using count_down by blast
  consider "mem = None" "h' = h" | "mem = None" "h' = count_down h"
    | "sz \<noteq> 0" "unat (heap_index h + ?t) \<le> 256" "cut_block sz ?t (count_down h) = Some (mem, h')"
    using assms(1) unfolding static_malloc_def Let_def UNITY_INTERNAL_HEAP_SIZE_BYTES_def c
    by (auto simp: not_less split: if_split_asm)
  then show thesis
  proof cases
    case 1
    then show ?thesis using null[of "malloc_fail_countdown h"] by simp
  next
    case 2
    then show ?thesis using null c by simp
  next
    case 3
    have h: "length (unity_heap (count_down h)) = 256" "unat (heap_index (count_down h)) \<le> 256" using assms(2,3) by (simp_all add: c)
    show ?thesis
      by (rule cut_block_result[OF 3(3) h]) (use 3(1,2) block in \<open>simp add: c\<close>)
  qed
qed

subsection \<open>The invariant\<close>

text \<open>The live pointers with their sizes are blocks of the heap, unchanged headers and end markers included,
  and \<open>malloc_count\<close> is their number.\<close>

definition heap_tiles :: "static_heap \<Rightarrow> (nat \<rightharpoonup> u64) \<Rightarrow> (nat \<times> u64) list \<Rightarrow> bool" where
  "heap_tiles h live L \<longleftrightarrow> tiled 0 L (unat (heap_index h))
     \<and> (\<forall>p sz. live p = Some sz \<longrightarrow> (p, sz) \<in> set L \<and> block_at (unity_heap h) p sz)"

definition static_inv :: "static_heap \<Rightarrow> (nat \<rightharpoonup> u64) \<Rightarrow> bool" where
  "static_inv h live \<longleftrightarrow> length (unity_heap h) = 256 \<and> unat (heap_index h) \<le> 256
     \<and> finite (dom live) \<and> malloc_count h = int (card (dom live)) \<and> (\<exists>L. heap_tiles h live L)"

lemma static_invE:
  assumes "static_inv h live"
  obtains L where "tiled 0 L (unat (heap_index h))" "\<And>p sz. live p = Some sz \<Longrightarrow> (p, sz) \<in> set L"
    "\<And>p sz. live p = Some sz \<Longrightarrow> block_at (unity_heap h) p sz"
  using assms by (auto simp: static_inv_def heap_tiles_def)

lemma static_invD:
  assumes "static_inv h live"
  shows "length (unity_heap h) = 256" "unat (heap_index h) \<le> 256" "finite (dom live)" "malloc_count h = int (card (dom live))"
  using assms by (auto simp: static_inv_def)

lemma static_inv_bounds:
  assumes "static_inv h live" "live p = Some sz"
  shows "16 \<le> p" "fits_size sz" "p + room sz \<le> unat (heap_index h)" "block_at (unity_heap h) p sz"
    "p + unat sz + 4 \<le> unat (heap_index h)"
proof -
  obtain L where L: "tiled 0 L (unat (heap_index h))" "\<And>p sz. live p = Some sz \<Longrightarrow> (p, sz) \<in> set L"
    "\<And>p sz. live p = Some sz \<Longrightarrow> block_at (unity_heap h) p sz"
    by (rule static_invE[OF assms(1)]) blast
  show "16 \<le> p" and f: "fits_size sz" and r: "p + room sz \<le> unat (heap_index h)" "block_at (unity_heap h) p sz"
    using tiled_bounds[OF L(1) L(2)[OF assms(2)]] L(3)[OF assms(2)] by simp_all
  show "p + unat sz + 4 \<le> unat (heap_index h)" using room[OF f] r(1) by simp
qed

lemma static_inv_apart:
  assumes "static_inv h live" "live p = Some m" "live q = Some n" "p \<noteq> q"
  shows "p + room m + 16 \<le> q \<or> q + room n + 16 \<le> p"
proof -
  obtain L where L: "tiled 0 L (unat (heap_index h))" "\<And>p sz. live p = Some sz \<Longrightarrow> (p, sz) \<in> set L"
    by (rule static_invE[OF assms(1)]) blast
  then show ?thesis using tiled_apart[OF L(1) L(2)[OF assms(2)] L(2)[OF assms(3)]] assms(4) by simp
qed

lemma block_at_kept:
  assumes "static_inv h live" "live p = Some sz" "same_on (p - 16) p (unity_heap h) mem'"
    "same_on (p + unat sz) (p + unat sz + 4) (unity_heap h) mem'"
  shows "block_at mem' p sz"
  using block_at_same static_inv_bounds(4)[OF assms(1,2)] assms(3,4) by blast

lemma same_on_part: "same_on a b x y \<Longrightarrow> a \<le> c \<Longrightarrow> d \<le> b \<Longrightarrow> same_on c d x y"
  by (auto simp: same_on_def)

lemma malloc_keeps:
  assumes inv: "static_inv h live" and run: "static_malloc sz h = Some (Some p, h')"
  shows "static_inv h' (live(p \<mapsto> sz))" "live p = None"
proof -
  note I = static_invD[OF inv]
  obtain L where L: "tiled 0 L (unat (heap_index h))" "\<And>p sz. live p = Some sz \<Longrightarrow> (p, sz) \<in> set L"
    using inv by (auto elim: static_invE)
  from run I(1,2) have st: "p = unat (heap_index h) + 16" "fits_size sz" "p + room sz \<le> 256" "unat (heap_index h') = p + room sz"
      "malloc_count h' = malloc_count h + 1" "block_at (unity_heap h') p sz" "length (unity_heap h') = 256"
      "same_on 0 (unat (heap_index h)) (unity_heap h) (unity_heap h')"
    by (cases rule: static_malloc_cases; simp)+
  show new: "live p = None" using static_inv_bounds(3)[OF inv, of p] st(1) by (cases "live p") auto
  have "tiled 0 (L @ [(p, sz)]) (unat (heap_index h'))" using L(1) st by (auto simp: tiled_append)
  moreover have "block_at (unity_heap h') q n" if q: "live q = Some n" for q n
    using same_on_part[OF st(8)] static_inv_bounds(1,5)[OF inv q] by (intro block_at_kept[OF inv q]) auto
  ultimately have "heap_tiles h' (live(p \<mapsto> sz)) (L @ [(p, sz)])" using L(2) st(6) by (auto simp: heap_tiles_def)
  then show "static_inv h' (live(p \<mapsto> sz))" using I st new by (auto simp: static_inv_def domIff)
qed

lemma malloc_null_keeps:
  assumes "static_inv h live" "static_malloc sz h = Some (None, h')"
  shows "static_inv h' live"
  using assms(2) static_invD(1,2)[OF assms(1)] assms(1)
  by (cases rule: static_malloc_cases) (simp_all add: static_inv_def heap_tiles_def)

text \<open>Releasing a live block moves the end of the heap back exactly if it is the last one.\<close>

lemma release_result:
  assumes inv: "static_inv h live" and p: "live p = Some sz"
  shows "\<exists>h'. static_release p h = Some h' \<and> malloc_count h' = malloc_count h - 1 \<and> unity_heap h' = unity_heap h
    \<and> unat (heap_index h') = (if p + room sz = unat (heap_index h) then p - 16 else unat (heap_index h))
    \<and> malloc_fail_countdown h' = malloc_fail_countdown h \<and> unity h' = unity h"
proof -
  let ?h = "h\<lparr>malloc_count := malloc_count h - 1\<rparr>" and ?b = "unity_size_round_up (sz + sizeof_end)"
  note B = static_inv_bounds[OF inv p]
  have g: "guard_size p ?h = Some sz" using block_guard(1)[of ?h p sz] B(4) by simp
  have le: "?b \<le> heap_index h" using B(3) by (simp add: word_le_nat_alt room_def)
  have last: "before_end ?b ?h = Some (unat (heap_index h) - room sz)" using le by (simp add: before_end_def unat_sub room_def)
  have "unat (sizeof_Guard + ?b) = 16 + room sz"
    using unat_add_64[of sizeof_Guard ?b] B(1,3) static_invD(2)[OF inv] by (simp add: room_def)
  then have "unat (heap_index h - (sizeof_Guard + ?b)) = p - 16" if "p + room sz = unat (heap_index h)"
    using that B(1) by (simp add: unat_sub word_le_nat_alt)
  moreover have "p = unat (heap_index h) - room sz \<longleftrightarrow> p + room sz = unat (heap_index h)" using B(3) by linarith
  ultimately show ?thesis using g last by (simp add: static_release_def Let_def)
qed

lemma release_keeps:
  assumes inv: "static_inv h live" and p: "live p = Some sz" and run: "static_release p h = Some h'"
  shows "static_inv h' (live(p := None))"
proof -
  note I = static_invD[OF inv]
  obtain L where L: "tiled 0 L (unat (heap_index h))" "\<And>p sz. live p = Some sz \<Longrightarrow> (p, sz) \<in> set L"
      "\<And>p sz. live p = Some sz \<Longrightarrow> block_at (unity_heap h) p sz"
    using inv by (auto elim: static_invE)
  have st: "malloc_count h' = malloc_count h - 1" "unity_heap h' = unity_heap h"
      "unat (heap_index h') = (if p + room sz = unat (heap_index h) then p - 16 else unat (heap_index h))"
    using release_result[OF inv p] run by auto
  have "\<exists>M. heap_tiles h' (live(p := None)) M"
  proof (cases "p + room sz = unat (heap_index h)")
    case True
    obtain L0 where L0: "L = L0 @ [(p, sz)]" "tiled 0 L0 (p - 16)" by (rule tiled_last[OF L(1) L(2)[OF p] True])
    then have "heap_tiles h' (live(p := None)) L0" using L True st by (fastforce simp: heap_tiles_def)
    then show ?thesis by blast
  next
    case False
    then have "heap_tiles h' (live(p := None)) L" using L st by (auto simp: heap_tiles_def)
    then show ?thesis by blast
  qed
  moreover have "int (card (dom live - {p})) = int (card (dom live)) - 1"
    using card_Suc_Diff1[OF I(3) domI[of live, OF p]] by simp
  moreover have "unat (heap_index h') \<le> 256" using st(3) I(2) static_inv_bounds(3)[OF inv p] by auto
  ultimately show ?thesis using I st by (auto simp: static_inv_def)
qed

text \<open>Writing into live blocks.\<close>

lemma write_keeps:
  assumes inv: "static_inv h live" and p: "live p = Some sz" and same: "\<And>a b. b \<le> p \<or> p + unat sz \<le> a \<Longrightarrow> same_on a b (unity_heap h) mem"
  shows "static_inv (h\<lparr>unity_heap := mem\<rparr>) live"
proof -
  have "block_at mem q n" if q: "live q = Some n" for q n
  proof (cases "q = p")
    case True
    then show ?thesis using same p q by (intro block_at_kept[OF inv q]) auto
  next
    case False
    then show ?thesis
      using static_inv_apart[OF inv p q] room static_inv_bounds(1,2)[OF inv q] static_inv_bounds(2)[OF inv p]
      by (intro block_at_kept[OF inv q] same) fastforce+
  qed
  moreover have "length mem = 256" using same[of 0 0] static_invD(1)[OF inv] by (simp add: same_on_def)
  ultimately show ?thesis using inv by (auto simp: static_inv_def heap_tiles_def)
qed

lemma copy_keeps:
  assumes "static_inv h live" "live p = Some sz" "memcpy_at (unity_heap h) (p + i) bs = Some mem" "i + length bs \<le> unat sz"
  shows "static_inv (h\<lparr>unity_heap := mem\<rparr>) live"
  using assms(4) by (intro write_keeps[OF assms(1,2)] same_on_copied[OF assms(3)]) auto

lemma calloc_keeps:
  assumes "static_inv h live" "static_calloc num sz h = Some (mem, h')"
  shows "static_inv h' (case mem of None \<Rightarrow> live | Some p \<Rightarrow> live(p \<mapsto> num * sz))"
proof -
  obtain m h1 where m: "static_malloc (num * sz) h = Some (m, h1)"
      "(case m of None \<Rightarrow> Some (None, h1) | Some p \<Rightarrow> do {
          zeroed \<leftarrow> memcpy_at (unity_heap h1) p (replicate (unat (num * sz)) 0);
          Some (Some p, h1\<lparr>unity_heap := zeroed\<rparr>) }) = Some (mem, h')"
    using assms(2) by (auto simp: static_calloc_def split: bind_splits)
  show ?thesis
  proof (cases m)
    case None
    then show ?thesis using m malloc_null_keeps[OF assms(1)] by auto
  next
    case (Some p)
    then obtain z where z: "memcpy_at (unity_heap h1) p (replicate (unat (num * sz)) 0) = Some z" "mem = Some p"
        "h' = h1\<lparr>unity_heap := z\<rparr>"
      using m(2) by (auto split: bind_splits)
    have "static_inv h1 (live(p \<mapsto> num * sz))" using malloc_keeps(1)[OF assms(1)] m(1) Some by simp
    from copy_keeps[OF this, of p "num * sz" 0] show ?thesis using z by simp
  qed
qed

lemma malloc_not_null:
  assumes "malloc_fail_countdown h \<noteq> 0" "sz \<noteq> 0" "unat (heap_index h + (sizeof_Guard + unity_size_round_up (sz + sizeof_end))) \<le> 256"
  shows "static_malloc sz h \<noteq> Some (None, h')"
proof -
  obtain c where c: "count_down h = h\<lparr>malloc_fail_countdown := c\<rparr>" using count_down by blast
  then show ?thesis
    using assms unfolding static_malloc_def Let_def UNITY_INTERNAL_HEAP_SIZE_BYTES_def c
    by (auto simp: cut_block_def Let_def split: bind_splits)
qed

text \<open>The cases of a call on a live block.\<close>

definition grows :: "nat \<Rightarrow> u64 \<Rightarrow> u64 \<Rightarrow> static_heap \<Rightarrow> bool" where
  "grows p old sz h \<longleftrightarrow> p + room old = unat (heap_index h)
     \<and> unat (heap_index h - unity_size_round_up (old + sizeof_end) + unity_size_round_up (sz + sizeof_end)) \<le> 256"

text \<open>What a call of \<open>realloc\<close> that returns does to the live pointers. A block that is the last one and
  could grow in place is released before the allocation: if this fails, the block is gone.\<close>

definition realloc_live ::
  "static_heap \<Rightarrow> (nat \<rightharpoonup> u64) \<Rightarrow> nat \<Rightarrow> u64 \<Rightarrow> u64 \<Rightarrow> pointer \<Rightarrow> (nat \<rightharpoonup> u64)" where
  "realloc_live h live p old sz mem =
     (case mem of
        None \<Rightarrow> if sz = 0 \<or> grows p old sz h then live(p := None) else live
      | Some q \<Rightarrow> if sz \<le> old then live else (live(p := None))(q \<mapsto> sz))"

text \<open>The last block grows in place; the condition is the one of \<open>unity_malloc\<close> after the release.\<close>

lemma grow_in_place:
  assumes inv: "static_inv h live" and p: "live p = Some old" and grows: "grows p old sz h"
    and rel: "static_release p h = Some h1"
  shows "unat (heap_index h1 + (sizeof_Guard + unity_size_round_up (sz + sizeof_end))) \<le> 256" "unat (heap_index h1) + 16 = p"
proof -
  have at_end: "p + room old = unat (heap_index h)"
    and fit: "unat (heap_index h - unity_size_round_up (old + sizeof_end) + unity_size_round_up (sz + sizeof_end)) \<le> 256"
    using grows by (simp_all add: grows_def)
  let ?b = "unity_size_round_up (old + sizeof_end)"
  have h1: "unat (heap_index h1) = p - 16" using release_result[OF inv p] rel at_end by auto
  then show "unat (heap_index h1) + 16 = p" using static_inv_bounds(1)[OF inv p] by simp
  have "unat (heap_index h1 + 16) = p"
    using h1 unat_add_64[of "heap_index h1" 16] static_inv_bounds(1,3)[OF inv p] static_invD(2)[OF inv] by simp
  moreover have "unat (heap_index h - ?b) = p" using at_end by (simp add: unat_sub word_le_nat_alt room_def flip: at_end)
  ultimately have "heap_index h1 + 16 = heap_index h - ?b" by (simp add: word_unat_eq_iff)
  then show "unat (heap_index h1 + (sizeof_Guard + unity_size_round_up (sz + sizeof_end))) \<le> 256"
    using fit by (simp add: add.assoc[symmetric])
qed

lemma realloc_eq:
  assumes inv: "static_inv h live" and p: "live p = Some old"
  shows "static_realloc (Some p) sz h =
    (if sz = 0 then do { h \<leftarrow> static_release p h; Some (Inr (None, h)) }
     else if sz \<le> old then Some (Inr (Some p, h))
     else if grows p old sz h then do { h \<leftarrow> static_release p h; map_option Inr (static_malloc sz h) }
     else do {
       (newMem, h) \<leftarrow> static_malloc sz h;
       (case newMem of
          None \<Rightarrow> Some (Inr (None, h))
        | Some q \<Rightarrow> do {
            (if p + unat old \<le> length (unity_heap h) then Some () else None);
            copied \<leftarrow> memcpy_at (unity_heap h) q (take (unat old) (drop p (unity_heap h)));
            h \<leftarrow> static_release p (h\<lparr>unity_heap := copied\<rparr>);
            Some (Inr (Some q, h)) })
     })"
proof -
  let ?b = "unity_size_round_up (old + sizeof_end)"
  note B = static_inv_bounds[OF inv p]
  note g = block_guard[OF B(4)]
  have "?b \<le> heap_index h" using B(3) by (simp add: word_le_nat_alt room_def)
  then have last: "before_end ?b h = Some (unat (heap_index h) - room old)" by (simp add: before_end_def unat_sub room_def)
  have "p = unat (heap_index h) - room old \<longleftrightarrow> p + room old = unat (heap_index h)" using B(3) by linarith
  then show ?thesis
    using g last by (simp add: static_realloc_def Let_def grows_def UNITY_INTERNAL_HEAP_SIZE_BYTES_def)
qed

lemma static_realloc_cases:
  assumes inv: "static_inv h live" and p: "live p = Some old" and run: "static_realloc (Some p) sz h = Some r"
  obtains (release) h1 where "sz = 0" "static_release p h = Some h1" "r = Inr (None, h1)"
  | (keep) "sz \<noteq> 0" "sz \<le> old" "r = Inr (Some p, h)"
  | (grow) h1 m h2 where "sz \<noteq> 0" "old < sz" "grows p old sz h" "static_release p h = Some h1"
      "static_malloc sz h1 = Some (m, h2)" "r = Inr (m, h2)"
  | (none) h1 where "sz \<noteq> 0" "old < sz" "\<not> grows p old sz h" "static_malloc sz h = Some (None, h1)" "r = Inr (None, h1)"
  | (move) h1 q c h2 where "sz \<noteq> 0" "old < sz" "static_malloc sz h = Some (Some q, h1)"
      "memcpy_at (unity_heap h1) q (take (unat old) (drop p (unity_heap h1))) = Some c"
      "static_release p (h1\<lparr>unity_heap := c\<rparr>) = Some h2" "r = Inr (Some q, h2)"
  using run unfolding realloc_eq[OF inv p]
  by (auto simp: not_le split: if_splits bind_splits option.splits)

lemma realloc_keeps:
  assumes inv: "static_inv h live" and p: "live p = Some old" and run: "static_realloc (Some p) sz h = Some (Inr (mem, h'))"
  shows "static_inv h' (realloc_live h live p old sz mem)"
  using inv p run
proof (cases rule: static_realloc_cases)
  case (release h1)
  then show ?thesis using release_keeps[OF inv p] by (simp add: realloc_live_def)
next
  case keep
  then show ?thesis using inv by (simp add: realloc_live_def)
next
  case (grow h1 m h2)
  have h1: "static_inv h1 (live(p := None))" by (rule release_keeps[OF inv p grow(4)])
  show ?thesis
  proof (cases m)
    case None
    then show ?thesis using malloc_null_keeps[OF h1] grow by (simp add: realloc_live_def)
  next
    case (Some q)
    then show ?thesis using malloc_keeps(1)[OF h1] grow by (auto simp: realloc_live_def)
  qed
next
  case (none h1)
  then show ?thesis using malloc_null_keeps[OF inv] by (simp add: realloc_live_def)
next
  case (move h1 q c h2)
  have h1: "static_inv h1 (live(q \<mapsto> sz))" and new: "live q = None" using malloc_keeps[OF inv move(3)] by simp_all
  have "unat old \<le> unat sz" using move(2) by (simp add: word_less_nat_alt)
  then have c: "static_inv (h1\<lparr>unity_heap := c\<rparr>) (live(q \<mapsto> sz))"
    using copy_keeps[OF h1, of q sz 0 "take (unat old) (drop p (unity_heap h1))" c] move(4) by simp
  have "q \<noteq> p" using new p by auto
  then have "static_inv h2 ((live(q \<mapsto> sz))(p := None))" using release_keeps[OF c, of p old h2] move(5) p by simp
  then show ?thesis using move \<open>q \<noteq> p\<close> by (auto simp: realloc_live_def fun_upd_twist)
qed

text \<open>That happens only where \<open>UnityMalloc_MakeMallocFailAfterCount\<close> makes the allocation fail.\<close>

lemma realloc_loses_only_at_zero:
  assumes inv: "static_inv h live" and p: "live p = Some old" and run: "static_realloc (Some p) sz h = Some (Inr (None, h'))"
    and "sz \<noteq> 0" "grows p old sz h"
  shows "malloc_fail_countdown h = 0"
  using inv p run
proof (cases rule: static_realloc_cases)
  case (grow h1 m h2)
  have "malloc_fail_countdown h1 = malloc_fail_countdown h" using release_result[OF inv p] grow(4) by auto
  then show ?thesis
    using malloc_not_null[OF _ grow(1) grow_in_place(1)[OF inv p grow(3,4)]] grow(5,6) by auto
qed (use assms(4,5) in auto)

text \<open>The contents of the block move with it.\<close>

lemma same_on_take: "same_on a b x y \<Longrightarrow> a \<le> i \<Longrightarrow> i + n \<le> b \<Longrightarrow> take n (drop i y) = take n (drop i x)"
  by (auto simp: same_on_def list_eq_iff_nth_eq)

lemma static_realloc_keeps_contents:
  assumes inv: "static_inv h live" and p: "live p = Some old" and run: "static_realloc (Some p) sz h = Some (Inr (Some q, h'))"
  shows "take (unat (min old sz)) (drop q (unity_heap h')) = take (unat (min old sz)) (drop p (unity_heap h))"
  using inv p run
proof (cases rule: static_realloc_cases)
  case (grow h1 m h2)
  have h1: "unity_heap h1 = unity_heap h" "unat (heap_index h1) + 16 = p"
    using release_result[OF inv p] grow(4) grow_in_place(2)[OF inv p grow(3,4)] by auto
  have "length (unity_heap h1) = 256" "unat (heap_index h1) \<le> 256"
    using h1 static_invD(1,2)[OF inv] static_inv_bounds(3)[OF inv p] by auto
  then have "q = p" "same_on p (p + unat sz) (unity_heap h) (unity_heap h')"
    using static_malloc_cases[OF grow(5)] grow(6) h1 by auto
  moreover have "min old sz = old" "unat old \<le> unat sz" using grow(2) by (simp_all add: min.absorb1 word_less_nat_alt)
  ultimately show ?thesis using same_on_take[of p "p + unat sz"] by simp
next
  case (move h1 r c h2)
  have h1: "static_inv h1 (live(r \<mapsto> sz))" using malloc_keeps[OF inv move(3)] by simp
  have new: "r \<noteq> p" using malloc_keeps(2)[OF inv move(3)] p by auto
  have m: "min old sz = old" "unat old \<le> unat sz" using move(2) by (simp_all add: min.absorb1 word_less_nat_alt)
  have c: "static_inv (h1\<lparr>unity_heap := c\<rparr>) (live(r \<mapsto> sz))"
    using copy_keeps[OF h1, of r sz 0 "take (unat old) (drop p (unity_heap h1))" c] move(4) m(2) by simp
  have h2: "unity_heap h2 = c" using release_result[OF c, of p old] move(5) p new by auto
  from move(3) static_invD(1,2)[OF inv] have "same_on 0 (unat (heap_index h)) (unity_heap h) (unity_heap h1)"
    by (cases rule: static_malloc_cases; simp)
  then have "take (unat old) (drop p (unity_heap h1)) = take (unat old) (drop p (unity_heap h))"
    using same_on_take static_inv_bounds(5)[OF inv p] by auto
  moreover have "length (take (unat old) (drop p (unity_heap h1))) = unat old"
    using static_inv_bounds(5)[OF inv p] static_invD(1,2)[OF inv] static_invD(1)[OF h1] by simp
  then have "take (unat old) (drop r c) = take (unat old) (drop p (unity_heap h1))"
    using bytes_at_take[OF bytes_at_copied[OF move(4)]] by simp
  ultimately show ?thesis using h2 m(1) move(6) by simp
qed simp_all

subsection \<open>Everything a test can do\<close>

text \<open>The calls of a test, with allocations that fail wherever they may, and its stores into the blocks it
  has. The live pointers are those that were returned and not released since, by the test or by a
  \<open>realloc\<close>, one that then fails to grow the block included.\<close>

inductive static_step :: "static_heap \<times> (nat \<rightharpoonup> u64) \<Rightarrow> static_heap \<times> (nat \<rightharpoonup> u64) \<Rightarrow> bool" where
  malloc: "static_malloc sz h = Some (mem, h') \<Longrightarrow>
     static_step (h, live) (h', case mem of None \<Rightarrow> live | Some p \<Rightarrow> live(p \<mapsto> sz))"
| calloc: "static_calloc num sz h = Some (mem, h') \<Longrightarrow>
     static_step (h, live) (h', case mem of None \<Rightarrow> live | Some p \<Rightarrow> live(p \<mapsto> num * sz))"
| free: "live p = Some sz \<Longrightarrow> static_free (Some p) h = Some (Inr h') \<Longrightarrow> static_step (h, live) (h', live(p := None))"
| realloc: "live p = Some old \<Longrightarrow> static_realloc (Some p) sz h = Some (Inr (mem, h')) \<Longrightarrow>
     static_step (h, live) (h', realloc_live h live p old sz mem)"
| store: "live p = Some sz \<Longrightarrow> i + length bs \<le> unat sz \<Longrightarrow> memcpy_at (unity_heap h) (p + i) bs = Some mem \<Longrightarrow>
     static_step (h, live) (h\<lparr>unity_heap := mem\<rparr>, live)"
| fail_after: "static_step (h, live) (h\<lparr>malloc_fail_countdown := countdown\<rparr>, live)"
| other: "static_step (h, live) (h\<lparr>unity := u\<rparr>, live)"

definition static_start :: "static_heap \<Rightarrow> bool" where
  "static_start h \<longleftrightarrow> length (unity_heap h) = UNITY_INTERNAL_HEAP_SIZE_BYTES \<and> heap_index h = 0 \<and> malloc_count h = 0"

inductive static_reachable :: "static_heap \<times> (nat \<rightharpoonup> u64) \<Rightarrow> bool" where
  start: "static_start h \<Longrightarrow> static_reachable (h, Map.empty)"
| step: "static_reachable s \<Longrightarrow> static_step s s' \<Longrightarrow> static_reachable s'"

lemma static_step_keeps:
  assumes "static_step (h, live) (h', live')" "static_inv h live"
  shows "static_inv h' live'"
  using assms(1)
proof cases
  case (malloc sz mem)
  then show ?thesis
    using malloc_keeps(1)[OF assms(2)] malloc_null_keeps[OF assms(2)] by (auto split: option.splits)
next
  case (calloc num sz mem)
  then show ?thesis using calloc_keeps[OF assms(2)] by blast
next
  case (free p sz)
  then have "static_release p h = Some h'"
    using block_guard(3)[OF static_inv_bounds(4)[OF assms(2) free(2)]] by (auto simp: static_free_def split: bind_splits)
  then show ?thesis using release_keeps[OF assms(2) free(2)] free(1) by blast
next
  case (realloc p old sz mem)
  then show ?thesis using realloc_keeps[OF assms(2)] by blast
next
  case (store p sz i bs mem)
  then show ?thesis using copy_keeps[OF assms(2)] by blast
qed (use assms(2) in \<open>auto simp: static_inv_def heap_tiles_def\<close>)

lemma static_reachable_inv: "static_reachable s \<Longrightarrow> static_inv (fst s) (snd s)"
proof (induction rule: static_reachable.induct)
  case (start h)
  have "heap_tiles h Map.empty []" using start by (simp add: heap_tiles_def static_start_def)
  then show ?case using start by (auto simp: static_inv_def static_start_def UNITY_INTERNAL_HEAP_SIZE_BYTES_def)
next
  case (step s s')
  then show ?case using static_step_keeps[of "fst s" "snd s" "fst s'" "snd s'"] by simp
qed

subsection \<open>A heap with one block\<close>

definition empty_static_heap :: static_heap where
  "empty_static_heap = \<lparr>unity_heap = replicate 256 0, heap_index = 0, malloc_count = 0, malloc_fail_countdown = - 1, unity = sample_unity\<rparr>"

lemma empty_reachable: "static_reachable (empty_static_heap, Map.empty)"
  by (rule start) (simp add: static_start_def empty_static_heap_def UNITY_INTERNAL_HEAP_SIZE_BYTES_def)

lemma one_block:
  obtains h where "static_malloc 2 empty_static_heap = Some (Some 16, h)" "static_reachable (h, [16 \<mapsto> 2])"
    "malloc_fail_countdown h = - 1" "heap_index h = 24"
proof -
  have "\<exists>h. static_malloc 2 empty_static_heap = Some (Some 16, h) \<and> malloc_fail_countdown h = - 1 \<and> heap_index h = 24"
    by (simp add: static_malloc_def cut_block_def count_down_def empty_static_heap_def UNITY_INTERNAL_HEAP_SIZE_BYTES_def
        unity_size_round_up_def memcpy_at_def Let_def)
  then obtain h where h: "static_malloc 2 empty_static_heap = Some (Some 16, h)" "malloc_fail_countdown h = - 1" "heap_index h = 24"
    by blast
  from step[OF empty_reachable malloc[OF h(1)]] show thesis using that h by simp
qed

subsection \<open>Properties\<close>

text \<open>Property C22: with the static heap too, whatever a test allocates, frees, reallocates and writes into its
  blocks, in any order and whichever allocations fail: the live blocks lie in the array, with their
  headers and end markers, and apart from each other; no overrun is reported for any of them, and
  freeing one returns; \<open>malloc_count\<close> is their number. A block is live from the call that returned it
  until it is released: by \<open>free\<close>, by \<open>realloc\<close> to size 0 or to another place, or by a \<open>realloc\<close> that
  releases it to grow it in place and then fails, after which the caller
  still has its address.\<close>

theorem static_blocks_stay_intact:
  assumes "static_reachable (h, live)"
  shows "malloc_count h = int (card (dom live))
    \<and> (\<forall>p sz. live p = Some sz \<longrightarrow>
         16 \<le> p \<and> p + unat sz + 4 \<le> UNITY_INTERNAL_HEAP_SIZE_BYTES
         \<and> guard_size p h = Some sz \<and> static_overrun p h = Some False \<and> (\<exists>h'. static_free (Some p) h = Some (Inr h')))
    \<and> (\<forall>p sz q sz'. live p = Some sz \<and> live q = Some sz' \<and> p \<noteq> q \<longrightarrow>
         p + unat sz + 4 + 16 \<le> q \<or> q + unat sz' + 4 + 16 \<le> p)"
proof -
  have inv: "static_inv h live" using static_reachable_inv[OF assms] by simp
  have one: "16 \<le> p \<and> p + unat sz + 4 \<le> UNITY_INTERNAL_HEAP_SIZE_BYTES
         \<and> guard_size p h = Some sz \<and> static_overrun p h = Some False \<and> (\<exists>h'. static_free (Some p) h = Some (Inr h'))"
    if p: "live p = Some sz" for p sz
  proof -
    note B = static_inv_bounds[OF inv p]
    have "\<exists>h'. static_free (Some p) h = Some (Inr h')"
      using release_result[OF inv p] block_guard(3)[OF B(4)] by (auto simp: static_free_def)
    then show ?thesis using B(1,5) static_invD(2)[OF inv] block_guard[OF B(4)] by (simp add: UNITY_INTERNAL_HEAP_SIZE_BYTES_def)
  qed
  have two: "p + unat sz + 4 + 16 \<le> q \<or> q + unat sz' + 4 + 16 \<le> p"
    if "live p = Some sz" "live q = Some sz'" "p \<noteq> q" for p sz q sz'
    using static_inv_apart[OF inv that] room[OF static_inv_bounds(2)[OF inv that(1)]] room[OF static_inv_bounds(2)[OF inv that(2)]]
    by linarith
  show ?thesis using one two static_invD(4)[OF inv] by blast
qed

theorem static_blocks_stay_intact_witness:
  "\<exists>h. static_reachable (h, [16 \<mapsto> 2]) \<and> malloc_count h = 1 \<and> static_overrun 16 h = Some False"
proof -
  obtain h where h: "static_reachable (h, [16 \<mapsto> 2])" by (rule one_block)
  then show ?thesis using static_blocks_stay_intact[OF h] by auto
qed

text \<open>Property C31: a block that is freed while it is the last one is given back entirely: after \<open>unity_malloc\<close> and
  \<open>unity_free\<close> of the block it returned the same space is free as before, and the other blocks are as before.\<close>

theorem static_free_undoes_malloc:
  assumes "static_reachable (h, live)" "static_malloc sz h = Some (Some p, h1)"
  shows "\<exists>h2. static_free (Some p) h1 = Some (Inr h2) \<and> heap_index h2 = heap_index h \<and> malloc_count h2 = malloc_count h
    \<and> (\<forall>q n. live q = Some n \<longrightarrow> q \<noteq> p \<and> take (unat n) (drop q (unity_heap h2)) = take (unat n) (drop q (unity_heap h)))"
proof -
  have inv: "static_inv h live" using static_reachable_inv[OF assms(1)] by simp
  note I = static_invD[OF inv]
  have inv1: "static_inv h1 (live(p \<mapsto> sz))" and new: "live p = None" using malloc_keeps[OF inv assms(2)] .
  from assms(2) I(1,2) have st: "p = unat (heap_index h) + 16" "unat (heap_index h1) = p + room sz" "malloc_count h1 = malloc_count h + 1"
      "same_on 0 (unat (heap_index h)) (unity_heap h) (unity_heap h1)"
    by (cases rule: static_malloc_cases; simp)+
  obtain h2 where h2: "static_release p h1 = Some h2" "malloc_count h2 = malloc_count h" "unity_heap h2 = unity_heap h1"
      "unat (heap_index h2) = unat (heap_index h)"
    using release_result[OF inv1, of p sz] st by auto
  have "static_free (Some p) h1 = Some (Inr h2)"
    using block_guard(3)[OF static_inv_bounds(4)[OF inv1, of p sz]] h2(1) by (simp add: static_free_def)
  moreover have "take (unat n) (drop q (unity_heap h1)) = take (unat n) (drop q (unity_heap h))" if q: "live q = Some n" for q n
    using st(4) static_inv_bounds(5)[OF inv q] I(1,2) by (auto simp: same_on_def list_eq_iff_nth_eq)
  ultimately show ?thesis using h2 new by (auto simp: word_unat_eq_iff)
qed

theorem static_free_undoes_malloc_witness:
  "\<exists>h1 h2. static_malloc 2 empty_static_heap = Some (Some 16, h1) \<and> static_free (Some 16) h1 = Some (Inr h2)
    \<and> heap_index h2 = 0 \<and> malloc_count h2 = 0"
proof -
  obtain h1 where h1: "static_malloc 2 empty_static_heap = Some (Some 16, h1)" by (rule one_block)
  have "heap_index empty_static_heap = 0" "malloc_count empty_static_heap = 0" by (simp_all add: empty_static_heap_def)
  then show ?thesis using static_free_undoes_malloc[OF empty_reachable h1] h1 by auto
qed

text \<open>Property C40: \<open>unity_realloc\<close> of the last block that could grow in place, when \<open>UnityMalloc_MakeMallocFailAfterCount\<close> makes
  its allocation fail, returns \<open>NULL\<close> like any failing \<open>realloc\<close>, but the old block is gone: it has been released and
  is not counted any more, so that the next allocation that fits returns the pointer that the caller still uses.\<close>

theorem static_realloc_loses_block:
  assumes "static_reachable (h, live)" "live p = Some old" "malloc_fail_countdown h = 0" "old < sz" "grows p old sz h"
  shows "\<exists>h'. static_realloc (Some p) sz h = Some (Inr (None, h')) \<and> malloc_count h' = malloc_count h - 1
    \<and> (\<forall>n q h''. static_malloc n (h'\<lparr>malloc_fail_countdown := MALLOC_DONT_FAIL\<rparr>) = Some (Some q, h'') \<longrightarrow> q = p)"
proof -
  have inv: "static_inv h live" using static_reachable_inv[OF assms(1)] by simp
  obtain h1 where h1: "static_release p h = Some h1" "malloc_count h1 = malloc_count h - 1" "malloc_fail_countdown h1 = 0"
      "unity_heap h1 = unity_heap h"
    using release_result[OF inv assms(2)] assms(3) by auto
  have "sz \<noteq> 0" "\<not> sz \<le> old" using assms(4) by auto
  moreover have "static_malloc sz h1 = Some (None, h1)" using h1(3) by (simp add: static_malloc_def)
  ultimately have run: "static_realloc (Some p) sz h = Some (Inr (None, h1))"
    using assms(5) h1(1) by (simp add: realloc_eq[OF inv assms(2)])
  have idx: "unat (heap_index h1) + 16 = p" by (rule grow_in_place(2)[OF inv assms(2,5) h1(1)])
  have "length (unity_heap h1) = 256" "unat (heap_index h1) \<le> 256"
    using h1(4) static_invD(1,2)[OF inv] idx static_inv_bounds(3)[OF inv assms(2)] by auto
  then have "q = p" if "static_malloc n (h1\<lparr>malloc_fail_countdown := MALLOC_DONT_FAIL\<rparr>) = Some (Some q, h'')" for n q h''
    using static_malloc_cases[OF that] idx by auto
  then show ?thesis using run h1(2) by blast
qed

theorem static_realloc_loses_block_witness:
  "\<exists>h h'. static_reachable (h, [16 \<mapsto> 2]) \<and> static_realloc (Some 16) 9 h = Some (Inr (None, h')) \<and> malloc_count h' = 0"
proof -
  obtain g where g: "static_reachable (g, [16 \<mapsto> 2])" "heap_index g = 24" by (rule one_block)
  let ?h = "g\<lparr>malloc_fail_countdown := 0\<rparr>"
  have r: "static_reachable (?h, [16 \<mapsto> 2])" by (rule step[OF g(1) fail_after])
  have "grows 16 2 9 ?h" using g(2) by (simp add: grows_def room_def unity_size_round_up_def)
  moreover have "malloc_count g = 1" using static_invD(4)[OF static_reachable_inv[OF g(1)]] by simp
  ultimately show ?thesis using static_realloc_loses_block[OF r, of 16 2 9] r by auto
qed

end
