(* ===== verification/Unity_Fixture.thy ===== *)
theory Unity_Fixture
  imports Unity_Runner
begin

section \<open>Unity: the fixture runner\<close>

text \<open>
  \<^verbatim>\<open>assignment-autotest/Unity/extras/fixture/src/unity_fixture.c\<close>: the command line, the runner of
  the tests of a group, the pointers that a test may set and that are restored behind it, and the
  repeated runs of \<open>UnityMain\<close>. The state adds to \<open>Unity\<close> the options (\<open>UnityFixture\<close>), the memory
  cells that hold the pointers a test may set (by address), and the table of the pointers set.

  The code of the tests, and the function that runs all groups, are parameters: functions on this
  state. Where it matters what a test does to pointers, its code is a \<open>test_program\<close>: any sequence of
  calls of \<open>UnityPointer_Set\<close>, of direct assignments to the cells and of code on \<open>Unity\<close>, each step
  chosen from the state before it. \<open>UNITY_REPEAT_TEST_NAME\<close>, \<open>UNITY_CUSTOM_HELP_MSG\<close> and the time measurement are not
  configured.
\<close>

type_synonym i32 = "32 word"

record UNITY_FIXTURE_T =
  Verbose :: i32
  Silent :: i32
  RepeatCount :: u32
  NameFilter :: cstring
  GroupFilter :: cstring

record PointerPair =
  pointer :: u64
  old_value :: u64

record fixture =
  Unity :: unity
  UnityFixture :: UNITY_FIXTURE_T
  cells :: "u64 \<Rightarrow> u64"
  pointer_store :: "PointerPair list"
  pointer_index :: nat

type_synonym fixture_function = "fixture \<Rightarrow> (fixture + fixture) option"

abbreviation (input) UNITY_MAX_POINTERS :: nat where "UNITY_MAX_POINTERS \<equiv> 5"

text \<open>\<open>UNITY_OUTPUT_CHAR\<close> and the functions that only print.\<close>

definition out :: "byte list \<Rightarrow> fixture \<Rightarrow> fixture" where
  "out s f = f\<lparr>Unity := emit s (Unity f)\<rparr>"

subsection \<open>Restored pointers\<close>

definition UnityPointer_Init :: "fixture \<Rightarrow> fixture" where
  "UnityPointer_Init f = f\<lparr>pointer_index := 0\<rparr>"

definition UnityPointer_Set :: "u64 \<Rightarrow> u64 \<Rightarrow> u64 \<Rightarrow> fixture_function" where
  "UnityPointer_Set ptr newValue line f =
     Some (if pointer_index f \<ge> UNITY_MAX_POINTERS
       then map_sum (\<lambda>u. f\<lparr>Unity := u\<rparr>) (\<lambda>u. f\<lparr>Unity := u\<rparr>)
              (UnityFail (Some (str ''Too many pointers set'')) line (Unity f))
       else Inr (f\<lparr>pointer_store := (pointer_store f)[pointer_index f := \<lparr>pointer = ptr, old_value = cells f ptr\<rparr>],
                   cells := (cells f)(ptr := newValue),
                   pointer_index := pointer_index f + 1\<rparr>))"

fun undo_sets :: "nat \<Rightarrow> PointerPair list \<Rightarrow> (u64 \<Rightarrow> u64) \<Rightarrow> (u64 \<Rightarrow> u64)" where
  "undo_sets 0 store m = m"
| "undo_sets (Suc i) store m = undo_sets i store (m(pointer (store ! i) := old_value (store ! i)))"

definition UnityPointer_UndoAllSets :: "fixture \<Rightarrow> fixture" where
  "UnityPointer_UndoAllSets f =
     f\<lparr>cells := undo_sets (pointer_index f) (pointer_store f) (cells f), pointer_index := 0\<rparr>"

subsection \<open>One test\<close>

text \<open>\<open>strstr\<close> finds a string that occurs in the other.\<close>

definition selected :: "cstring \<Rightarrow> byte list \<Rightarrow> bool" where
  "selected namefilter name = (case namefilter of None \<Rightarrow> True | Some f \<Rightarrow> sublist f name)"

definition testSelected :: "byte list \<Rightarrow> fixture \<Rightarrow> bool" where
  "testSelected test f = selected (NameFilter (UnityFixture f)) test"

definition groupSelected :: "byte list \<Rightarrow> fixture \<Rightarrow> bool" where
  "groupSelected grp f = selected (GroupFilter (UnityFixture f)) grp"

definition UnityConcludeFixtureTest :: "fixture \<Rightarrow> fixture" where
  "UnityConcludeFixtureTest f =
     (let u = Unity f;
          u = (if CurrentTestIgnored u \<noteq> 0 then emit EOL (u\<lparr>TestIgnores := TestIgnores u + 1\<rparr>)
               else if CurrentTestFailed u = 0 then
                 (if Verbose (UnityFixture f) \<noteq> 0
                  then emit (UnityPrint (Some (str '' '')) @ UnityPrint (Some UnityStrPass) @ EOL) u else u)
               else emit EOL (u\<lparr>TestFailures := TestFailures u + 1\<rparr>))
      in f\<lparr>Unity := u\<lparr>CurrentTestFailed := 0, CurrentTestIgnored := 0\<rparr>\<rparr>)"

definition UnityTestRunner ::
  "fixture_function \<Rightarrow> fixture_function \<Rightarrow> fixture_function \<Rightarrow> cstring \<Rightarrow> byte list \<Rightarrow> byte list \<Rightarrow> cstring \<Rightarrow> u32
   \<Rightarrow> fixture \<Rightarrow> fixture option" where
  "UnityTestRunner setup testBody teardown printableName grp name testFile line f =
     (if testSelected name f \<and> groupSelected grp f then do {
        let f = f\<lparr>Unity := (Unity f)\<lparr>TestFile := testFile, CurrentTestName := printableName,
                    CurrentTestLineNumber := ucast line\<rparr>\<rparr>;
        let f = (if Verbose (UnityFixture f) \<noteq> 0 then
                   (let f = out (UnityPrint printableName) f in f\<lparr>Unity := (Unity f)\<lparr>CurrentTestName := None\<rparr>\<rparr>)
                 else if Silent (UnityFixture f) \<noteq> 0 then f
                 else out (str ''.'') f);
        let f = f\<lparr>Unity := (Unity f)\<lparr>NumberOfTests := NumberOfTests (Unity f) + 1\<rparr>\<rparr>;
        let f = UnityPointer_Init f;
        f \<leftarrow> TEST_PROTECT (sequence setup testBody) f;
        f \<leftarrow> TEST_PROTECT teardown f;
        f \<leftarrow> TEST_PROTECT (\<lambda>f. Some (Inr (UnityPointer_UndoAllSets f))) f;
        Some (UnityConcludeFixtureTest f)
      } else Some f)"

definition UnityIgnoreTest :: "cstring \<Rightarrow> byte list \<Rightarrow> byte list \<Rightarrow> fixture \<Rightarrow> fixture" where
  "UnityIgnoreTest printableName grp name f =
     (if testSelected name f \<and> groupSelected grp f then
        (let f = f\<lparr>Unity := (Unity f)\<lparr>NumberOfTests := NumberOfTests (Unity f) + 1,
                     TestIgnores := TestIgnores (Unity f) + 1\<rparr>\<rparr> in
         if Verbose (UnityFixture f) \<noteq> 0 then out (UnityPrint printableName @ EOL) f
         else if Silent (UnityFixture f) \<noteq> 0 then f
         else out (str ''!'') f)
      else f)"

subsection \<open>The command line\<close>

definition usage :: "byte list" where
  "usage =
     UnityPrint (Some (str ''Runs a series of unit tests.'')) @ EOL @ EOL
     @ UnityPrint (Some (str ''When no flag is specified, all tests are run.'')) @ EOL @ EOL
     @ UnityPrint (Some (str ''Optional flags:'')) @ EOL
     @ UnityPrint (Some (str ''  -v          Verbose output: show all tests executed even if they pass'')) @ EOL
     @ UnityPrint (Some (str ''  -s          Silent mode: minimal output showing only test failures'')) @ EOL
     @ UnityPrint (Some (str ''  -g NAME     Only run tests in groups that contain the string NAME'')) @ EOL
     @ UnityPrint (Some (str ''  -n NAME     Only run tests whose name contains the string NAME'')) @ EOL
     @ UnityPrint (Some (str ''  -r NUMBER   Repeatedly run all tests NUMBER times'')) @ EOL
     @ UnityPrint (Some (str ''  -h, --help  Display this help message'')) @ EOL @ EOL
     @ UnityPrint (Some (str ''More information about Unity: https://www.throwtheswitch.org/unity'')) @ EOL"

definition digit_char :: "byte \<Rightarrow> bool" where
  "digit_char b \<longleftrightarrow> 48 \<le> b \<and> b \<le> 57"

text \<open>The loop over the digits of a number; the terminator is no digit.\<close>

fun repeat_digits :: "byte list \<Rightarrow> u32 \<Rightarrow> u32" where
  "repeat_digits [] count = count"
| "repeat_digits (b # bs) count =
     (if digit_char b then repeat_digits bs (count * 10 + (ucast b - 48)) else count)"

text \<open>The loop over the arguments that are left, from \<open>argv[i]\<close> on.\<close>

fun option_loop :: "byte list list \<Rightarrow> fixture \<Rightarrow> i32 \<times> fixture" where
  "option_loop [] f = (0, f)"
| "option_loop (a # args) f =
     (if a = str ''-h'' \<or> a = str ''--help'' then (1, out usage f)
      else if a = str ''-v'' then option_loop args (f\<lparr>UnityFixture := (UnityFixture f)\<lparr>Verbose := 1\<rparr>\<rparr>)
      else if a = str ''-s'' then option_loop args (f\<lparr>UnityFixture := (UnityFixture f)\<lparr>Silent := 1\<rparr>\<rparr>)
      else if a = str ''-g'' then
        (case args of
           [] \<Rightarrow> (1, f)
         | g # rest \<Rightarrow> option_loop rest (f\<lparr>UnityFixture := (UnityFixture f)\<lparr>GroupFilter := Some g\<rparr>\<rparr>))
      else if a = str ''-n'' then
        (case args of
           [] \<Rightarrow> (1, f)
         | n # rest \<Rightarrow> option_loop rest (f\<lparr>UnityFixture := (UnityFixture f)\<lparr>NameFilter := Some n\<rparr>\<rparr>))
      else if a = str ''-r'' then
        (let f = f\<lparr>UnityFixture := (UnityFixture f)\<lparr>RepeatCount := 2\<rparr>\<rparr> in
         case args of
           [] \<Rightarrow> option_loop [] f
         | n # rest \<Rightarrow>
             (if n \<noteq> [] \<and> digit_char (hd n)
              then option_loop rest (f\<lparr>UnityFixture := (UnityFixture f)\<lparr>RepeatCount := repeat_digits n 0\<rparr>\<rparr>)
              else option_loop args f))
      else option_loop args f)"

definition UnityGetCommandLineOptions :: "byte list list \<Rightarrow> fixture \<Rightarrow> i32 \<times> fixture" where
  "UnityGetCommandLineOptions argv f =
     (let f = f\<lparr>UnityFixture := \<lparr>Verbose = 0, Silent = 0, RepeatCount = 1, NameFilter = None, GroupFilter = None\<rparr>\<rparr> in
      if length argv = 1 then (0, f) else option_loop (tl argv) f)"

subsection \<open>All runs\<close>

definition setUp :: fixture_function where "setUp f = Some (Inr f)"
definition tearDown :: fixture_function where "tearDown f = Some (Inr f)"

definition announceTestRun :: "u32 \<Rightarrow> fixture \<Rightarrow> fixture" where
  "announceTestRun runNumber f =
     out (UnityPrint (Some (str ''Unity test run '')) @ UnityPrintNumberUnsigned (ucast (runNumber + 1))
          @ UnityPrint (Some (str '' of '')) @ UnityPrintNumberUnsigned (ucast (RepeatCount (UnityFixture f))) @ EOL) f"

definition one_run :: "cstring \<Rightarrow> u32 \<Rightarrow> (fixture \<Rightarrow> fixture option) \<Rightarrow> fixture \<Rightarrow> fixture option" where
  "one_run program r runAllTests f = do {
     let f = f\<lparr>Unity := UnityBegin program (Unity f)\<rparr>;
     let f = announceTestRun r f;
     f \<leftarrow> runAllTests f;
     let f = (if Verbose (UnityFixture f) = 0 then out EOL f else f);
     Some (f\<lparr>Unity := snd (UnityEnd (Unity f))\<rparr>)
   }"

lemma run_number_increases:
  assumes "r < (n :: u32)"
  shows "unat (r + 1) = unat r + 1"
  using assms unat_lt_32[of n] by (simp add: word_less_nat_alt unat_word_ariths)

text \<open>The loop from run \<open>r\<close> on; the code of the tests may change the options too.\<close>

function run_loop :: "cstring \<Rightarrow> u32 \<Rightarrow> (fixture \<Rightarrow> fixture option) \<Rightarrow> fixture \<Rightarrow> fixture option" where
  "run_loop program r runAllTests f =
     (if r < RepeatCount (UnityFixture f)
      then (case one_run program r runAllTests f of
              None \<Rightarrow> None
            | Some f' \<Rightarrow> run_loop program (r + 1) runAllTests f')
      else Some f)"
  by pat_completeness auto

termination
proof (relation "measure (\<lambda>(program, r, runAllTests, f). 2 ^ 32 - unat r)")
  fix program :: cstring and r :: u32 and runAllTests :: "fixture \<Rightarrow> fixture option" and f f' :: fixture
  assume "r < RepeatCount (UnityFixture f)"
  then show "((program, r + 1, runAllTests, f'), program, r, runAllTests, f)
      \<in> measure (\<lambda>(program, r, runAllTests, f). 2 ^ 32 - unat r)"
    using run_number_increases unat_lt_32[of r] by simp
qed simp

declare run_loop.simps [simp del]

definition UnityMain :: "byte list list \<Rightarrow> (fixture \<Rightarrow> fixture option) \<Rightarrow> fixture \<Rightarrow> (i32 \<times> fixture) option" where
  "UnityMain argv runAllTests f =
     (let (result, f) = UnityGetCommandLineOptions argv f in
      if result \<noteq> 0 then Some (result, f)
      else do {
        f \<leftarrow> run_loop (case argv of [] \<Rightarrow> None | a # _ \<Rightarrow> Some a) 0 runAllTests f;
        Some (ucast (TestFailures (Unity f)), f)
      })"

subsection \<open>Restoring pointers\<close>

text \<open>The memory that \<open>UnityPointer_UndoAllSets\<close> would leave.\<close>

definition restored :: "fixture \<Rightarrow> u64 \<Rightarrow> u64" where
  "restored f = undo_sets (pointer_index f) (pointer_store f) (cells f)"

definition table_ok :: "fixture \<Rightarrow> bool" where
  "table_ok f \<longleftrightarrow> length (pointer_store f) = UNITY_MAX_POINTERS \<and> pointer_index f \<le> UNITY_MAX_POINTERS"

lemma undo_sets_above: "i \<le> j \<Longrightarrow> undo_sets i (store[j := x]) m = undo_sets i store m"
  by (induction i arbitrary: m) auto

lemma undo_sets_store: "\<exists>j < i. pointer (store ! j) = p \<Longrightarrow> undo_sets i store (m(p := v)) = undo_sets i store m"
proof (induction i arbitrary: m)
  case (Suc i)
  let ?q = "pointer (store ! i)" and ?old = "old_value (store ! i)"
  show ?case
  proof (cases "?q = p")
    case False
    then have "\<exists>j < i. pointer (store ! j) = p" using Suc.prems less_Suc_eq by auto
    then have "undo_sets i store ((m(?q := ?old))(p := v)) = undo_sets i store (m(?q := ?old))" by (rule Suc.IH)
    then show ?thesis by (simp only: undo_sets.simps fun_upd_twist[OF not_sym[OF False], of m v ?old])
  next
    case True
    then show ?thesis by (simp only: undo_sets.simps fun_upd_upd)
  qed
qed simp

text \<open>Also a plain assignment to a pointer that the test has set is restored.\<close>

lemma restored_assignment:
  assumes "\<exists>j < pointer_index f. pointer (pointer_store f ! j) = p"
  shows "restored (f\<lparr>cells := (cells f)(p := v)\<rparr>) = restored f"
  using undo_sets_store[OF assms] by (simp add: restored_def)

lemma restored_set:
  assumes "table_ok f" "pointer_index f < UNITY_MAX_POINTERS"
  shows "restored (f\<lparr>pointer_store := (pointer_store f)[pointer_index f := \<lparr>pointer = p, old_value = cells f p\<rparr>],
      cells := (cells f)(p := v), pointer_index := pointer_index f + 1\<rparr>) = restored f"
  using assms by (simp add: restored_def table_ok_def undo_sets_above)

lemma restored_Unity [simp]: "restored (f\<lparr>Unity := u\<rparr>) = restored f"
  by (simp add: restored_def)

lemma table_ok_Unity [simp]: "table_ok (f\<lparr>Unity := u\<rparr>) = table_ok f"
  by (simp add: table_ok_def)

lemma undo_sets_agree:
  "(\<And>x. x \<noteq> p \<Longrightarrow> m x = m' x) \<Longrightarrow> q \<noteq> p \<Longrightarrow> undo_sets i store m q = undo_sets i store m' q"
proof (induction i arbitrary: m m')
  case (Suc i)
  show ?case unfolding undo_sets.simps by (rule Suc.IH) (use Suc.prems in auto)
qed simp

lemma restored_elsewhere: "q \<noteq> p \<Longrightarrow> restored (f\<lparr>cells := (cells f)(p := v)\<rparr>) q = restored f q"
  by (auto simp: restored_def intro: undo_sets_agree[of p])

subsection \<open>The code of a test\<close>

text \<open>Code on \<open>Unity\<close> alone, as the assertions are.\<close>

definition on_Unity :: "test_function \<Rightarrow> fixture_function" where
  "on_Unity code f = map_option (map_sum (\<lambda>u. f\<lparr>Unity := u\<rparr>) (\<lambda>u. f\<lparr>Unity := u\<rparr>)) (code (Unity f))"

lemma map_sum_eq [simp]:
  "map_sum f g z = Inl y \<longleftrightarrow> (\<exists>x. z = Inl x \<and> y = f x)"
  "map_sum f g z = Inr y' \<longleftrightarrow> (\<exists>x. z = Inr x \<and> y' = g x)"
  by (cases z; auto)+

text \<open>
  The steps of a test: it sets a pointer, assigns to a cell directly, or calls code that works on
  \<open>Unity\<close>. A test is a tree of steps: what comes next may depend on the whole state.
\<close>

datatype test_action = Set_pointer u64 u64 u64 | Assign u64 u64 | Call test_function

datatype test_program = Stop | Do test_action "fixture \<Rightarrow> test_program"

fun act :: "test_action \<Rightarrow> fixture_function" where
  "act (Set_pointer p v line) f = UnityPointer_Set p v line f"
| "act (Assign p v) f = Some (Inr (f\<lparr>cells := (cells f)(p := v)\<rparr>))"
| "act (Call code) f = on_Unity code f"

primrec run_program :: "test_program \<Rightarrow> fixture_function" where
  "run_program Stop f = Some (Inr f)"
| "run_program (Do a k) f =
     (case act a f of None \<Rightarrow> None | Some (Inl g) \<Rightarrow> Some (Inl g) | Some (Inr g) \<Rightarrow> run_program (k g) g)"

text \<open>The cells that code assigns to directly although it has not set them: only those may be changed
  behind the test.\<close>

definition is_set :: "fixture \<Rightarrow> u64 \<Rightarrow> bool" where
  "is_set f p \<longleftrightarrow> (\<exists>j < pointer_index f. pointer (pointer_store f ! j) = p)"

fun stray_of :: "test_action \<Rightarrow> fixture \<Rightarrow> u64 set" where
  "stray_of (Assign p v) f = (if is_set f p then {} else {p})"
| "stray_of _ f = {}"

primrec strays :: "test_program \<Rightarrow> fixture \<Rightarrow> u64 set" where
  "strays Stop f = {}"
| "strays (Do a k) f = stray_of a f \<union> (case act a f of Some (Inr g) \<Rightarrow> strays (k g) g | _ \<Rightarrow> {})"

text \<open>The code on \<open>Unity\<close> that a test calls meets the contract of \<open>Unity_Runner\<close>.\<close>

fun action_ok :: "test_action \<Rightarrow> bool" where
  "action_ok (Call code) = total_test_code code"
| "action_ok _ = True"

primrec program_ok :: "test_program \<Rightarrow> bool" where
  "program_ok Stop = True"
| "program_ok (Do a k) = (action_ok a \<and> (\<forall>f. program_ok (k f)))"

subsection \<open>The contract of test code\<close>

definition fixture_keeps :: "u64 set \<Rightarrow> fixture \<Rightarrow> fixture \<Rightarrow> bool" where
  "fixture_keeps S f f' \<longleftrightarrow> keeps (Unity f) (Unity f') \<and> keeps_marks (Unity f) (Unity f')
     \<and> UnityFixture f' = UnityFixture f \<and> table_ok f' \<and> (\<forall>p. p \<notin> S \<longrightarrow> restored f' p = restored f p)"

lemma fixture_keeps_refl: "table_ok f \<Longrightarrow> fixture_keeps S f f"
  by (simp add: fixture_keeps_def)

lemma fixture_keeps_trans: "fixture_keeps S f f' \<Longrightarrow> fixture_keeps T f' f'' \<Longrightarrow> fixture_keeps (S \<union> T) f f''"
  by (auto simp: fixture_keeps_def intro: keeps_trans keeps_marks_trans)

lemma fixture_keeps_mono: "fixture_keeps S f f' \<Longrightarrow> S \<subseteq> T \<Longrightarrow> fixture_keeps T f f'"
  by (auto simp: fixture_keeps_def)

lemma fixture_keeps_ok: "fixture_keeps S f f' \<Longrightarrow> table_ok f'"
  by (simp add: fixture_keeps_def)

text \<open>
  What the runner needs of code: it always has a value, and however it ends, undoing the sets
  restores every cell but the stray ones. Every \<open>test_program\<close> meets this (below).
\<close>

locale fixture_code =
  fixes code :: fixture_function and stray :: "fixture \<Rightarrow> u64 set"
  assumes total: "\<exists>r. code f = Some r"
    and leaves: "code f = Some (Inl f') \<Longrightarrow> table_ok f \<Longrightarrow> fixture_keeps (stray f) f f'"
    and returns: "code f = Some (Inr f') \<Longrightarrow> table_ok f \<Longrightarrow> fixture_keeps (stray f) f f'"
begin

lemma protected:
  assumes "table_ok f"
  shows "\<exists>f'. TEST_PROTECT code f = Some f' \<and> fixture_keeps (stray f) f f'"
proof -
  obtain r where r: "code f = Some r" using total by blast
  then show ?thesis
    using leaves[OF _ assms] returns[OF _ assms] by (cases r) (auto simp: TEST_PROTECT_def)
qed

end

definition stray_sequence ::
  "fixture_function \<Rightarrow> (fixture \<Rightarrow> u64 set) \<Rightarrow> (fixture \<Rightarrow> u64 set) \<Rightarrow> fixture \<Rightarrow> u64 set" where
  "stray_sequence code S T f = S f \<union> (case code f of Some (Inr g) \<Rightarrow> T g | _ \<Rightarrow> {})"

locale fixture_pair = fst: fixture_code f S + snd: fixture_code g T
  for f g S T

sublocale fixture_pair \<subseteq> seq: fixture_code "sequence f g" "stray_sequence f S T"
proof
  fix s
  show "\<exists>r. sequence f g s = Some r"
    using fst.total[of s] snd.total by (auto simp: sequence_def split: sum.splits)
next
  fix s s'
  assume s: "sequence f g s = Some (Inl s')" "table_ok s"
  then consider "f s = Some (Inl s')" | v where "f s = Some (Inr v)" "g v = Some (Inl s')"
    by (auto simp: sequence_def split: option.splits sum.splits)
  then show "fixture_keeps (stray_sequence f S T s) s s'"
  proof cases
    case 1
    then show ?thesis using fst.leaves[OF 1 s(2)] by (simp add: stray_sequence_def)
  next
    case 2
    note v = fst.returns[OF 2(1) s(2)]
    show ?thesis
      using fixture_keeps_trans[OF v snd.leaves[OF 2(2) fixture_keeps_ok[OF v]]] 2(1)
      by (simp add: stray_sequence_def)
  qed
next
  fix s s'
  assume s: "sequence f g s = Some (Inr s')" "table_ok s"
  then obtain v where v: "f s = Some (Inr v)" "g v = Some (Inr s')"
    by (auto simp: sequence_def split: option.splits sum.splits)
  note k = fst.returns[OF v(1) s(2)]
  show "fixture_keeps (stray_sequence f S T s) s s'"
    using fixture_keeps_trans[OF k snd.returns[OF v(2) fixture_keeps_ok[OF k]]] v(1)
    by (simp add: stray_sequence_def)
qed

subsection \<open>Programs meet the contract\<close>

lemma on_Unity_code:
  assumes "total_test_code code"
  shows "fixture_code (on_Unity code) (\<lambda>_. {})"
proof
  fix f
  show "\<exists>r. on_Unity code f = Some r" using total_test_code.total[OF assms] by (auto simp: on_Unity_def)
next
  fix f f'
  assume "on_Unity code f = Some (Inl f')" "table_ok f"
  then obtain u where "code (Unity f) = Some (Inl u)" "f' = f\<lparr>Unity := u\<rparr>"
    by (auto simp: on_Unity_def)
  then show "fixture_keeps {} f f'"
    using test_code.leaves[OF total_test_code.axioms(1)[OF assms]] \<open>table_ok f\<close> by (auto simp: fixture_keeps_def)
next
  fix f f'
  assume "on_Unity code f = Some (Inr f')" "table_ok f"
  then obtain u where "code (Unity f) = Some (Inr u)" "f' = f\<lparr>Unity := u\<rparr>"
    by (auto simp: on_Unity_def)
  then show "fixture_keeps {} f f'"
    using test_code.returns[OF total_test_code.axioms(1)[OF assms]] \<open>table_ok f\<close> by (auto simp: fixture_keeps_def)
qed

interpretation pointers: fixture_code "UnityPointer_Set p v line" "\<lambda>_. {}" for p v line
proof
  fix f
  show "\<exists>r. UnityPointer_Set p v line f = Some r" by (simp add: UnityPointer_Set_def)
next
  fix f f'
  assume "UnityPointer_Set p v line f = Some (Inl f')" "table_ok f"
  then show "fixture_keeps {} f f'"
    by (auto simp: UnityPointer_Set_def fail_always assertion_def fixture_keeps_def keeps_def keeps_marks_def split: if_splits)
next
  fix f f'
  assume set: "UnityPointer_Set p v line f = Some (Inr f')" "table_ok f"
  show "fixture_keeps {} f f'"
  proof (cases "pointer_index f \<ge> UNITY_MAX_POINTERS")
    case True
    then show ?thesis using set by (auto simp: UnityPointer_Set_def fail_always assertion_def fixture_keeps_def split: if_splits)
  next
    case False
    then have "f' = f\<lparr>pointer_store := (pointer_store f)[pointer_index f := \<lparr>pointer = p, old_value = cells f p\<rparr>],
      cells := (cells f)(p := v), pointer_index := pointer_index f + 1\<rparr>"
      using set by (simp add: UnityPointer_Set_def)
    then show ?thesis
      using restored_set[OF set(2)] False set(2) by (simp add: fixture_keeps_def table_ok_def)
  qed
qed

interpretation assignments: fixture_code "act (Assign p v)" "stray_of (Assign p v)" for p v
proof
  fix f f'
  assume f: "act (Assign p v) f = Some (Inr f')" "table_ok f"
  have "restored (f\<lparr>cells := (cells f)(p := v)\<rparr>) q = restored f q" if "is_set f p \<or> q \<noteq> p" for q
    using that restored_assignment[of f p v] restored_elsewhere[of q p f v] unfolding is_set_def by metis
  then show "fixture_keeps (stray_of (Assign p v) f) f f'"
    using f by (auto simp: fixture_keeps_def table_ok_def)
qed simp_all

lemma action_code: "action_ok a \<Longrightarrow> fixture_code (act a) (stray_of a)"
proof (cases a)
  case (Set_pointer p v line)
  have "act a = UnityPointer_Set p v line" "stray_of a = (\<lambda>_. {})"
    by (simp_all add: Set_pointer fun_eq_iff)
  then show ?thesis using pointers.fixture_code_axioms by simp
next
  case (Assign p v)
  then show ?thesis using assignments.fixture_code_axioms by simp
next
  case (Call code)
  moreover assume "action_ok a"
  moreover have "act (Call code) = on_Unity code" "stray_of (Call code) = (\<lambda>_. {})"
    by (simp_all add: fun_eq_iff)
  ultimately show ?thesis using on_Unity_code by simp
qed

lemma program_code: "program_ok P \<Longrightarrow> fixture_code (run_program P) (strays P)"
proof (induction P)
  case Stop
  then show ?case by unfold_locales (auto simp: fixture_keeps_refl)
next
  case (Do a k)
  have a: "fixture_code (act a) (stray_of a)" using Do.prems action_code by simp
  have k: "fixture_code (run_program (k g)) (strays (k g))" for g using Do by simp
  have "fixture_keeps (strays (Do a k) f) f (case r of Inl g \<Rightarrow> g | Inr g \<Rightarrow> g)"
    if r: "run_program (Do a k) f = Some r" and ok: "table_ok f" for f r
  proof (cases "act a f")
    case None
    then show ?thesis using r by simp
  next
    case (Some q)
    show ?thesis
    proof (cases q)
      case (Inl g)
      then show ?thesis
        using r Some fixture_code.leaves[OF a _ ok, of g] by (auto intro: fixture_keeps_mono)
    next
      case (Inr g)
      have g: "fixture_keeps (stray_of a f) f g"
        using Some Inr fixture_code.returns[OF a _ ok, of g] by simp
      have "run_program (k g) g = Some r" using r Some Inr by simp
      then have "fixture_keeps (strays (k g) g) g (case r of Inl h \<Rightarrow> h | Inr h \<Rightarrow> h)"
        using fixture_code.leaves[OF k _ fixture_keeps_ok[OF g]] fixture_code.returns[OF k _ fixture_keeps_ok[OF g]]
        by (cases r) auto
      then show ?thesis using fixture_keeps_trans[OF g] Some Inr by simp
    qed
  qed
  moreover have "\<exists>r. run_program (Do a k) f = Some r" for f
    using fixture_code.total[OF a, of f] fixture_code.total[OF k] by (auto split: sum.splits)
  ultimately show ?case
    by (intro fixture_code.intro) fastforce+
qed

interpretation equal_numbers: fixture_code
  "on_Unity (\<lambda>u. Some (UnityAssertEqualNumber expected actual msg line style u))" "\<lambda>_. {}"
  for expected actual msg line style
  unfolding assert_equal_number by (intro on_Unity_code total_assertion_code)

interpretation set_ups: fixture_code setUp "\<lambda>_. {}"
  by unfold_locales (auto simp: setUp_def fixture_keeps_refl)

interpretation tear_downs: fixture_code tearDown "\<lambda>_. {}"
  by unfold_locales (auto simp: tearDown_def fixture_keeps_refl)

interpretation set_and_compare: fixture_pair "UnityPointer_Set p v line"
  "on_Unity (\<lambda>u. Some (UnityAssertEqualNumber expected actual msg line' style u))" "\<lambda>_. {}" "\<lambda>_. {}"
  for p v line expected actual msg line' style
  by unfold_locales

subsection \<open>One test of a group\<close>

text \<open>The state in which the code of a test starts.\<close>

definition started :: "cstring \<Rightarrow> cstring \<Rightarrow> u32 \<Rightarrow> fixture \<Rightarrow> fixture" where
  "started printableName testFile line f =
     (let f = f\<lparr>Unity := (Unity f)\<lparr>TestFile := testFile, CurrentTestName := printableName,
                CurrentTestLineNumber := ucast line\<rparr>\<rparr>;
          f = (if Verbose (UnityFixture f) \<noteq> 0 then
                 (let f = out (UnityPrint printableName) f in f\<lparr>Unity := (Unity f)\<lparr>CurrentTestName := None\<rparr>\<rparr>)
               else if Silent (UnityFixture f) \<noteq> 0 then f
               else out (str ''.'') f)
      in UnityPointer_Init (f\<lparr>Unity := (Unity f)\<lparr>NumberOfTests := NumberOfTests (Unity f) + 1\<rparr>\<rparr>))"

lemma started_state:
  "NumberOfTests (Unity (started printableName testFile line f)) = NumberOfTests (Unity f) + 1"
  "TestFailures (Unity (started printableName testFile line f)) = TestFailures (Unity f)"
  "TestIgnores (Unity (started printableName testFile line f)) = TestIgnores (Unity f)"
  "bailed (Unity (started printableName testFile line f)) = bailed (Unity f)"
  "UnityFixture (started printableName testFile line f) = UnityFixture f"
  "table_ok (started printableName testFile line f) \<longleftrightarrow> length (pointer_store f) = UNITY_MAX_POINTERS"
  "restored (started printableName testFile line f) = cells f"
  by (simp_all add: started_def out_def UnityPointer_Init_def table_ok_def restored_def bailed_def Let_def)

lemma conclude_fixture:
  "NumberOfTests (Unity (UnityConcludeFixtureTest f)) = NumberOfTests (Unity f)"
  "TestFailures (Unity (UnityConcludeFixtureTest f)) = TestFailures (Unity f) + (if verdict_of (Unity f) = Failed then 1 else 0)"
  "TestIgnores (Unity (UnityConcludeFixtureTest f)) = TestIgnores (Unity f) + (if verdict_of (Unity f) = Ignored then 1 else 0)"
  "\<not> bailed (Unity (UnityConcludeFixtureTest f))"
  "UnityFixture (UnityConcludeFixtureTest f) = UnityFixture f"
  "cells (UnityConcludeFixtureTest f) = cells f"
  "pointer_store (UnityConcludeFixtureTest f) = pointer_store f"
  by (simp_all add: UnityConcludeFixtureTest_def verdict_of_def bailed_def Let_def)

text \<open>The stray cells of the three functions of a test.\<close>

definition test_strays ::
  "fixture_function \<Rightarrow> (fixture \<Rightarrow> u64 set) \<Rightarrow> fixture_function \<Rightarrow> (fixture \<Rightarrow> u64 set) \<Rightarrow> (fixture \<Rightarrow> u64 set)
   \<Rightarrow> fixture \<Rightarrow> u64 set" where
  "test_strays fixtureSetup S testBody T R f =
     stray_sequence fixtureSetup S T f
     \<union> (case TEST_PROTECT (sequence fixtureSetup testBody) f of None \<Rightarrow> {} | Some g \<Rightarrow> R g)"

locale fixture_test = body: fixture_pair fixtureSetup testBody S T + teardown: fixture_code teardown R
  for fixtureSetup testBody S T teardown R
begin

lemma run_test:
  assumes "testSelected name f" "groupSelected grp f" "length (pointer_store f) = UNITY_MAX_POINTERS"
  shows "\<exists>h f'. left_by fixtureSetup testBody teardown (started printableName testFile line f) = Some h
    \<and> UnityTestRunner fixtureSetup testBody teardown printableName grp name testFile line f = Some f'
    \<and> (\<forall>p. p \<notin> test_strays fixtureSetup S testBody T R (started printableName testFile line f) \<longrightarrow>
         cells f' p = cells f p)
    \<and> UnityFixture f' = UnityFixture f \<and> length (pointer_store f') = UNITY_MAX_POINTERS
    \<and> \<not> bailed (Unity f')
    \<and> NumberOfTests (Unity f') = NumberOfTests (Unity f) + 1
    \<and> TestFailures (Unity f') = TestFailures (Unity f) + (if verdict_of (Unity h) = Failed then 1 else 0)
    \<and> TestIgnores (Unity f') = TestIgnores (Unity f) + (if verdict_of (Unity h) = Ignored then 1 else 0)"
proof -
  let ?f = "started printableName testFile line f"
  have ok: "table_ok ?f" using assms(3) by (simp add: started_state)
  obtain g where g: "TEST_PROTECT (sequence fixtureSetup testBody) ?f = Some g"
      "fixture_keeps (stray_sequence fixtureSetup S T ?f) ?f g"
    using body.seq.protected[OF ok] by blast
  obtain h where h: "TEST_PROTECT teardown g = Some h" "fixture_keeps (R g) g h"
    using teardown.protected[OF fixture_keeps_ok[OF g(2)]] by blast
  let ?f' = "UnityConcludeFixtureTest (UnityPointer_UndoAllSets h)"
  have run: "UnityTestRunner fixtureSetup testBody teardown printableName grp name testFile line f = Some ?f'"
    using assms(1,2) g(1) h(1) by (simp add: UnityTestRunner_def started_def TEST_PROTECT_def Let_def)
  have left: "left_by fixtureSetup testBody teardown ?f = Some h"
    using g(1) h(1) by (simp add: left_by_protect)
  have keeps: "fixture_keeps (test_strays fixtureSetup S testBody T R ?f) ?f h"
    using fixture_keeps_trans[OF g(2) h(2)] g(1) by (simp add: test_strays_def)
  have "cells ?f' p = cells f p" if "p \<notin> test_strays fixtureSetup S testBody T R ?f" for p
    using keeps that by (simp add: conclude_fixture UnityPointer_UndoAllSets_def fixture_keeps_def started_state
        flip: restored_def)
  moreover have "length (pointer_store ?f') = UNITY_MAX_POINTERS" "UnityFixture ?f' = UnityFixture f"
    using keeps by (simp_all add: conclude_fixture UnityPointer_UndoAllSets_def fixture_keeps_def started_state table_ok_def)
  moreover have "NumberOfTests (Unity h) = NumberOfTests (Unity f) + 1" "TestFailures (Unity h) = TestFailures (Unity f)"
      "TestIgnores (Unity h) = TestIgnores (Unity f)"
    using keeps by (simp_all add: fixture_keeps_def keeps_def started_state)
  ultimately show ?thesis
    using run left by (intro exI[of _ h] exI[of _ ?f'])
      (simp add: conclude_fixture UnityPointer_UndoAllSets_def)
qed

end

text \<open>The same for programs.\<close>

definition program_strays :: "test_program \<Rightarrow> test_program \<Rightarrow> test_program \<Rightarrow> fixture \<Rightarrow> u64 set" where
  "program_strays fixtureSetup testBody teardown =
     test_strays (run_program fixtureSetup) (strays fixtureSetup) (run_program testBody) (strays testBody) (strays teardown)"

lemma program_test:
  assumes "program_ok fixtureSetup" "program_ok testBody" "program_ok teardown"
  shows "fixture_test (run_program fixtureSetup) (run_program testBody) (strays fixtureSetup) (strays testBody)
    (run_program teardown) (strays teardown)"
  using assms by (simp add: fixture_test_def fixture_pair_def program_code)

subsection \<open>The command line and the runs\<close>

lemma repeat_digits_value:
  "\<forall>b \<in> set bs. decimal b \<Longrightarrow> repeat_digits bs (of_nat acc) = of_nat (value_of acc bs)"
proof (induction bs arbitrary: acc)
  case (Cons b bs)
  then have b: "48 \<le> b" "b \<le> 57" by (auto simp: decimal_def)
  then have "unat (b - 48) = unat b - 48" "48 \<le> unat b" by (simp_all add: unat_sub word_le_nat_alt)
  then have "(of_nat (unat (b - 48)) :: u32) = of_nat (unat b) - 48" by (simp only: of_nat_diff of_nat_numeral)
  then have "ucast b - 48 = (of_nat (unat (b - 48)) :: u32)" by (simp only: of_nat_unat)
  then have step: "of_nat acc * 10 + (ucast b - 48) = (of_nat (10 * acc + unat (b - 48)) :: u32)"
    by (simp add: algebra_simps)
  have rest: "\<forall>b \<in> set bs. decimal b" using Cons.prems by simp
  have "digit_char b" using b by (simp add: digit_char_def)
  then show ?case
    using Cons.IH[OF rest, of "10 * acc + unat (b - 48)"]
    by (simp only: repeat_digits.simps value_of.simps if_True step)
qed simp

lemma repeat_digits_printed: "repeat_digits (UnityPrintNumberUnsigned (ucast count)) 0 = count"
proof -
  have "repeat_digits (UnityPrintNumberUnsigned (ucast count)) (of_nat 0) = of_nat (unat (ucast count :: u64))"
    using repeat_digits_value[OF print_unsigned(1)[of "ucast count"], of 0] print_unsigned(2)[of "ucast count"] by simp
  also have "unat (ucast count :: u64) = unat count" by (simp add: unat_ucast_32_64)
  finally show ?thesis by simp
qed

text \<open>The state after a number of runs.\<close>

fun runs :: "cstring \<Rightarrow> (fixture \<Rightarrow> fixture option) \<Rightarrow> nat \<Rightarrow> fixture \<Rightarrow> fixture option" where
  "runs program runAllTests 0 f = Some f"
| "runs program runAllTests (Suc k) f = do {
     f \<leftarrow> runs program runAllTests k f;
     one_run program (of_nat k) runAllTests f
   }"

lemma one_run_state:
  assumes "one_run program r runAllTests f = Some f'"
  obtains g h where "runAllTests g = Some h" "TestFailures (Unity g) = 0" "NumberOfTests (Unity g) = 0"
    "cells g = cells f" "UnityFixture g = UnityFixture f" "pointer_store g = pointer_store f"
    "TestFailures (Unity f') = TestFailures (Unity h)" "UnityFixture f' = UnityFixture h" "cells f' = cells h"
proof -
  let ?g = "announceTestRun r (f\<lparr>Unity := UnityBegin program (Unity f)\<rparr>)"
  obtain h where h: "runAllTests ?g = Some h"
      "f' = (let f = (if Verbose (UnityFixture h) = 0 then out EOL h else h) in f\<lparr>Unity := snd (UnityEnd (Unity f))\<rparr>)"
    using assms by (auto simp: one_run_def Let_def split: bind_splits)
  show thesis
    by (rule that[OF h(1)])
      (simp_all add: h(2) announceTestRun_def out_def UnityBegin_def UNITY_CLR_DETAILS_def UnityEnd_def Let_def)
qed

lemma run_loop_runs:
  assumes total: "\<And>g. \<exists>g'. runAllTests g = Some g' \<and> UnityFixture g' = UnityFixture g"
    and "runs program runAllTests (unat r) f = Some g" "UnityFixture g = UnityFixture f"
    and "r \<le> RepeatCount (UnityFixture f)"
  shows "\<exists>g'. runs program runAllTests (unat (RepeatCount (UnityFixture f))) f = Some g'
    \<and> run_loop program r runAllTests g = Some g' \<and> UnityFixture g' = UnityFixture f"
  using assms(2-4)
proof (induction "unat (RepeatCount (UnityFixture f) - r)" arbitrary: r g)
  case 0
  then have "r = RepeatCount (UnityFixture f)" by (simp add: word_unat_eq_iff[of _ 0, symmetric] unat_eq_zero)
  then show ?case using 0 by (simp add: run_loop.simps)
next
  case (Suc n)
  have lt: "r < RepeatCount (UnityFixture f)"
    using Suc.hyps(2) Suc.prems(3) by (cases "r = RepeatCount (UnityFixture f)") auto
  obtain g1 where g1: "one_run program r runAllTests g = Some g1" "UnityFixture g1 = UnityFixture g"
  proof -
    let ?g = "announceTestRun r (g\<lparr>Unity := UnityBegin program (Unity g)\<rparr>)"
    obtain h where "runAllTests ?g = Some h" "UnityFixture h = UnityFixture ?g" using total by blast
    then show thesis using that by (simp add: one_run_def announceTestRun_def out_def Let_def)
  qed
  have step: "unat (r + 1) = Suc (unat r)" using run_number_increases[OF lt] by simp
  have "runs program runAllTests (unat (r + 1)) f = Some g1"
    using Suc.prems(1) g1(1) by (simp add: step)
  moreover have "r + 1 \<le> RepeatCount (UnityFixture f)" using lt step by (simp add: word_le_nat_alt word_less_nat_alt)
  moreover have "n = unat (RepeatCount (UnityFixture f) - (r + 1))"
    using Suc.hyps(2) \<open>r + 1 \<le> _\<close> Suc.prems(3) step by (simp add: unat_sub)
  ultimately have "\<exists>g'. runs program runAllTests (unat (RepeatCount (UnityFixture f))) f = Some g'
      \<and> run_loop program (r + 1) runAllTests g1 = Some g' \<and> UnityFixture g' = UnityFixture f"
    using Suc.hyps(1) g1(2) Suc.prems(2) by simp
  then show ?case using lt g1(1) Suc.prems(2) by (simp add: run_loop.simps[of program r])
qed

subsection \<open>Properties\<close>

text \<open>Property C20: the fixture runner restores every pointer: whatever a test, its set-up and its
  tear-down set through \<open>UnityPointer_Set\<close>, in any order, repeatedly, or beyond the limit of five,
  whatever they assign to the pointers they have set, and however they end, all memory cells are as
  before, but for those to which they assign directly without having set them. The test is counted
  once, with the verdict of the marks that the three leave: ignored, else failed, else passed. A
  test that is not selected changes nothing.\<close>

theorem fixture_restores_pointers:
  assumes "program_ok fixtureSetup" "program_ok testBody" "program_ok teardown"
    and "length (pointer_store f) = UNITY_MAX_POINTERS"
  shows "\<exists>f'. UnityTestRunner (run_program fixtureSetup) (run_program testBody) (run_program teardown)
      printableName grp name testFile line f = Some f'
    \<and> (if testSelected name f \<and> groupSelected grp f
       then (\<forall>p. p \<notin> program_strays fixtureSetup testBody teardown (started printableName testFile line f) \<longrightarrow>
             cells f' p = cells f p)
         \<and> \<not> bailed (Unity f') \<and> NumberOfTests (Unity f') = NumberOfTests (Unity f) + 1
         \<and> (\<exists>h. left_by (run_program fixtureSetup) (run_program testBody) (run_program teardown)
               (started printableName testFile line f) = Some h
             \<and> TestFailures (Unity f') = TestFailures (Unity f) + (if verdict_of (Unity h) = Failed then 1 else 0)
             \<and> TestIgnores (Unity f') = TestIgnores (Unity f) + (if verdict_of (Unity h) = Ignored then 1 else 0))
       else f' = f)"
proof (cases "testSelected name f \<and> groupSelected grp f")
  case True
  then show ?thesis
    using fixture_test.run_test[OF program_test[OF assms(1-3)] conjunct1[OF True] conjunct2[OF True] assms(4),
        of printableName testFile line]
    unfolding program_strays_def by auto
next
  case False
  then have "UnityTestRunner (run_program fixtureSetup) (run_program testBody) (run_program teardown)
      printableName grp name testFile line f = Some f"
    by (simp only: UnityTestRunner_def if_False)
  then show ?thesis using False by simp
qed

definition sample_fixture :: fixture where
  "sample_fixture = \<lparr>Unity = sample_unity,
     UnityFixture = \<lparr>Verbose = 0, Silent = 0, RepeatCount = 1, NameFilter = None, GroupFilter = None\<rparr>,
     cells = (\<lambda>_. 7), pointer_store = replicate 5 \<lparr>pointer = 0, old_value = 0\<rparr>, pointer_index = 0\<rparr>"

text \<open>A test that sets a pointer, assigns to it, and then fails or stops as passed, as it finds it.\<close>

definition comparing_numbers :: "u64 \<Rightarrow> u64 \<Rightarrow> test_program" where
  "comparing_numbers a b = Do (Call (\<lambda>u. Some (UnityAssertEqualNumber a b None 7 UNITY_DISPLAY_STYLE_INT u))) (\<lambda>_. Stop)"

definition sample_setup :: test_program where
  "sample_setup = Do (Set_pointer 1 2 3) (\<lambda>_. Stop)"

definition sample_body :: test_program where
  "sample_body = Do (Assign 1 9)
     (\<lambda>f. if cells f 1 = 9 then comparing_numbers 1 2 else Do (Call (\<lambda>u. Some (TEST_PASS u))) (\<lambda>_. Stop))"

lemma comparing_numbers_ok: "program_ok (comparing_numbers a b)"
  unfolding comparing_numbers_def assert_equal_number by (simp add: total_assertion_code)

lemma sample_programs_ok: "program_ok sample_setup" "program_ok sample_body"
proof -
  have "total_test_code (\<lambda>u. Some (TEST_PASS u))"
    by unfold_locales (auto simp: TEST_PASS_def)
  then show "program_ok sample_setup" "program_ok sample_body"
    by (simp_all add: sample_setup_def sample_body_def comparing_numbers_ok)
qed

lemma sample_strays:
  assumes "pointer_index f = 0" "length (pointer_store f) = UNITY_MAX_POINTERS"
  shows "program_strays sample_setup sample_body Stop f = {}"
proof -
  have store: "pointer_store f \<noteq> []" using assms(2) by auto
  have "strays sample_body g = {}" if "is_set g 1" for g
    using that by (simp add: sample_body_def comparing_numbers_def split: option.splits sum.splits)
  moreover have "run_program sample_setup f = Some (Inr g) \<Longrightarrow> is_set g 1" for g
    using assms store by (auto simp: sample_setup_def UnityPointer_Set_def is_set_def)
  ultimately show ?thesis
    by (auto simp: program_strays_def test_strays_def stray_sequence_def sample_setup_def split: option.splits sum.splits)
qed

interpretation sample_test: fixture_test "run_program sample_setup" "run_program sample_body" "strays sample_setup"
  "strays sample_body" "run_program Stop" "strays Stop"
  by (rule program_test) (simp_all add: sample_programs_ok)

theorem fixture_restores_pointers_witness:
  "\<exists>f'. UnityTestRunner (run_program sample_setup) (run_program sample_body) (run_program Stop)
      None [] [] None 5 sample_fixture = Some f' \<and> cells f' = cells sample_fixture
    \<and> NumberOfTests (Unity f') = NumberOfTests sample_unity + 1"
proof -
  let ?f = "started None None 5 sample_fixture"
  have "program_strays sample_setup sample_body Stop ?f = {}"
    by (rule sample_strays) (simp_all add: started_def out_def UnityPointer_Init_def sample_fixture_def Let_def)
  then show ?thesis
    using fixture_restores_pointers[OF sample_programs_ok, of Stop sample_fixture None "[]" "[]" None 5]
    by (auto simp: sample_fixture_def testSelected_def groupSelected_def selected_def fun_eq_iff)
qed

text \<open>\<open>UnityMain\<close> makes exactly the runs asked for, but its result counts only the failures
  of the last one: every run begins with its counters at zero, so the failures of the earlier runs
  are lost from the result (and of those of the last run, the low 32 bits are returned).\<close>

theorem main_returns_last_repetition:
  assumes "UnityGetCommandLineOptions argv f = (0, f0)" "RepeatCount (UnityFixture f0) \<noteq> 0"
    and "\<And>g. \<exists>g'. runAllTests g = Some g' \<and> UnityFixture g' = UnityFixture g"
  shows "\<exists>before g h final.
    runs (if argv = [] then None else Some (hd argv)) runAllTests (unat (RepeatCount (UnityFixture f0)) - 1) f0 = Some before
    \<and> cells g = cells before \<and> TestFailures (Unity g) = 0 \<and> NumberOfTests (Unity g) = 0
    \<and> runAllTests g = Some h
    \<and> UnityMain argv runAllTests f = Some (ucast (TestFailures (Unity h)), final)"
proof -
  let ?p = "if argv = [] then None else Some (hd argv)" and ?n = "unat (RepeatCount (UnityFixture f0))"
  obtain final where final: "runs ?p runAllTests ?n f0 = Some final" "run_loop ?p 0 runAllTests f0 = Some final"
    using run_loop_runs[OF assms(3), of ?p 0 f0 f0] by auto
  have "0 < ?n" using assms(2) by (simp add: unat_gt_0)
  then obtain k where k: "?n = Suc k" using gr0_implies_Suc by blast
  then obtain before where before: "runs ?p runAllTests k f0 = Some before" "one_run ?p (of_nat k) runAllTests before = Some final"
    using final(1) by (auto split: bind_splits)
  have "(case argv of [] \<Rightarrow> None | a # _ \<Rightarrow> Some a) = ?p" by (cases argv) auto
  then have "UnityMain argv runAllTests f = Some (ucast (TestFailures (Unity final)), final)"
    using assms(1) final(2) by (simp add: UnityMain_def)
  moreover obtain g h where "runAllTests g = Some h" "TestFailures (Unity g) = 0" "NumberOfTests (Unity g) = 0"
    "cells g = cells before" "TestFailures (Unity final) = TestFailures (Unity h)"
    using one_run_state[OF before(2)] by metis
  ultimately show ?thesis using before(1) k by auto
qed

text \<open>Tests with one failure in the first run only: the program reports success.\<close>

definition flaky :: "fixture \<Rightarrow> fixture option" where
  "flaky f = Some (if cells f 0 = 7
     then f\<lparr>Unity := (Unity f)\<lparr>TestFailures := TestFailures (Unity f) + 1\<rparr>, cells := (cells f)(0 := 8)\<rparr> else f)"

theorem main_returns_last_repetition_witness:
  "\<exists>final. UnityMain [str ''t'', str ''-r'', str ''2''] flaky sample_fixture = Some (0, final)"
proof -
  let ?argv = "[str ''t'', str ''-r'', str ''2'']"
  let ?f0 = "sample_fixture\<lparr>UnityFixture := (UnityFixture sample_fixture)\<lparr>RepeatCount := 2\<rparr>\<rparr>"
  have options: "UnityGetCommandLineOptions ?argv sample_fixture = (0, ?f0)"
    by (simp add: UnityGetCommandLineOptions_def sample_fixture_def str_def digit_char_def)
  have two: "RepeatCount (UnityFixture ?f0) \<noteq> 0" "unat (RepeatCount (UnityFixture ?f0)) - 1 = Suc 0" by simp_all
  have total: "\<exists>g'. flaky g = Some g' \<and> UnityFixture g' = UnityFixture g" for g by (simp add: flaky_def)
  obtain before g h final where run: "runs (Some (str ''t'')) flaky (Suc 0) ?f0 = Some before"
      "cells g = cells before" "TestFailures (Unity g) = 0" "flaky g = Some h"
      "UnityMain ?argv flaky sample_fixture = Some (ucast (TestFailures (Unity h)), final)"
    using main_returns_last_repetition[OF options two(1) total, unfolded two(2)] by auto
  from run(1) have "one_run (Some (str ''t'')) 0 flaky ?f0 = Some before" by (simp split: bind_splits)
  then have "cells before 0 = 8"
    by (auto simp: one_run_def announceTestRun_def out_def flaky_def sample_fixture_def Let_def split: if_splits)
  then have "TestFailures (Unity h) = 0" using run(2-4) by (simp add: flaky_def)
  then show ?thesis using run(5) by auto
qed

text \<open>The repeat count on the command line is read exactly, for every 32-bit number, as the
  printer of the numbers in the announcements writes it, and filters are taken as given, whatever
  they contain; options not given get their defaults.\<close>

theorem command_line_round_trip:
  "UnityGetCommandLineOptions [program, str ''-r'', UnityPrintNumberUnsigned (ucast count), str ''-g'', g, str ''-n'', n] f
   = (0, f\<lparr>UnityFixture := \<lparr>Verbose = 0, Silent = 0, RepeatCount = count, NameFilter = Some n, GroupFilter = Some g\<rparr>\<rparr>)"
proof -
  let ?digits = "UnityPrintNumberUnsigned (ucast count)"
  have "?digits \<noteq> []" "digit_char (hd ?digits)"
    using print_unsigned(1,3)[of "ucast count"] by (auto simp: digit_char_def decimal_def)
  then show ?thesis
    by (simp add: UnityGetCommandLineOptions_def str_def repeat_digits_printed)
qed

end
