(* ===== verification/Unity_Float_Assertions.thy ===== *)
theory Unity_Float_Assertions
  imports Unity_Float_Printing
begin

section \<open>Unity: the assertions on floating-point numbers\<close>

text \<open>
  What the assertions on \<open>float\<close> and \<open>double\<close> decide: distance, equality up to the precision, kinds of numbers, and
  arrays. None is left without a result by its report, since every number can be printed.
\<close>

subsection \<open>Comparing numbers\<close>

lemma float_in_double: "is_float C_float v \<Longrightarrow> is_float (D B) v"
proof (cases B)
  case With_double
  show ?thesis if v: "is_float C_float v"
  proof (cases v)
    case (Num x)
    have x: "representable C_float x" "\<bar>x\<bar> < two 128" using v Num by (simp_all add: max_exp_eq)
    obtain m e where m: "x = of_int m * two e" "\<bar>m\<bar> < 2 ^ 24" "- 149 \<le> e"
      using x(1) by (auto simp: representable_def)
    then have "representable C_double x" by (intro representableI[of _ m e]) simp_all
    moreover have "\<bar>x\<bar> < two (max_exp C_double + 1)"
      using x(2) by (rule less_le_trans) (subst two_le, simp add: max_exp_eq)
    ultimately show ?thesis using Num With_double by simp
  qed simp_all
qed simp

definition number_within :: "ftype \<Rightarrow> fp \<Rightarrow> rat \<Rightarrow> rat \<Rightarrow> bool" where
  "number_within F delta x y \<longleftrightarrow>
     (\<exists>d. fl F (y - x) = Num d \<and>
        (case delta of NaN \<Rightarrow> True | Inf s \<Rightarrow> True | Num t \<Rightarrow> \<bar>d\<bar> \<le> \<bar>t\<bar>))"

lemma within_cases:
  "UNITY_FLOAT_OR_DOUBLE_WITHIN F delta expected actual =
     (case (expected, actual) of
        (NaN, NaN) \<Rightarrow> True
      | (Inf s, Inf t) \<Rightarrow> s = t
      | (Num x, Num y) \<Rightarrow> number_within F delta x y
      | _ \<Rightarrow> False)"
proof -
  have "UNITY_FLOAT_OR_DOUBLE_WITHIN F delta (Num x) (Num y) = number_within F delta x y" for x y
  proof (cases "fl F (y - x)")
    case (Num d)
    then show ?thesis
      by (cases delta) (auto simp: UNITY_FLOAT_OR_DOUBLE_WITHIN_def number_within_def fsub_def Let_def abs_if not_less)
  qed (simp_all add: UNITY_FLOAT_OR_DOUBLE_WITHIN_def number_within_def fsub_def Let_def)
  then show ?thesis
    by (cases expected; cases actual) (auto simp: UNITY_FLOAT_OR_DOUBLE_WITHIN_def fsub_def Let_def)
qed

lemma number_within_complete:
  assumes "is_float F (Num t)" "\<bar>y - x\<bar> \<le> \<bar>t\<bar>"
  shows "number_within F (Num t) x y"
proof -
  have "\<bar>round_to F (y - x)\<bar> \<le> \<bar>t\<bar>"
    using round_to_le[OF assms(2)] assms(1) by (cases "0 \<le> t") (simp_all add: round_to_abs representable_minus)
  moreover have "\<bar>t\<bar> < two (max_exp F + 1)" using assms(1) by simp
  ultimately show ?thesis by (simp add: number_within_def fl_def)
qed

lemma number_within_sound:
  assumes "is_float F (Num x)" "is_float F (Num y)" "number_within F (Num t) x y"
  shows "\<bar>y - x\<bar> * (1 - 1 / 2 ^ precision F) \<le> \<bar>t\<bar>"
proof -
  have "round_to F \<bar>y - x\<bar> \<le> \<bar>t\<bar>"
    using assms(3) by (auto simp: number_within_def fl_def round_to_abs split: if_splits)
  moreover have "\<bar>y - x\<bar> \<le> round_to F \<bar>y - x\<bar> + \<bar>y - x\<bar> / 2 ^ precision F"
    using assms(1,2) by (intro difference_error) simp_all
  ultimately show ?thesis by (simp add: right_diff_distrib)
qed

lemma number_within_sym: "number_within F delta x y = number_within F delta y x"
proof -
  have "fl F (- z) = fneg (fl F z)" for z
    by (cases "z = 0") (auto simp: fl_def round_to_minus round_to_representable)
  from this[of "y - x"] have "fl F (x - y) = fneg (fl F (y - x))" by simp
  then show ?thesis by (cases "fl F (y - x)"; cases delta) (auto simp: number_within_def)
qed

subsection \<open>The assertions as abstract assertions\<close>

definition expected_was :: "build \<Rightarrow> fp \<Rightarrow> fp \<Rightarrow> byte list" where
  "expected_was B expected actual = the (UNITY_PRINT_EXPECTED_AND_ACTUAL_FLOAT B expected actual)"

lemma expected_was_defined:
  assumes "is_float (D B) expected" "is_float (D B) actual"
  shows "UNITY_PRINT_EXPECTED_AND_ACTUAL_FLOAT B expected actual = Some (expected_was B expected actual)"
  using UnityPrintFloat_defined[OF assms(1)] UnityPrintFloat_defined[OF assms(2)]
  by (auto simp: expected_was_def UNITY_PRINT_EXPECTED_AND_ACTUAL_FLOAT_def)

lemma assert_close_assertion:
  assumes "is_float (D B) expected" "is_float (D B) actual"
  shows "assert_close B close expected actual msg line u =
    Some (assertion close (fail_report msg line (expected_was B expected actual)) u)"
  using expected_was_defined[OF assms]
  by (simp add: assert_close_def RETURN_IF_FAIL_OR_IGNORE_def fail_text fail_and_bail assertion_def)

fun has_trait :: "UNITY_FLOAT_TRAIT_T \<Rightarrow> fp \<Rightarrow> bool" where
  "has_trait UNITY_FLOAT_IS_INF v = (v = Inf False)"
| "has_trait UNITY_FLOAT_IS_NOT_INF v = (v \<noteq> Inf False)"
| "has_trait UNITY_FLOAT_IS_NEG_INF v = (v = Inf True)"
| "has_trait UNITY_FLOAT_IS_NOT_NEG_INF v = (v \<noteq> Inf True)"
| "has_trait UNITY_FLOAT_IS_NAN v = (v = NaN)"
| "has_trait UNITY_FLOAT_IS_NOT_NAN v = (v \<noteq> NaN)"
| "has_trait UNITY_FLOAT_IS_DET v = (\<exists>x. v = Num x)"
| "has_trait UNITY_FLOAT_IS_NOT_DET v = (\<forall>x. v \<noteq> Num x)"
| "has_trait UNITY_FLOAT_INVALID_TRAIT v = False"

lemma float_trait_has_trait: "(fst (float_trait v style) = odd (trait_code style)) = has_trait style v"
  by (cases style; cases v) (auto simp: float_trait_def Let_def)

lemma assert_trait_assertion:
  assumes "is_float (D B) v"
  shows "\<exists>report. assert_trait B v msg line style u = Some (assertion (has_trait style v) report u)"
proof -
  obtain out where "UnityPrintFloat B v = Some out" using UnityPrintFloat_defined[OF assms] by blast
  then have "assert_trait B v msg line style u =
      Some (assertion (fst (float_trait v style) = odd (trait_code style))
        (fail_report msg line (UnityPrint (Some UnityStrExpected)
          @ (if \<not> odd (trait_code style) then UnityPrint (Some UnityStrNot) else [])
          @ UnityPrint (Some (snd (float_trait v style))) @ UnityPrint (Some UnityStrWas) @ out)) u)"
    by (simp add: assert_trait_def RETURN_IF_FAIL_OR_IGNORE_def fail_text fail_and_bail assertion_def Let_def
        case_prod_unfold)
  then show ?thesis unfolding float_trait_has_trait by blast
qed

subsection \<open>Arrays\<close>

lemma decode_is_float [simp]: "is_float F (decode F rep)"
proof -
  let ?f = "rep mod 2 ^ (precision F - 1)" and ?e = "rep div 2 ^ (precision F - 1) mod (binades F + 3)"
  let ?low = "min_exp F - low_bits F"
  have number: "is_float F (Num (of_nat k * two (?low + int j)))" if "k < 2 ^ precision F" "j \<le> binades F" for k j
  proof -
    have "int k < 2 ^ precision F" using that(1) by (metis of_nat_less_iff of_nat_numeral of_nat_power)
    then have "representable F (of_nat k * two (?low + int j))"
      by (intro representableI[of _ "int k" "?low + int j"]) simp_all
    moreover have "of_nat k * two (?low + int j) < two (max_exp F + 1)"
    proof -
      have "(of_nat k :: rat) < 2 ^ precision F" using that(1) by (metis of_nat_less_iff of_nat_numeral of_nat_power)
      then have "of_nat k * two (?low + int j) < 2 ^ precision F * two (?low + int j)" by simp
      also have "\<dots> = two (min_exp F + int j + 1)"
        by (simp add: precision_pos(2) two_add two_diff)
      also have "\<dots> \<le> two (max_exp F + 1)" using that(2) by (simp add: max_exp_def)
      finally show ?thesis .
    qed
    ultimately show ?thesis by simp
  qed
  have f: "?f < 2 ^ (precision F - 1)" by simp
  have d: "?f < 2 ^ precision F" "2 ^ (precision F - 1) + ?f < 2 ^ precision F"
    using f precision_pos(2)[of F, where 'a = nat] by linarith+
  have e: "?e < binades F + 3" by simp
  have val: "is_float F (Num (if ?e = 0 then of_nat ?f * two ?low
      else of_nat (2 ^ (precision F - 1) + ?f) * two (?low + int (?e - 1))))" if "?e \<noteq> binades F + 2"
  proof -
    have "?e - 1 \<le> binades F" using e that by linarith
    then have "is_float F (Num (of_nat (2 ^ (precision F - 1) + ?f) * two (?low + int (?e - 1))))"
      by (rule number[OF d(2)])
    moreover have "is_float F (Num (of_nat ?f * two ?low))" using number[OF d(1), of 0] by (simp del: is_float.simps)
    ultimately show ?thesis by (simp only: simp_thms split: if_split)
  qed
  have "is_float F (if c then (if z then Inf n else NaN) else Num (if n then - v else v))"
    if "\<not> c \<Longrightarrow> is_float F (Num v)" for c z n v
    using that by (simp add: representable_minus)
  then show ?thesis unfolding decode_def Let_def using val by blast
qed

text \<open>The numbers of an array, or one number as often as needed.\<close>

fun reads_floats :: "memory \<Rightarrow> ftype \<Rightarrow> bool \<Rightarrow> ptr \<Rightarrow> fp list \<Rightarrow> bool" where
  "reads_floats m F moves p [] = True"
| "reads_floats m F moves p (v # vs) =
     (load_float m F p = Some v \<and> reads_floats m F moves (if moves then advance p (float_bytes F) else p) vs)"

lemma load_float_is_float: "load_float m F p = Some v \<Longrightarrow> is_float F v"
  by (auto simp: load_float_def split: bind_splits)

lemma float_loop_runs:
  assumes "length es = length as" "reads_floats m F (flags = UNITY_ARRAY_TO_ARRAY) expected es"
    "reads_floats m F True actual as"
    and "\<And>k e a. is_float F e \<Longrightarrow> is_float F a \<Longrightarrow> step k e a u = Some (if ok e a then Inr u else Inl (fail k e a))"
  shows "float_loop m F flags step (length es) expected actual u =
    Some (if list_all2 ok es as then Inr u
          else let k = first_bad ok es as in Inl (fail (length es - 1 - k) (es ! k) (as ! k)))"
  using assms(1-3)
proof (induction es as arbitrary: expected actual rule: list_induct2)
  case (Cons e es a as)
  then have "step (length es) e a u = Some (if ok e a then Inr u else Inl (fail (length es) e a))"
    by (intro assms(4) load_float_is_float[of m F]) auto
  then show ?case using Cons by (auto simp: Let_def)
qed simp

definition float_array_text :: "build \<Rightarrow> u32 \<Rightarrow> fp \<Rightarrow> fp \<Rightarrow> byte list" where
  "float_array_text B k e a =
     UnityPrint (Some UnityStrElement) @ UnityPrintNumberUnsigned (ucast k) @ expected_was B e a"

lemma float_element_result:
  assumes "is_float (D B) e" "is_float (D B) a"
  shows "float_element B close num msg line k e a u =
     Some (if close e a then Inr u
       else Inl (marked u (fail_report msg line (float_array_text B (num - of_nat k - 1) e a) u)))"
  using expected_was_defined[OF assms]
  by (simp add: float_element_def float_array_text_def fail_text fail_marks)

definition float_array_operands ::
  "memory \<Rightarrow> ftype \<Rightarrow> UNITY_FLAGS_T \<Rightarrow> ptr \<Rightarrow> ptr \<Rightarrow> u32 \<Rightarrow> fp list \<Rightarrow> fp list \<Rightarrow> bool" where
  "float_array_operands m F flags expected actual num es as \<longleftrightarrow>
     expected \<noteq> actual \<and> expected \<noteq> Null \<and> actual \<noteq> Null \<and> num \<noteq> 0
     \<and> length es = unat num \<and> length as = unat num
     \<and> reads_floats m F (flags = UNITY_ARRAY_TO_ARRAY) expected es \<and> reads_floats m F True actual as"

lemma float_array_result:
  assumes "\<not> bailed u" "float_array_operands m F flags expected actual num es as"
    and "\<And>v. is_float F v \<Longrightarrow> is_float (D B) v"
  shows "array_guards (num = 0) expected actual msg line
      (float_loop m F flags (float_element B close num msg line) (unat num) expected actual) u =
    Some (if list_all2 close es as then Inr u
          else let k = first_bad close es as in
            Inl (marked u (fail_report msg line (float_array_text B (of_nat k) (es ! k) (as ! k)) u)))"
proof -
  note a = assms(2)[unfolded float_array_operands_def]
  have "float_loop m F flags (float_element B close num msg line) (length es) expected actual u =
      Some (if list_all2 close es as then Inr u
            else let k = first_bad close es as in
              Inl (marked u (fail_report msg line
                (float_array_text B (num - of_nat (length es - 1 - k) - 1) (es ! k) (as ! k)) u)))"
    by (rule float_loop_runs[where fail = "\<lambda>k e a. marked u (fail_report msg line (float_array_text B (num - of_nat k - 1) e a) u)"])
       (use a in \<open>auto simp: float_element_result assms(3)\<close>)
  moreover have "num - of_nat (length es - 1 - k) - 1 = of_nat k"
    if "\<not> list_all2 close es as" "k = first_bad close es as" for k
    using index_of_left first_bad_less[of es as close] that a by auto
  ultimately show ?thesis
    using a assms(1) by (simp add: array_guards_run Let_def)
qed

lemma float_array_assertion:
  assumes "\<not> bailed u" "float_array_operands m C_float flags expected actual num es as"
  shows "UnityAssertEqualFloatArray B m expected actual num msg line flags u =
    Some (if list_all2 float_close es as then Inr u
          else let k = first_bad float_close es as in
            Inl (marked u (fail_report msg line (float_array_text B (of_nat k) (es ! k) (as ! k)) u)))"
  unfolding UnityAssertEqualFloatArray_def by (rule float_array_result[OF assms float_in_double])

lemma double_array_assertion:
  assumes "\<not> bailed u" "float_array_operands m C_double flags expected actual num es as"
  shows "UnityAssertEqualDoubleArray m expected actual num msg line flags u =
    Some (if list_all2 double_close es as then Inr u
          else let k = first_bad double_close es as in
            Inl (marked u (fail_report msg line (float_array_text With_double (of_nat k) (es ! k) (as ! k)) u)))"
  unfolding UnityAssertEqualDoubleArray_def by (rule float_array_result[OF assms]) simp

subsection \<open>Equality up to the precision\<close>

text \<open>The tolerance of the equality assertions is the rounded product of the expected number and a
  rounded constant.\<close>

fun equal_tolerance :: "ftype \<Rightarrow> rat" where
  "equal_tolerance C_float = 1 / 10 ^ 5"
| "equal_tolerance C_double = 1 / 10 ^ 12"

fun equal_up_to :: "ftype \<Rightarrow> fp \<Rightarrow> fp \<Rightarrow> bool" where
  "equal_up_to C_float = float_close"
| "equal_up_to C_double = double_close"

lemma close_within:
  "equal_up_to F (Num x) (Num y) = number_within F (fmul F (Num x) (fl F (equal_tolerance F))) x y"
  by (cases F) (simp_all add: float_close_def double_close_def UnityFloatsWithin_def UnityDoublesWithin_def
      UNITY_FLOAT_PRECISION_def UNITY_DOUBLE_PRECISION_def within_cases)

lemma equal_tolerance_bounds: "two (- 40) \<le> equal_tolerance F" "equal_tolerance F \<le> 1 / 2" "0 < equal_tolerance F"
proof -
  show "two (- 40) \<le> equal_tolerance F"
    by (cases F) (simp_all add: power_int_def power_divide)
qed (cases F; simp)+

lemma rounded_factor:
  assumes "\<bar>x\<bar> \<le> \<bar>y\<bar>" "is_float F (Num y)" "two (min_exp F) \<le> \<bar>x\<bar>"
  shows "\<exists>r. fl F x = Num r \<and> \<bar>r - x\<bar> \<le> \<bar>x\<bar> / 2 ^ 24"
proof -
  have y: "is_float F (Num (- \<bar>y\<bar>))" "is_float F (Num \<bar>y\<bar>)"
    using assms(2) by (simp_all add: abs_if representable_minus)
  have "- \<bar>y\<bar> \<le> x" "x \<le> \<bar>y\<bar>" using assms(1) by linarith+
  from fl_between[OF this y] obtain r where r: "fl F x = Num r" by blast
  have "\<bar>r - x\<bar> \<le> \<bar>x\<bar> / 2 ^ precision F"
    using round_to_relative[OF assms(3)] r by (simp add: fl_def split: if_splits)
  also have "\<dots> \<le> \<bar>x\<bar> / 2 ^ 24" by (cases F) (simp_all add: divide_left_mono)
  finally show ?thesis using r by blast
qed

lemma equal_tolerance_number:
  assumes "is_float F (Num x)" "two (min_exp F + 50) \<le> \<bar>x\<bar>"
  shows "\<exists>t. fmul F (Num x) (fl F (equal_tolerance F)) = Num t
    \<and> \<bar>t - x * equal_tolerance F\<bar> \<le> \<bar>x\<bar> * equal_tolerance F * (1 / 2 ^ 22)"
proof -
  let ?tol = "equal_tolerance F"
  note b = equal_tolerance_bounds[of F]
  have one: "is_float F (Num 1)" by (cases F) (simp_all add: max_exp_eq representable_of_int[of 1, simplified])
  have "two (min_exp F) \<le> two (- 40)" by (cases F) (simp_all only: two_le, simp_all)
  then have "two (min_exp F) \<le> \<bar>?tol\<bar>" using b by linarith
  with rounded_factor[OF _ one, of ?tol] b obtain p where p: "fl F ?tol = Num p" "\<bar>p - ?tol\<bar> \<le> ?tol / 2 ^ 24"
    by auto
  have small: "?tol / 2 ^ 24 \<le> ?tol / 2" using b by simp
  have p01: "?tol / 2 \<le> p" "p \<le> 1" "p \<le> 2 * ?tol" using p(2) b small by linarith+
  have "\<bar>x * p\<bar> = \<bar>x\<bar> * p" using p01(1) b by (simp add: abs_mult)
  moreover have "\<bar>x\<bar> * p \<le> \<bar>x\<bar> * 1" using p01(2) by (intro mult_left_mono) simp_all
  moreover have "two (min_exp F) \<le> \<bar>x\<bar> * p"
  proof -
    have "two (min_exp F) = two (min_exp F + 50) * (two (- 40) * two (- 10))"
      by (simp only: two_add[symmetric]) simp
    also have "\<dots> \<le> \<bar>x\<bar> * p"
    proof (rule mult_mono)
      have "two (- 40) * two (- 10) \<le> two (- 40) * (1 / 2)"
        by (intro mult_left_mono) (simp_all add: power_int_def power_divide)
      then show "two (- 40) * two (- 10) \<le> p" using p01(1) b by linarith
    qed (use assms(2) in simp_all)
    finally show ?thesis .
  qed
  ultimately have "\<bar>x * p\<bar> \<le> \<bar>x\<bar>" "two (min_exp F) \<le> \<bar>x * p\<bar>" by simp_all
  from rounded_factor[OF this(1) assms(1) this(2)] obtain t where
    t: "fl F (x * p) = Num t" "\<bar>t - x * p\<bar> \<le> \<bar>x * p\<bar> / 2 ^ 24" by blast
  define q where "q = \<bar>x\<bar> * ?tol"
  have "\<bar>x * p\<bar> \<le> \<bar>x\<bar> * (2 * ?tol)"
    unfolding \<open>\<bar>x * p\<bar> = \<bar>x\<bar> * p\<close> using p01(3) by (intro mult_left_mono) simp_all
  then have a: "\<bar>x * p\<bar> \<le> 2 * q" by (simp add: q_def mult_ac)
  have "\<bar>x * p - x * ?tol\<bar> \<le> \<bar>x\<bar> * (?tol / 2 ^ 24)"
    unfolding right_diff_distrib[symmetric] abs_mult using p(2) by (intro mult_left_mono) simp_all
  then have b: "\<bar>x * p - x * ?tol\<bar> \<le> q / 2 ^ 24" by (simp add: q_def)
  have "\<bar>t - x * ?tol\<bar> \<le> \<bar>x * p\<bar> / 2 ^ 24 + q / 2 ^ 24" using t(2) b by linarith
  also have "\<dots> \<le> q * (1 / 2 ^ 22)" using a abs_ge_zero[of "x * p"] by (simp add: field_simps)
  finally have "\<bar>t - x * ?tol\<bar> \<le> q * (1 / 2 ^ 22)" .
  then show ?thesis using p(1) t(1) by (simp add: q_def)
qed

lemma close_bounds:
  assumes "is_float F (Num x)" "is_float F (Num y)" "two (min_exp F + 50) \<le> \<bar>x\<bar>"
  shows "\<bar>y - x\<bar> \<le> 99 / 100 * equal_tolerance F * \<bar>x\<bar> \<Longrightarrow> equal_up_to F (Num x) (Num y)"
    and "equal_up_to F (Num x) (Num y) \<Longrightarrow> \<bar>y - x\<bar> \<le> 101 / 100 * equal_tolerance F * \<bar>x\<bar>"
proof -
  let ?q = "\<bar>x\<bar> * equal_tolerance F"
  obtain t where t: "fmul F (Num x) (fl F (equal_tolerance F)) = Num t"
    "\<bar>t - x * equal_tolerance F\<bar> \<le> ?q * (1 / 2 ^ 22)"
    using equal_tolerance_number[OF assms(1,3)] by blast
  have "is_float F (Num t)" using is_float_arith(1)[of F "Num x" "fl F (equal_tolerance F)"] unfolding t(1) .
  have "\<bar>x * equal_tolerance F\<bar> = ?q" using equal_tolerance_bounds(3)[of F] by (simp add: abs_mult)
  moreover have "?q * (1 / 2 ^ 22) \<le> ?q * (1 / 100)" "0 \<le> ?q"
    using equal_tolerance_bounds(3)[of F] by (simp_all add: mult_left_mono)
  ultimately have near: "?q * (99 / 100) \<le> \<bar>t\<bar>" "\<bar>t\<bar> \<le> ?q * (1 + 1 / 2 ^ 22)" "0 \<le> ?q"
    unfolding distrib_left using t(2) by linarith+
  show "equal_up_to F (Num x) (Num y)" if "\<bar>y - x\<bar> \<le> 99 / 100 * equal_tolerance F * \<bar>x\<bar>"
    unfolding close_within t(1)
    by (rule number_within_complete[OF \<open>is_float F (Num t)\<close>]) (use that near(1) in \<open>simp add: mult_ac\<close>)
  show "\<bar>y - x\<bar> \<le> 101 / 100 * equal_tolerance F * \<bar>x\<bar>" if "equal_up_to F (Num x) (Num y)"
  proof -
    have "\<bar>y - x\<bar> * (1 - 1 / 2 ^ precision F) \<le> \<bar>t\<bar>"
      using number_within_sound[OF assms(1,2)] that unfolding close_within t(1) by blast
    moreover have "\<bar>y - x\<bar> * (1 - 1 / 2 ^ 24) \<le> \<bar>y - x\<bar> * (1 - 1 / 2 ^ precision F)"
      by (intro mult_left_mono) (cases F; simp)+
    ultimately have "\<bar>y - x\<bar> * (1 - 1 / 2 ^ 24) \<le> ?q * (1 + 1 / 2 ^ 22)" using near(2) by linarith
    then have "\<bar>y - x\<bar> \<le> ?q * (101 / 100)" using near(3) by (simp add: field_simps)
    then show ?thesis by (simp add: mult_ac)
  qed
qed

lemma close_refl: "equal_up_to F v v"
proof (cases v)
  case (Num x)
  have "fl F 0 = Num 0" by (simp add: fl_def round_to_representable)
  then show ?thesis
    unfolding Num close_within
    by (cases "fmul F (Num x) (fl F (equal_tolerance F))") (simp_all add: number_within_def)
qed (cases F; simp add: float_close_def double_close_def UnityFloatsWithin_def UnityDoublesWithin_def within_cases)+

subsection \<open>Properties\<close>

text \<open>Property C17: the tolerance assertion on numbers decides by their distance. It passes if the distance is at
  most the tolerance, of either sign; if the distance exceeds the tolerance by more than the rounding of
  the subtraction, it marks the test and leaves it with a report of both numbers.\<close>

theorem float_within_decides_distance:
  assumes "\<not> bailed u" "is_float C_float (Num t)" "is_float C_float (Num x)" "is_float C_float (Num y)"
  shows "(\<bar>y - x\<bar> \<le> \<bar>t\<bar> \<longrightarrow>
       TEST_ASSERT_FLOAT_WITHIN B (Num t) (Num x) (Num y) line u = Some (Inr u))
    \<and> (\<bar>t\<bar> < \<bar>y - x\<bar> * (1 - 1 / 2 ^ 24) \<longrightarrow>
       TEST_ASSERT_FLOAT_WITHIN B (Num t) (Num x) (Num y) line u =
         Some (Inl (marked u (fail_report None line (expected_was B (Num x) (Num y)) u))))"
proof -
  have "TEST_ASSERT_FLOAT_WITHIN B (Num t) (Num x) (Num y) line u =
      Some (if number_within C_float (Num t) x y then Inr u
            else Inl (marked u (fail_report None line (expected_was B (Num x) (Num y)) u)))"
    using assert_close_assertion[OF float_in_double[OF assms(3)] float_in_double[OF assms(4)]] assms(1)
    by (simp add: TEST_ASSERT_FLOAT_WITHIN_def UNITY_TEST_ASSERT_FLOAT_WITHIN_def UnityAssertFloatsWithin_def
        UnityFloatsWithin_def within_cases assertion_def marked_def)
  then show ?thesis
    using number_within_complete[OF assms(2)] number_within_sound[OF assms(3,4)] by (auto simp: not_le[symmetric])
qed

lemma sample_small: "is_float C_float (Num 0)" "is_float C_float (Num 1)" "is_float C_float (Num 2)"
  using representable_of_int[of 1 C_float] representable_of_int[of 2 C_float] by (simp_all add: max_exp_eq)

theorem float_within_decides_distance_witness:
  "TEST_ASSERT_FLOAT_WITHIN Without_double (Num 1) (Num 1) (Num 2) 7 sample_unity = Some (Inr sample_unity)
   \<and> TEST_ASSERT_FLOAT_WITHIN Without_double (Num 0) (Num 1) (Num 2) 7 sample_unity =
       Some (Inl (marked sample_unity (fail_report None 7 (expected_was Without_double (Num 1) (Num 2)) sample_unity)))"
  using float_within_decides_distance[OF sample_unity_runs sample_small(2,2,3), of Without_double 7]
    float_within_decides_distance[OF sample_unity_runs sample_small(1,2,3), of Without_double 7] by simp

text \<open>Property C18: the equality of floating-point numbers is equality up to five significant digits. A number other
  than the very small ones agrees with the numbers that are closer than 0.99 hundred-thousandth of it
  and with none that is farther than 1.01 of them; NaN is equal to NaN only and an infinity to itself only. If
  they do not agree, the test is marked and left with a report of both.\<close>

theorem float_equality_is_five_digits:
  assumes "\<not> bailed u" "is_float C_float e" "is_float C_float a"
  shows "TEST_ASSERT_EQUAL_FLOAT B e a line u =
      Some (if float_close e a then Inr u
            else Inl (marked u (fail_report None line (expected_was B e a) u)))
    \<and> (case (e, a) of
         (Num x, Num y) \<Rightarrow> 2 powi (- 76) \<le> \<bar>x\<bar> \<longrightarrow>
           (\<bar>y - x\<bar> \<le> 99 / 100 * \<bar>x\<bar> / 10 ^ 5 \<longrightarrow> float_close e a)
           \<and> (float_close e a \<longrightarrow> \<bar>y - x\<bar> \<le> 101 / 100 * \<bar>x\<bar> / 10 ^ 5)
       | _ \<Rightarrow> float_close e a = (e = a))"
proof
  show "TEST_ASSERT_EQUAL_FLOAT B e a line u =
      Some (if float_close e a then Inr u
            else Inl (marked u (fail_report None line (expected_was B e a) u)))"
    using assert_close_assertion[OF float_in_double[OF assms(2)] float_in_double[OF assms(3)]] assms(1)
    by (simp add: TEST_ASSERT_EQUAL_FLOAT_def UNITY_TEST_ASSERT_EQUAL_FLOAT_def UNITY_TEST_ASSERT_FLOAT_WITHIN_def
        UnityAssertFloatsWithin_def float_close_def assertion_def marked_def)
  have "float_close e a = (e = a)" if "\<not> (\<exists>x y. e = Num x \<and> a = Num y)"
    using that by (cases e; cases a) (auto simp: float_close_def UnityFloatsWithin_def within_cases)
  moreover have "2 powi (- 76) \<le> \<bar>x\<bar> \<longrightarrow>
      (\<bar>y - x\<bar> \<le> 99 / 100 * \<bar>x\<bar> / 10 ^ 5 \<longrightarrow> float_close e a)
      \<and> (float_close e a \<longrightarrow> \<bar>y - x\<bar> \<le> 101 / 100 * \<bar>x\<bar> / 10 ^ 5)" if "e = Num x" "a = Num y" for x y
    using close_bounds[of C_float x y] assms(2,3) unfolding that by simp
  ultimately show "case (e, a) of
         (Num x, Num y) \<Rightarrow> 2 powi (- 76) \<le> \<bar>x\<bar> \<longrightarrow>
           (\<bar>y - x\<bar> \<le> 99 / 100 * \<bar>x\<bar> / 10 ^ 5 \<longrightarrow> float_close e a)
           \<and> (float_close e a \<longrightarrow> \<bar>y - x\<bar> \<le> 101 / 100 * \<bar>x\<bar> / 10 ^ 5)
       | _ \<Rightarrow> float_close e a = (e = a)"
    by (cases e; cases a) auto
qed

theorem float_equality_is_five_digits_witness:
  "TEST_ASSERT_EQUAL_FLOAT Without_double NaN NaN 7 sample_unity = Some (Inr sample_unity)
   \<and> \<not> float_close (Num 1) (Num 2)"
proof
  show "TEST_ASSERT_EQUAL_FLOAT Without_double NaN NaN 7 sample_unity = Some (Inr sample_unity)"
    using float_equality_is_five_digits[OF sample_unity_runs, of NaN NaN Without_double 7] by simp
  have "2 powi (- 76) \<le> (1 :: rat)" using two_le[of "- 76" 0] by simp
  then show "\<not> float_close (Num 1) (Num 2)"
    using float_equality_is_five_digits[OF sample_unity_runs sample_small(2,3), of Without_double 7] by auto
qed

text \<open>On two different arrays that have all the elements, the array assertions on numbers pass exactly if
  every pair is equal in the sense of the single assertion; otherwise they leave the test with a
  report of the first pair that is not, under its index. In each-equal mode every element is compared with
  the one number.\<close>

theorem float_array_assertion_is_exact:
  assumes "\<not> bailed u" "float_array_operands m C_float flags expected actual num es as"
  shows "UnityAssertEqualFloatArray B m expected actual num msg line flags u =
    Some (if list_all2 float_close es as then Inr u
          else let k = first_bad float_close es as in
            Inl (marked u (fail_report msg line (float_array_text B (of_nat k) (es ! k) (as ! k)) u)))"
  by (rule float_array_assertion[OF assms])

text \<open>The arrays \<open>{1, 1}\<close> and \<open>{1, 2}\<close>.\<close>

definition sample_floats :: memory where
  "sample_floats = [1 \<mapsto> Bytes [0, 0, 0x80, 0x3F, 0, 0, 0x80, 0x3F], 2 \<mapsto> Bytes [0, 0, 0x80, 0x3F, 0, 0, 0, 0x40]]"

lemma sample_float_operands:
  "float_array_operands sample_floats C_float UNITY_ARRAY_TO_ARRAY (Ptr 1 0) (Ptr 2 0) 2 [Num 1, Num 1] [Num 1, Num 2]"
  by (simp add: float_array_operands_def load_float_def sample_floats_def decode_def Let_def power_int_def power_divide)

theorem float_array_assertion_is_exact_witness:
  "UnityAssertEqualFloatArray Without_double sample_floats (Ptr 1 0) (Ptr 2 0) 2 None 7 UNITY_ARRAY_TO_ARRAY sample_unity =
     Some (Inl (marked sample_unity (fail_report None 7
       (float_array_text Without_double 1 (Num 1) (Num 2)) sample_unity)))"
proof -
  have c: "float_close (Num 1) (Num 1)" using close_refl[of C_float "Num 1"] by simp
  have two: "two (- 76) \<le> 1" using two_le[of "- 76" 0] by simp
  have d: "\<not> float_close (Num 1) (Num 2)"
    using close_bounds(2)[OF sample_small(2,3)] two by auto
  have "\<not> list_all2 float_close [Num 1, Num 1] [Num 1, Num 2]"
    "first_bad float_close [Num 1, Num 1] [Num 1, Num 2] = 1"
    using c d by simp_all
  then show ?thesis
    using float_array_assertion_is_exact[OF sample_unity_runs sample_float_operands, of Without_double None 7]
    by (simp add: Let_def)
qed

text \<open>The assertions on the kind of a number pass exactly for numbers of the kind.\<close>

theorem float_traits_are_exact:
  assumes "is_float C_float v"
  shows "\<exists>report. TEST_ASSERT_FLOAT_IS B style v line u = Some (assertion (has_trait style v) report u)"
  using assert_trait_assertion[OF float_in_double[OF assms]]
  by (simp add: TEST_ASSERT_FLOAT_IS_def UNITY_TEST_ASSERT_FLOAT_IS_def UnityAssertFloatSpecial_def)

theorem float_traits_are_exact_witness:
  "\<exists>report. TEST_ASSERT_FLOAT_IS Without_double UNITY_FLOAT_IS_DET NaN 7 sample_unity =
     Some (assertion False report sample_unity)"
  using float_traits_are_exact[of NaN Without_double UNITY_FLOAT_IS_DET 7 sample_unity] by simp

text \<open>A tolerance that is no number accepts any two numbers whose difference is finite.\<close>

lemma nan_tolerance_accepts:
  assumes "\<not> bailed u" "is_float C_float (Num x)" "is_float C_float (Num y)" "\<bar>y - x\<bar> < 2 powi 127"
  shows "TEST_ASSERT_FLOAT_WITHIN B NaN (Num x) (Num y) line u = Some (Inr u)"
proof -
  have two: "is_float C_float (Num (two 127))" "is_float C_float (Num (- two 127))"
    using representable_two[of C_float 127] by (simp_all add: max_exp_eq representable_minus)
  have "- two 127 \<le> y - x" "y - x \<le> two 127" using assms(4) by linarith+
  from fl_between[OF this two(2,1)] have "number_within C_float NaN x y" by (auto simp: number_within_def)
  then show ?thesis
    using assert_close_assertion[OF float_in_double[OF assms(2)] float_in_double[OF assms(3)]] assms(1)
    by (simp add: TEST_ASSERT_FLOAT_WITHIN_def UNITY_TEST_ASSERT_FLOAT_WITHIN_def UnityAssertFloatsWithin_def
        UnityFloatsWithin_def within_cases assertion_def)
qed

text \<open>In the default build every assertion on \<open>double\<close> fails.\<close>

lemma double_assertions_disabled:
  "TEST_ASSERT_DOUBLE_WITHIN Without_double delta e a line u = Some (UnityFail (Some UnityStrErrDouble) line u)"
  "TEST_ASSERT_EQUAL_DOUBLE Without_double e a line u = Some (UnityFail (Some UnityStrErrDouble) line u)"
  "TEST_ASSERT_EQUAL_DOUBLE_ARRAY Without_double m p q n line u = Some (UnityFail (Some UnityStrErrDouble) line u)"
  "TEST_ASSERT_EACH_EQUAL_DOUBLE Without_double m r q n line u = Some (UnityFail (Some UnityStrErrDouble) line u)"
  "TEST_ASSERT_DOUBLE_IS Without_double style a line u = Some (UnityFail (Some UnityStrErrDouble) line u)"
  by (simp_all add: TEST_ASSERT_DOUBLE_WITHIN_def UNITY_TEST_ASSERT_DOUBLE_WITHIN_def UNITY_TEST_FAIL_DOUBLE_def
      TEST_ASSERT_EQUAL_DOUBLE_def UNITY_TEST_ASSERT_EQUAL_DOUBLE_def TEST_ASSERT_EQUAL_DOUBLE_ARRAY_def
      UNITY_TEST_ASSERT_EQUAL_DOUBLE_ARRAY_def TEST_ASSERT_EACH_EQUAL_DOUBLE_def UNITY_TEST_ASSERT_EACH_EQUAL_DOUBLE_def
      TEST_ASSERT_DOUBLE_IS_def UNITY_TEST_ASSERT_DOUBLE_IS_def)

end
