(* ===== verification/Unity_Suites.thy ===== *)
theory Unity_Suites
  imports Unity_Fixture Unity_Float_Assertions
begin

section \<open>Unity: groups of tests and whole programs\<close>

text \<open>
  The macros of \<^verbatim>\<open>assignment-autotest/Unity/extras/fixture/src/unity_fixture.h\<close>: what a test file
  declares (\<open>TEST_GROUP\<close>, \<open>TEST_SETUP\<close>, \<open>TEST_TEAR_DOWN\<close>, \<open>TEST\<close>, \<open>IGNORE_TEST\<close>) and the runners that
  call it (\<open>RUN_TEST_CASE\<close>, \<open>TEST_GROUP_RUNNER\<close>, \<open>RUN_TEST_GROUP\<close>), and a program that hands them to
  \<open>UnityMain\<close>. Then the macros for tests written for CppUTest.
\<close>

subsection \<open>Declarations\<close>








subsection \<open>The macros for CppUTest\<close>

definition UT_PTR_SET :: "u64 \<Rightarrow> u64 \<Rightarrow> u64 \<Rightarrow> fixture_function" where
  "UT_PTR_SET ptr newPointerValue line = UnityPointer_Set ptr newPointerValue line"

definition TEST_ASSERT_POINTERS_EQUAL :: "u64 \<Rightarrow> u64 \<Rightarrow> u64 \<Rightarrow> unity \<Rightarrow> flow" where
  "TEST_ASSERT_POINTERS_EQUAL expected actual line = TEST_ASSERT_EQUAL_PTR expected actual line"

definition TEST_ASSERT_BYTES_EQUAL :: "u64 \<Rightarrow> u64 \<Rightarrow> u64 \<Rightarrow> unity \<Rightarrow> flow" where
  "TEST_ASSERT_BYTES_EQUAL expected actual line =
     TEST_ASSERT_EQUAL (Sized UNITY_DISPLAY_STYLE_HEX8) (and 0xff expected) (and 0xff actual) line"

definition FAIL :: "cstring \<Rightarrow> u64 \<Rightarrow> unity \<Rightarrow> flow" where
  "FAIL message line = TEST_FAIL_MESSAGE message line"

definition CHECK :: "bool \<Rightarrow> u64 \<Rightarrow> unity \<Rightarrow> flow" where
  "CHECK condition line = TEST_ASSERT_TRUE condition line"

definition LONGS_EQUAL :: "u64 \<Rightarrow> u64 \<Rightarrow> u64 \<Rightarrow> unity \<Rightarrow> flow" where
  "LONGS_EQUAL expected actual line = TEST_ASSERT_EQUAL (Sized UNITY_DISPLAY_STYLE_INT) expected actual line"

definition STRCMP_EQUAL :: "cstring \<Rightarrow> cstring \<Rightarrow> u64 \<Rightarrow> unity \<Rightarrow> flow" where
  "STRCMP_EQUAL expected actual line = TEST_ASSERT_EQUAL_STRING expected actual line"

definition DOUBLES_EQUAL :: "build \<Rightarrow> fp \<Rightarrow> fp \<Rightarrow> fp \<Rightarrow> u64 \<Rightarrow> unity \<Rightarrow> flow option" where
  "DOUBLES_EQUAL B expected actual delta line = TEST_ASSERT_DOUBLE_WITHIN B delta expected actual line"

subsection \<open>All cases of a program\<close>







subsection \<open>What a run of a program does\<close>















subsection \<open>The repeated runs of a program\<close>







subsection \<open>Properties\<close>




interpretation sample_case: fixture_test "run_program sample_setup" "run_program (comparing_numbers a b)"
  "strays sample_setup" "strays (comparing_numbers a b)" "run_program Stop" "strays Stop" for a b
  by (rule program_test) (simp_all add: sample_programs_ok comparing_numbers_ok)







text \<open>The macros for CppUTest decide what their names say; \<open>TEST_ASSERT_BYTES_EQUAL\<close> compares the low bytes.\<close>

lemma low_byte: "ucast (and 0xff (v :: u64)) = (ucast v :: byte)"
proof -
  have "and 0xff v = take_bit 8 v" by (simp add: take_bit_eq_mask mask_eq_exp_minus_1 and.commute)
  then show ?thesis by (intro bit_word_eqI) (simp add: bit_simps)
qed

lemma cpputest_macros:
  assumes "\<not> bailed u"
  shows "decides (expected = actual) u (TEST_ASSERT_POINTERS_EQUAL expected actual line u)"
    and "decides ((ucast expected :: byte) = ucast actual) u (TEST_ASSERT_BYTES_EQUAL expected actual line u)"
    and "decides (expected = actual) u (LONGS_EQUAL expected actual line u)"
    and "decides condition u (CHECK condition line u)"
    and "decides False u (FAIL message line u)"
  using assms
  by (auto simp: TEST_ASSERT_POINTERS_EQUAL_def TEST_ASSERT_EQUAL_PTR_def UNITY_TEST_ASSERT_EQUAL_PTR_def
      TEST_ASSERT_BYTES_EQUAL_def LONGS_EQUAL_def TEST_ASSERT_EQUAL_def UNITY_TEST_ASSERT_EQUAL_def
      CHECK_def TEST_ASSERT_TRUE_def UNITY_TEST_ASSERT_def FAIL_def TEST_FAIL_MESSAGE_def fail_always
      assert_equal_number decides_def assertion_def marked_def cast_INT8_def low_byte scast_eq_iff)

end
