(* ===== verification/Unity_Output.thy ===== *)
theory Unity_Output
  imports Unity_Args
begin

section \<open>Unity: colours and report formats\<close>

text \<open>
  The builds of \<^verbatim>\<open>assignment-autotest/Unity/src/unity.c\<close> that print for a terminal
  (\<open>UNITY_OUTPUT_COLOR\<close>) or for a development environment (\<open>UNITY_OUTPUT_FOR_...\<close>). A string is given by
  its characters in front of the terminating zero; \<open>None\<close> as a result is a read behind it.
\<close>

subsection \<open>Colours\<close>

definition UnityStrOk_color :: "byte list" where
  "UnityStrOk_color = 27 # str ''[42mOK'' @ 27 # str ''[00m''"

definition UnityStrPass_color :: "byte list" where
  "UnityStrPass_color = 27 # str ''[42mPASS'' @ 27 # str ''[00m''"

definition UnityStrFail_color :: "byte list" where
  "UnityStrFail_color = 27 # str ''[41mFAIL'' @ 27 # str ''[00m''"

definition UnityStrIgnore_color :: "byte list" where
  "UnityStrIgnore_color = 27 # str ''[43mIGNORE'' @ 27 # str ''[00m''"

text \<open>The characters sent and the number returned; an \<open>m\<close> is sent and counted in any case.\<close>

fun UnityPrintAnsiEscapeString :: "byte list \<Rightarrow> byte list \<times> nat" where
  "UnityPrintAnsiEscapeString [] = (str ''m'', 1)"
| "UnityPrintAnsiEscapeString (ch # chs) =
     (if ch \<noteq> 0 \<and> ch \<noteq> 109
      then (let (out, count) = UnityPrintAnsiEscapeString chs in (ch # out, count + 1))
      else (str ''m'', 1))"

lemma escape_count: "1 \<le> snd (UnityPrintAnsiEscapeString s)"
  by (induction s) (auto split: prod.splits)

lemma escape_drop: "length (drop (snd (UnityPrintAnsiEscapeString (ch # chs))) (ch # chs)) < Suc (length chs)"
  using escape_count[of "ch # chs"] by (simp del: UnityPrintAnsiEscapeString.simps)

function print_loop_color :: "byte list \<Rightarrow> byte list option" where
  "print_loop_color [] = Some []"
| "print_loop_color (ch # chs) =
     (if ch = 0 then Some []
      else if ch = 27 \<and> take 1 chs = str ''['' then
        (let esc = UnityPrintAnsiEscapeString (ch # chs) in
         if snd esc \<le> length (ch # chs)
         then map_option (\<lambda>out. fst esc @ out) (print_loop_color (drop (snd esc) (ch # chs)))
         else None)
      else map_option (\<lambda>out. UnityPrintChar ch @ out) (print_loop_color chs))"
  by pat_completeness auto
termination
  by (relation "measure length") (auto simp: escape_drop simp del: length_drop UnityPrintAnsiEscapeString.simps)

definition UnityPrint_color :: "cstring \<Rightarrow> byte list option" where
  "UnityPrint_color string = (case string of None \<Rightarrow> Some [] | Some pch \<Rightarrow> print_loop_color pch)"

text \<open>A formatted message; a string that it prints may hold escape sequences too.\<close>

definition print_conversion_color :: "build \<Rightarrow> byte \<Rightarrow> va list \<Rightarrow> (byte list \<times> va list) option" where
  "print_conversion_color B ch vas =
     (if [ch] = str ''s'' then do { (s, vas) \<leftarrow> va_string vas; out \<leftarrow> UnityPrint_color s; Some (out, vas) }
      else print_conversion B ch vas)"

function UnityPrintFVA_color :: "build \<Rightarrow> byte list \<Rightarrow> va list \<Rightarrow> byte list option" where
  "UnityPrintFVA_color B [] vas = Some []"
| "UnityPrintFVA_color B (ch # pch) vas =
     (if ch = 0 then Some []
      else if ch = 37 then
        (case pch of
           [] \<Rightarrow> None
         | conv # pch' \<Rightarrow> do {
             (out, vas) \<leftarrow> print_conversion_color B conv vas;
             rest \<leftarrow> UnityPrintFVA_color B pch' vas;
             Some (out @ rest)
           })
      else if ch = 27 \<and> take 1 pch = str ''['' then
        (let esc = UnityPrintAnsiEscapeString (ch # pch) in
         if snd esc \<le> length (ch # pch)
         then map_option (\<lambda>rest. fst esc @ rest) (UnityPrintFVA_color B (drop (snd esc) (ch # pch)) vas)
         else None)
      else map_option (\<lambda>rest. (if ch = 10 then EOL else UnityPrintChar ch) @ rest) (UnityPrintFVA_color B pch vas))"
  by pat_completeness auto
termination
  by (relation "measure (\<lambda>(B, pch, vas). length pch)") (auto simp: escape_drop simp del: length_drop UnityPrintAnsiEscapeString.simps)

subsection \<open>Formats of a report line\<close>

datatype output_format = Default_format | Eclipse | IAR_Workbench | Qt_Creator

fun UnityTestResultsBegin_for :: "output_format \<Rightarrow> cstring \<Rightarrow> u64 \<Rightarrow> unity \<Rightarrow> unity" where
  "UnityTestResultsBegin_for Eclipse file_name line u =
     emit (str ''('' @ UnityPrint file_name @ str '':'' @ UnityPrintNumber line @ str '')'' @ str '' ''
           @ UnityPrint (CurrentTestName u) @ str '':'') u"
| "UnityTestResultsBegin_for IAR_Workbench file_name line u =
     emit (UnityPrint (Some (str ''<SRCREF line='')) @ UnityPrintNumber line
           @ UnityPrint (Some (str '' file='' @ [34])) @ UnityPrint file_name @ [34] @ str ''>''
           @ UnityPrint (CurrentTestName u) @ UnityPrint (Some (str ''</SRCREF> ''))) u"
| "UnityTestResultsBegin_for Qt_Creator file_name line u =
     emit (UnityPrint (Some (str ''file://'')) @ UnityPrint file_name @ str '':'' @ UnityPrintNumber line @ str '' ''
           @ UnityPrint (CurrentTestName u) @ str '':'') u"
| "UnityTestResultsBegin_for Default_format file_name line u =
     emit (UnityPrint file_name @ str '':'' @ UnityPrintNumber line @ str '':''
           @ UnityPrint (CurrentTestName u) @ str '':'') u"

lemma default_format: "UnityTestResultsBegin_for Default_format = UnityTestResultsBegin"
  by (intro ext) (simp add: UnityTestResultsBegin_def)

subsection \<open>Escape sequences\<close>

text \<open>A string without the start of an escape sequence, and one with a sequence that does not end.\<close>

definition escape_free :: "byte list \<Rightarrow> bool" where
  "escape_free s \<longleftrightarrow> \<not> (\<exists>a b. s = a @ 27 # 91 # b)"

definition open_escape :: "byte list \<Rightarrow> bool" where
  "open_escape s \<longleftrightarrow> (\<exists>a b. s = a @ 27 # 91 # b \<and> 109 \<notin> set b)"

lemma starts: "take 1 chs = str ''['' \<longleftrightarrow> (\<exists>b. chs = 91 # b)"
  by (cases chs) (auto simp: str_def)

lemma escape_free_Cons: "escape_free (ch # chs) \<longleftrightarrow> \<not> (ch = 27 \<and> take 1 chs = str ''['') \<and> escape_free chs"
  unfolding escape_free_def starts Cons_eq_append_conv by auto

lemma open_escape_Cons:
  "\<not> (ch = 27 \<and> take 1 chs = str ''['') \<Longrightarrow> open_escape (ch # chs) \<longleftrightarrow> open_escape chs"
  unfolding open_escape_def starts Cons_eq_append_conv by auto

lemma drop_escape: "drop (length body + 3) (27 # 91 # body @ 109 # rest) = rest"
  by (simp add: numeral_3_eq_3)

lemma open_escape_closed: "open_escape (w @ 109 # rest) \<longleftrightarrow> open_escape rest"
proof
  assume "open_escape (w @ 109 # rest)"
  then obtain a b where "w @ 109 # rest = a @ 27 # 91 # b" "109 \<notin> set b" by (auto simp: open_escape_def)
  then show "open_escape rest"
    by (fastforce simp: open_escape_def append_eq_append_conv2 append_eq_Cons_conv Cons_eq_append_conv)
next
  assume "open_escape rest"
  then obtain a b where "rest = a @ 27 # 91 # b" "109 \<notin> set b" by (auto simp: open_escape_def)
  then have "w @ 109 # rest = (w @ 109 # a) @ 27 # 91 # b" by simp
  with \<open>109 \<notin> set b\<close> show "open_escape (w @ 109 # rest)" unfolding open_escape_def by blast
qed

lemma escape_closed:
  "0 \<notin> set w \<Longrightarrow> 109 \<notin> set w \<Longrightarrow> UnityPrintAnsiEscapeString (w @ 109 # rest) = (w @ [109], length w + 1)"
  by (induction w) (auto simp: str_def)

lemma escape_not_closed:
  "0 \<notin> set w \<Longrightarrow> 109 \<notin> set w \<Longrightarrow> UnityPrintAnsiEscapeString w = (w @ [109], length w + 1)"
  by (induction w) (auto simp: str_def)

text \<open>Text without escapes is printed as in the build without colours, an escape sequence unchanged.\<close>

lemma color_escape_free:
  "escape_free t \<Longrightarrow> print_loop_color t = Some (print_loop t)"
  by (induction t) (auto simp: escape_free_Cons)

lemma color_escape:
  assumes "0 \<notin> set body" "109 \<notin> set body"
  shows "print_loop_color (27 # 91 # body @ 109 # rest) =
    map_option (\<lambda>out. (27 # 91 # body @ [109]) @ out) (print_loop_color rest)"
proof -
  have "UnityPrintAnsiEscapeString (27 # 91 # body @ 109 # rest) = (27 # 91 # body @ [109], length body + 3)"
    using escape_closed[of "27 # 91 # body" rest] assms by simp
  then show ?thesis
    by (cases "print_loop_color rest") (simp_all add: str_def Let_def drop_escape del: UnityPrintAnsiEscapeString.simps drop_Suc_Cons)
qed

text \<open>In the build with colours a string is printed piece by piece: text in front of an escape sequence as in
  the build without colours, its characters made printable, and the sequence, from the escape character to
  its \<open>m\<close>, unchanged.\<close>

theorem colored_text_in_pieces:
  assumes "escape_free t" "0 \<notin> set t" "0 \<notin> set body" "109 \<notin> set body"
  shows "UnityPrint_color (Some (t @ 27 # 91 # body @ 109 # rest)) =
    map_option (\<lambda>out. UnityPrint (Some t) @ (27 # 91 # body @ [109]) @ out) (UnityPrint_color (Some rest))"
  using assms(1,2) unfolding UnityPrint_color_def UnityPrint_def option.case
proof (induction t)
  case Nil
  show ?case using color_escape[OF assms(3,4), of rest] by simp
next
  case (Cons ch t)
  have "\<not> (ch = 27 \<and> take 1 (t @ 27 # 91 # body @ 109 # rest) = str ''['')"
    using Cons.prems(1) by (cases t) (auto simp: escape_free_Cons str_def)
  then have "print_loop_color ((ch # t) @ 27 # 91 # body @ 109 # rest) =
      map_option (\<lambda>out. UnityPrintChar ch @ out) (print_loop_color (t @ 27 # 91 # body @ 109 # rest))"
    using Cons.prems(2) by (simp only: append_Cons print_loop_color.simps if_False) simp
  then show ?case
    using Cons by (simp add: escape_free_Cons option.map_comp comp_def)
qed

theorem colored_text_in_pieces_witness:
  "UnityPrint_color (Some UnityStrOk_color) = Some UnityStrOk_color"
proof -
  have ok: "UnityStrOk_color = [] @ 27 # 91 # [52, 50] @ 109 # [79, 75] @ 27 # 91 # [48, 48] @ 109 # []"
    by (simp add: UnityStrOk_color_def str_def)
  have "escape_free []" "escape_free [79, 75]" by (simp_all add: escape_free_def Cons_eq_append_conv)
  then show ?thesis
    unfolding ok by (subst colored_text_in_pieces; simp)+ 
      (simp add: UnityPrint_color_def UnityPrint_def UnityPrintChar_def str_def)
qed

text \<open>The build with colours reads past the end of a string exactly if the string has the start of an
  escape sequence, the escape character and an opening bracket, with no \<open>m\<close> behind it: the function for
  escapes counts the \<open>m\<close> that it adds, so the loop steps over the terminating zero.\<close>

theorem unterminated_escape_reads_past_end:
  assumes "0 \<notin> set s"
  shows "UnityPrint_color (Some s) = None \<longleftrightarrow> open_escape s"
  using assms unfolding UnityPrint_color_def option.case
proof (induction s rule: print_loop_color.induct)
  case 1
  show ?case by (simp add: open_escape_def)
next
  case (2 ch chs)
  show ?case
  proof (cases "ch = 27 \<and> take 1 chs = str ''[''")
    case False
    then show ?thesis using 2 open_escape_Cons[OF False] by (auto split: if_splits)
  next
    case True
    then obtain b where b: "chs = 91 # b" by (cases chs) (auto simp: str_def)
    show ?thesis
    proof (cases "109 \<in> set b")
      case True
      then obtain body rest where split: "b = body @ 109 # rest" "109 \<notin> set body" by (metis split_list_first)
      have s: "ch # chs = 27 # 91 # body @ 109 # rest" using \<open>ch = 27 \<and> _\<close> b split by simp
      have esc: "UnityPrintAnsiEscapeString (27 # 91 # body @ 109 # rest) = (27 # 91 # body @ [109], length body + 3)"
        using escape_closed[of "27 # 91 # body" rest] "2.prems" s split by simp
      have count: "snd (UnityPrintAnsiEscapeString (ch # chs)) \<le> length (ch # chs)" unfolding s esc by simp
      have "ch \<noteq> 0" "0 \<notin> set rest" "0 \<notin> set body" using "2.prems" s by auto
      then have "print_loop_color rest = None \<longleftrightarrow> open_escape rest"
        using "2.IH"(1)[OF \<open>ch \<noteq> 0\<close> \<open>ch = 27 \<and> _\<close> refl count] unfolding s esc snd_conv drop_escape by simp
      moreover have "open_escape (27 # 91 # body @ 109 # rest) \<longleftrightarrow> open_escape rest"
        using open_escape_closed[of "27 # 91 # body" rest] by simp
      ultimately show ?thesis
        using color_escape[OF \<open>0 \<notin> set body\<close> split(2), of rest] unfolding s by simp
    next
      case no: False
      have "UnityPrintAnsiEscapeString (ch # chs) = (27 # 91 # b @ [109], length b + 3)"
        using escape_not_closed[of "27 # 91 # b"] "2.prems" True b no by simp
      then have "print_loop_color (ch # chs) = None" using True b "2.prems" by (simp add: Let_def del: UnityPrintAnsiEscapeString.simps)
      moreover have "open_escape (ch # chs)" unfolding open_escape_def using True b no by (intro exI[of _ "[]"] exI[of _ b]) simp
      ultimately show ?thesis by simp
    qed
  qed
qed

theorem unterminated_escape_reads_past_end_witness:
  "UnityPrint_color (Some (str ''x'' @ [27] @ str ''[K'')) = None \<and> UnityPrint (Some (str ''x'' @ [27] @ str ''[K'')) \<noteq> []"
proof -
  have "open_escape (str ''x'' @ [27] @ str ''[K'')"
    unfolding open_escape_def by (intro exI[of _ "[120]"] exI[of _ "[75]"]) (simp add: str_def)
  then show ?thesis
    using unterminated_escape_reads_past_end[of "str ''x'' @ [27] @ str ''[K''"]
    by (simp add: str_def UnityPrint_def UnityPrintChar_def)
qed

text \<open>A message whose format and strings have no escape sequences is printed as in the build without colours.\<close>

definition plain_strings :: "va list \<Rightarrow> bool" where
  "plain_strings vas \<longleftrightarrow> (\<forall>s. Va_string (Some s) \<in> set vas \<longrightarrow> escape_free s)"

lemma print_conversion_rest: "print_conversion B ch vas = Some (out, vas') \<Longrightarrow> set vas' \<subseteq> set vas"
  by (cases vas rule: va_int.cases; cases vas rule: va_double.cases; cases vas rule: va_string.cases)
    (auto simp: print_conversion_def split: if_splits bind_splits)

lemma print_conversion_plain:
  assumes "plain_strings vas"
  shows "print_conversion_color B ch vas = print_conversion B ch vas"
proof (cases "[ch] = str ''s''")
  case True
  then have "ch = 115" by (simp add: str_def)
  then have "print_conversion B ch vas = do { (s, vas) \<leftarrow> va_string vas; Some (UnityPrint s, vas) }"
    by (simp add: print_conversion_def str_def)
  moreover have "UnityPrint_color s = Some (UnityPrint s)" if "va_string vas = Some (s, vas')" for s vas'
    using that assms
    by (cases vas rule: va_string.cases; cases s)
      (auto simp: UnityPrint_color_def UnityPrint_def plain_strings_def color_escape_free)
  ultimately show ?thesis using True by (auto simp: print_conversion_color_def intro!: Option.bind_cong split: bind_splits)
qed (simp add: print_conversion_color_def)

lemma format_plain:
  "escape_free format \<Longrightarrow> plain_strings vas \<Longrightarrow> UnityPrintFVA_color B format vas = UnityPrintFVA B format vas"
proof (induction B format vas rule: UnityPrintFVA.induct)
  case (2 B ch pch vas)
  have no: "\<not> (ch = 27 \<and> take 1 pch = str ''['')" "escape_free pch" using "2.prems"(1) by (simp_all add: escape_free_Cons)
  show ?case
  proof (cases "ch = 37 \<and> pch \<noteq> []")
    case True
    then obtain conv pch' where pch: "pch = conv # pch'" by (cases pch) auto
    have "UnityPrintFVA_color B pch' vas' = UnityPrintFVA B pch' vas'" if "print_conversion B conv vas = Some (out, vas')" for out vas'
    proof (rule "2.IH"(1)[OF _ _ pch that refl])
      show "escape_free pch'" using no(2) pch by (simp add: escape_free_Cons)
      show "plain_strings vas'" using "2.prems"(2) print_conversion_rest[OF that] by (auto simp: plain_strings_def)
    qed (use True in auto)
    then show ?thesis
      using True pch by (auto simp: print_conversion_plain[OF "2.prems"(2)] intro!: Option.bind_cong)
  next
    case False
    show ?thesis
    proof (cases "ch = 0 \<or> ch = 37")
      case True
      then show ?thesis using False by auto
    next
      case other: False
      then have "UnityPrintFVA_color B pch vas = UnityPrintFVA B pch vas" using "2.IH"(2) no(2) "2.prems"(2) by simp
      then show ?thesis
        using other no(1) by (simp only: UnityPrintFVA_color.simps UnityPrintFVA.simps if_False de_Morgan_disj)
    qed
  qed
qed simp

text \<open>The words of the report are printed as they are.\<close>

lemma result_strings_in_color:
  "UnityPrint_color (Some UnityStrPass_color) = Some UnityStrPass_color"
  "UnityPrint_color (Some UnityStrFail_color) = Some UnityStrFail_color"
  "UnityPrint_color (Some UnityStrIgnore_color) = Some UnityStrIgnore_color"
  by (simp_all add: UnityPrint_color_def UnityStrPass_color_def UnityStrFail_color_def UnityStrIgnore_color_def
      str_def Let_def UnityPrintChar_def)

end
