(* ===== verification/Spec2Isabelle.thy ===== *)
theory Spec2Isabelle
  imports Prelude Aesd_Socket Server_Process Server_History Driver_Concurrency Systemcalls Threading Writer Username
    Unity_Args Unity_Macros Unity_Config Unity_Memory Unity_Static_Heap Unity_Fixture Unity_Suites Unity_Float_Assertions
    Unity_Output
begin

text \<open>
  \<^bold>\<open>The program.\<close> The repository holds a Linux character device that remembers the last ten lines
  written to it (\<^verbatim>\<open>aesd-char-driver\<close>), a TCP server that stores what clients send in that device
  and sends its contents back (\<^verbatim>\<open>server\<close>), a few small programs and exercises (\<^verbatim>\<open>finder-app\<close>,
  \<^verbatim>\<open>examples\<close>, \<^verbatim>\<open>assignment-autotest/test\<close>), and the test framework that its tests run on
  (\<^verbatim>\<open>assignment-autotest/Unity\<close>). Paths are below \<^verbatim>\<open>src/\<close>.

  \<^bold>\<open>Conventions.\<close> A C struct is a record, an enumeration a datatype, a machine integer a word of its
  width; \<open>int\<close> has 32 bits and \<open>long\<close>, \<open>size_t\<close> and pointers have 64 (LP64). An operation returns the
  updated state. \<open>None\<close> as the result of an operation means that the C code has no defined outcome
  there, or never returns: a freed or null pointer is used, an array is left, a mutex is waited for
  in vain. So a theorem that a result is \<open>Some\<close> also says that none of this happens. In the Unity
  theories \<open>Inl\<close> is a state at a \<open>longjmp\<close> out of the test and \<open>Inr\<close> one at a return. Error codes are
  the negative integers of the code. What the kernel, the C library, the sockets and the code of the
  tests answer is a parameter: a record of functions or answers, on which theorems place named
  hypotheses (\<open>kernel_ok\<close>, \<open>can_enter\<close>, \<open>os_ok\<close>, \<open>line_client\<close>, \<open>all_fixtures\<close>), with witnesses that meet
  them. The code of fixture tests is given as programs (\<open>test_program\<close>), which need no hypothesis on
  what they do to memory.

  \<^bold>\<open>Parts and theories.\<close>
  \<^item> \<open>Prelude\<close>: integer types, C arrays (\<open>array_get\<close>, \<open>array_set\<close>), list and word lemmas.
  \<^item> \<open>Command_Log\<close>: two interfaces, a bounded log of commands (\<open>command_log\<close>) and one with positions
    (\<open>seekable_log\<close>), with \<open>locate\<close> and \<open>seek_pos\<close> as what a position means.
  \<^item> \<open>Circular_Buffer\<close>: \<^verbatim>\<open>aesd-char-driver/aesd-circular-buffer.c\<close> and \<^verbatim>\<open>.h\<close>. The ring of ten slots,
    its insertion, its two searches and the loop macro; well-formedness \<open>cb_wf\<close>, the list \<open>entries\<close> it
    stands for, and the interpretation of both interfaces.
  \<^item> \<open>Kernel_Heap\<close>: \<open>kmalloc\<close>, \<open>krealloc\<close>, \<open>kfree\<close> over a partial map of blocks, the copies from and to
    the user, and the record of the kernel's answers.
  \<^item> \<open>Char_Driver\<close>: every function of \<^verbatim>\<open>main.c\<close>: open, release, read, write, seek, the seek command,
    loading and unloading; the state \<open>kstate\<close> holds the memory, the device and the registrations.
  \<^item> \<open>Driver_Refinement\<close>, \<open>Byte_Source\<close>, \<open>Driver_Behaviour\<close>, \<open>Driver_Properties\<close>: the ownership invariant
    \<open>dev_inv\<close>, the abstraction to the list \<open>commands\<close> and the fragment \<open>pending\<close>, the abstract write
    \<open>spec_write\<close>, the interface of a file that is read from front to back and its interpretation by
    the driver, reachability by the relation \<open>dev_step\<close> (every handler call, seeks of any mode and
    interrupted waits included), and the properties.
  \<^item> \<open>Driver_Concurrency\<close>: read, write and seek cut into the steps between which other tasks can run
    (\<open>handler_step\<close>, shown equal to the handlers when a task runs alone), and all their interleavings
    (\<open>conc_step\<close>); the record \<open>happened\<close> says in which order they took effect and who kept the mutex.
  \<^item> \<open>Aesd_Socket\<close>, \<open>Server_Process\<close>: \<^verbatim>\<open>server/aesdsocket.c\<close>: the thread of one connection over the model
    of the driver, the signal handler, the accept loop, and then the process: its start, its end and
    the thread that formats the time. What \<open>recv\<close> and \<open>send\<close> answer and what the stack held before are
    parts of a \<open>connection\<close>. \<open>Server_History\<close> joins server, driver and buffer over the whole
    life of the process.
  \<^item> \<open>Systemcalls\<close>, \<open>Threading\<close>, \<open>Writer\<close>, \<open>Username\<close>: \<^verbatim>\<open>examples/systemcalls/systemcalls.c\<close>,
    \<^verbatim>\<open>examples/threading/threading.c\<close> (as a step relation over all schedules), \<^verbatim>\<open>finder-app/writer.c\<close>,
    \<^verbatim>\<open>examples/autotest-validate/autotest-validate.c\<close> with
    \<^verbatim>\<open>assignment-autotest/test/assignment1/username-from-conf-file.h\<close>.
  \<^item> \<open>Unity_Print\<close>, \<open>Unity_Core\<close>, \<open>Unity_Arrays\<close>: of \<^verbatim>\<open>Unity/src/unity.c\<close> the printers, the state \<open>Unity\<close>, the
    report lines and the assertions, those on arrays over a memory of bounded objects. Each assertion
    is shown equal to \<open>assertion ok report\<close>: it passes without effect if \<open>ok\<close>, or else prints and leaves.
  \<^item> \<open>Unity_Macros\<close>: the macros of \<^verbatim>\<open>unity.h\<close> and \<^verbatim>\<open>unity_internals.h\<close> that tests are written with, one
    definition for the macros that differ in the type only.
  \<^item> \<open>Floating_Point\<close>, \<open>Unity_Float\<close>: IEEE 754 as far as the framework uses it (a finite number is a
    rational, results are rounded to nearest), and of \<^verbatim>\<open>unity.c\<close> and the headers the floating-point printer,
    the comparisons, traits, array loops and macros, for both values of \<open>UNITY_INCLUDE_DOUBLE\<close> (\<open>build\<close>).
    \<open>Unity_Float_Scaling\<close> bounds the loops and the accumulated rounding of the printer (\<open>approx\<close>,
    \<open>scaled_near\<close>), \<open>Unity_Float_Printing\<close> reads the text back (\<open>read_float\<close>), \<open>Unity_Float_Assertions\<close>
    shows what the assertions decide (\<open>number_within\<close>, \<open>equal_up_to\<close>, \<open>has_trait\<close>).
  \<^item> \<open>Unity_Runner\<close>: the default runner. The locale \<open>test_code\<close> is the contract between the runner and the
    code in a test (it keeps the counters and takes no mark away); it is interpreted by all assertions
    and by \<open>TEST_PASS\<close>, and closed under sequencing. The verdict of a test is that of the marks it leaves
    (\<open>verdict_of\<close>, \<open>explained\<close>).
  \<^item> \<open>Unity_Args\<close>: the command line of a generated runner, its filters, and \<open>UnityPrintF\<close>.
  \<^item> \<open>Unity_Memory\<close>: \<^verbatim>\<open>Unity/extras/memory/src/unity_memory.c\<close>, the checking allocator; invariant \<open>heap_inv\<close>
    over all sequences of calls and stores (\<open>heap_steps\<close>).
  \<^item> \<open>Unity_Fixture\<close>: \<^verbatim>\<open>Unity/extras/fixture/src/unity_fixture.c\<close>: groups of tests, pointers restored after
    each test, the command line and repeated runs. Test code is a program of assertions, assignments and
    \<open>UnityPointer_Set\<close>; every program meets the contract \<open>fixture_code\<close>, which names the cells it
    writes without having set them (\<open>strays\<close>).
  \<^item> \<open>Unity_Suites\<close>: \<^verbatim>\<open>unity_fixture.h\<close>: the macros that declare tests and groups and run them, whole
    programs over the fixture runner (a list of verdicts explains each run), and the CppUTest macros.
  \<^item> \<open>Unity_Config\<close>: what \<^verbatim>\<open>unity_internals.h\<close> computes before anything is compiled: widths and types from the
    limits of a \<open>platform\<close>, 64-bit and floating-point macros in builds with and without these types,
    \<open>RUN_TEST\<close>, and the time printed behind a test. The other theories fix LP64, an instance of it.
  \<^item> \<open>Unity_Output\<close>: printing with \<open>UNITY_OUTPUT_COLOR\<close>, and the report line in its four formats.
  \<^item> \<open>Unity_Static_Heap\<close>: the allocator built on an array, byte by byte; the blocks \<open>tiled\<close> in it, the
    invariant \<open>static_inv\<close> over all sequences of calls and stores (\<open>static_reachable\<close>).

  \<^bold>\<open>What the theorems show.\<close> For the device: a read from its start delivers exactly the last ten
  lines; every write does what the abstract write says or fails with \<open>-ENOMEM\<close>; in all reachable
  states no block is used after its release or freed twice, and
  every call that finds the mutex free returns; searches and seeks are inverse to each other. The
  exceptions that the code has are theorems too: the seek from the end that never releases the mutex
  (the only call that does not), the interrupted wait, the fragment lost by a failed reallocation, the
  block leaked by an eviction. For the server: a line is stored and the whole device echoed, a seek command sends the rest of the device, connections are
  served one at a time until a signal; a message without a zero byte behind it on the stack has no
  defined outcome, and what a \<open>send\<close> does not take is lost. Calls of several tasks that are interleaved
  at every access to the device take effect one after the other, lines stay whole, and every call can
  go on or waits for one that can, until a seek keeps the mutex. For the threads: mutual exclusion, and
  that all can finish with success if their mutexes are valid, in every schedule. From its start on a
  freshly loaded driver to its end, the server answers each line (of a length its buffer holds, not
  starting with the command's prefix) with the last ten. For Unity: every assertion passes exactly if
  what its name says holds of the values of its type (with the exceptions proved for arrays of \<open>size_t\<close> and of unsigned numbers); printed
  integers read back exactly and printed floating-point numbers up to a millionth of their value (a
  hundred-millionth with \<open>double\<close>); equality of numbers is equality to five digits; the counters of a run
  are the numbers of tests with each verdict, whatever the tests do; leaks and overruns are
  reported exactly; pointers are restored however a test ends. A program of test groups returns the
  number of the chosen tests that failed; the types derived from a conforming platform fit it, and a
  macro for a type that the build lacks never passes; blocks of the static heap stay intact and apart,
  but a failed reallocation in place loses its block; with colours, printing reads past a string exactly if
  it has an escape sequence that does not end.

  \<^bold>\<open>Bounds and termination.\<close> The loops of the circular buffer and the loop that sends a file are partial
  functions in the option monad, and the theorems show that they have a value: at most ten passes,
  and one pass per piece. So are the scaling loops of the floating-point printer, which end for every
  number of the type after at most \<open>enlarge_passes\<close> or \<open>reduce_passes\<close> and ten more. The other loops
  are recursive with a measure, or structural. Buffer lengths stay below \<open>2 ^ 64\<close> (\<open>2 ^ 63\<close> for file positions) by hypotheses, where the
  code computes with them; compared strings are shorter than 4 GiB, where their index has 32 bits.
  The schedules of threads, the steps of a reachable state and the sequences of calls of a test are
  lists or inductive relations of any length.

  \<^bold>\<open>Not modelled.\<close> Of Unity the macros that replace the functions it writes characters with, the calls
  that take the time of a test (what is printed from two times is modelled), and the builds
  that exclude \<open>setjmp\<close> or the details of a test; the sign of a zero and the payload of a NaN, on which
  nothing modelled depends. The file
  \<^verbatim>\<open>aesd-char-driver/aesdchar.mod.c\<close> is generated by the kernel build. Tests, examples, the Ruby and shell
  tools, build and configuration files are no part of the program's logic. Log messages are left out,
  but for the server's start.

  The interleavings leave out the \<open>ioctl\<close> handler, which reads the buffer without the mutex (a data race
  with a write has no defined outcome), interrupted waits and the failed reallocation of a fragment; the
  latter two are in the step relation of whole calls.
\<close>

end
